(* ===== verification/Zeno_Prelude.thy ===== *)
theory Zeno_Prelude
  imports Main "HOL-Library.Word" "HOL-Library.Signed_Division"
begin

text \<open>
  Shared vocabulary of the development.

  \<^item> Errors: \<open>kvdb_error\<close> separates a failed \<^verbatim>\<open>KVDB_CHECK\<close> / \<^verbatim>\<open>KVDB_FATAL\<close> (\<open>Fatal\<close>, one
    constructor per kind of check) from undefined behaviour of C++ (\<open>Undefined\<close>) and from an
    error that a backend reports to PostgreSQL (\<open>Report\<close>, \<^verbatim>\<open>ereport(ERROR)\<close>).
  \<^item> Effects: \<open>('s, 'a) kvm\<close> is a computation on a state \<open>'s\<close> that may fail; a failing
    computation still returns the state it had reached, because the mapped files outlive the
    process that aborts.
  \<^item> Bytes: little-endian encodings of machine words, and reads and writes of byte memories.
  \<^item> C integers: the partial arithmetic of \<^verbatim>\<open>int\<close> on 32-bit words.
  \<^item> C strings: the bytes up to the first NUL.
\<close>

unbundle bit_operations_syntax

named_theorems kvm_simps \<open>equations that run a computation\<close>
named_theorems mem_simps \<open>reads of a byte memory after writes\<close>

type_synonym byte = "8 word"
type_synonym u16 = "16 word"
type_synonym u32 = "32 word"
type_synonym u64 = "64 word"
type_synonym i32 = "32 word"
type_synonym i64 = "64 word"

section \<open>Errors and computations\<close>

datatype check =
    KeyOutOfRange
  | StoreOutOfRange
  | LocalPartition
  | SegmentNotFound
  | RidOutOfRange
  | WalRidType
  | WalPendingFull
  | WalFileFull
  | WalBatchSize
  | WalPayloadCapacity
  | WalPayloadTooShort
  | WalEncrypt
  | WalDecrypt
  | WalPlaintextSize
  | WalPayloadHeader
  | WalTruncated
  | WalRecordTruncated
  | WalValueLength
  | WalPayloadType
  | WalTrailing
  | WalValueTooLarge
  | WalEntryType
  | CryptoFailed
  | CiphertextTooShort
  | StringLength
  | EmptyBatchRequest
  | RegionId
  | RegionNotAllocated
  | ResponseFailed
  | BatchMismatch

datatype ub =
    VectorIndex
  | SignedOverflow
  | DivideByZero
  | OverRead
  | BufferOverflow
  | FloatToInt
  | NegativeSize
  | Uninitialised
  | NullPointer
  | FuelExhausted

datatype sql_report =
    RequestFailed
  | TextTooLong
  | InvalidSyntax
  | OutOfRange
  | DatePartField
  | TypeMissing
  | PartitionConflict
  | NotTrigger
  | UnsupportedEvent

datatype kvdb_error = Fatal check | Undefined ub | Report sql_report

type_synonym ('s, 'a) kvm = "'s \<Rightarrow> (kvdb_error + 'a) \<times> 's"

definition ret :: "'a \<Rightarrow> ('s, 'a) kvm" where
  "ret x = (\<lambda>s. (Inr x, s))"

definition raise :: "kvdb_error \<Rightarrow> ('s, 'a) kvm" where
  "raise e = (\<lambda>s. (Inl e, s))"

definition bindE :: "('s, 'a) kvm \<Rightarrow> ('a \<Rightarrow> ('s, 'b) kvm) \<Rightarrow> ('s, 'b) kvm" where
  "bindE m f = (\<lambda>s. case m s of (Inl e, s') \<Rightarrow> (Inl e, s') | (Inr x, s') \<Rightarrow> f x s')"

text \<open>\<^verbatim>\<open>KVDB_CHECK(cond, \<dots>)\<close>: carry on or fail.\<close>

definition kvdb_check :: "bool \<Rightarrow> check \<Rightarrow> ('s, unit) kvm" where
  "kvdb_check b c = (if b then ret () else raise (Fatal c))"

text \<open>A value that C++ may leave undefined, as a computation.\<close>

definition lift_sum :: "kvdb_error + 'a \<Rightarrow> ('s, 'a) kvm" where
  "lift_sum r = (\<lambda>s. (r, s))"

text \<open>Run a computation on one component of a larger state.\<close>

definition zoom :: "('s \<Rightarrow> 't) \<Rightarrow> (('t \<Rightarrow> 't) \<Rightarrow> 's \<Rightarrow> 's) \<Rightarrow> ('t, 'a) kvm \<Rightarrow> ('s, 'a) kvm" where
  "zoom get upd m = (\<lambda>s. case m (get s) of (r, t) \<Rightarrow> (r, upd (\<lambda>_. t) s))"

lemma ret_run [simp, kvm_simps]: "ret x s = (Inr x, s)"
  by (simp add: ret_def)

lemma raise_run [simp, kvm_simps]: "raise e s = (Inl e, s)"
  by (simp add: raise_def)

lemma lift_sum_run [simp, kvm_simps]: "lift_sum r s = (r, s)"
  by (simp add: lift_sum_def)

lemma bindE_Inl [simp]: "m s = (Inl e, s') \<Longrightarrow> bindE m f s = (Inl e, s')"
  by (simp add: bindE_def)

lemma bindE_Inr [simp]: "m s = (Inr x, s') \<Longrightarrow> bindE m f s = f x s'"
  by (simp add: bindE_def)

lemma bindE_ret [simp]: "bindE (ret x) f = f x"
  by (simp add: bindE_def fun_eq_iff)

lemma bindE_assoc: "bindE (bindE m f) g = bindE m (\<lambda>x. bindE (f x) g)"
  by (rule ext) (simp add: bindE_def split: prod.splits sum.splits)

lemma bindE_eq_Inr:
  "bindE m f s = (Inr y, s'') \<longleftrightarrow> (\<exists>x s'. m s = (Inr x, s') \<and> f x s' = (Inr y, s''))"
  by (auto simp: bindE_def split: prod.splits sum.splits)

lemma kvdb_check_True [simp]: "b \<Longrightarrow> kvdb_check b c s = (Inr (), s)"
  by (simp add: kvdb_check_def)

lemma kvdb_check_False [simp]: "\<not> b \<Longrightarrow> kvdb_check b c s = (Inl (Fatal c), s)"
  by (simp add: kvdb_check_def)

lemma kvdb_check_Inr [simp]: "kvdb_check b c s = (Inr u, s') \<longleftrightarrow> b \<and> s' = s"
  by (auto simp: kvdb_check_def)

lemma zoom_run: "m (get s) = (r, t) \<Longrightarrow> zoom get upd m s = (r, upd (\<lambda>_. t) s)"
  by (simp add: zoom_def)

lemmas kvm_defs = bindE_def zoom_def kvdb_check_def lift_sum_def ret_def raise_def

section \<open>Little-endian bytes\<close>

lemma unat_u64_less: "unat (w :: u64) < 18446744073709551616"
  using unsigned_less [of w, where ?'a = nat] by simp

lemma unat_u32_less: "unat (w :: u32) < 4294967296"
  using unsigned_less [of w, where ?'a = nat] by simp

definition le_bytes :: "nat \<Rightarrow> 'a::len word \<Rightarrow> byte list" where
  "le_bytes n w = map (\<lambda>i. ucast (drop_bit (8 * i) w)) [0..<n]"

primrec le_word :: "byte list \<Rightarrow> 'a::len word" where
  "le_word [] = 0"
| "le_word (b # bs) = ucast b OR push_bit 8 (le_word bs)"

lemma length_le_bytes [simp]: "length (le_bytes n w) = n"
  by (simp add: le_bytes_def)

lemma le_bytes_0 [simp]: "le_bytes 0 w = []"
  by (simp add: le_bytes_def)

lemma le_bytes_Suc: "le_bytes (Suc n) w = ucast w # le_bytes n (drop_bit 8 w)"
proof -
  have "[0..<Suc n] = 0 # map Suc [0..<n]"
    by (simp add: upt_conv_Cons map_Suc_upt)
  then show ?thesis
    by (simp add: le_bytes_def add.commute)
qed

lemma le_word_le_bytes_aux:
  "le_word (le_bytes n w) = take_bit (8 * n) w" for w :: "'a::len word"
proof (induction n arbitrary: w)
  case (Suc n)
  have "ucast (ucast w :: byte) OR push_bit 8 (take_bit (8 * n) (drop_bit 8 w))
      = take_bit (8 * Suc n) w"
    by (rule bit_word_eqI) (auto simp: bit_simps)
  with Suc show ?case
    by (simp add: le_bytes_Suc)
qed simp

lemma le_word_le_bytes:
  "LENGTH('a) \<le> 8 * n \<Longrightarrow> le_word (le_bytes n w) = w" for w :: "'a::len word"
  by (simp add: le_word_le_bytes_aux take_bit_word_eq_self)

lemma le_word_le_bytes_u16 [simp]: "le_word (le_bytes 2 (w :: u16)) = w"
  by (rule le_word_le_bytes) simp

lemma le_word_le_bytes_u32 [simp]: "le_word (le_bytes 4 (w :: u32)) = w"
  by (rule le_word_le_bytes) simp

lemma le_word_le_bytes_u64 [simp]: "le_word (le_bytes 8 (w :: u64)) = w"
  by (rule le_word_le_bytes) simp

lemma le_word_le_bytes_u8 [simp]: "le_word (le_bytes 1 (w :: byte)) = w"
  by (rule le_word_le_bytes) simp

section \<open>Byte memories\<close>

type_synonym mem = "nat \<Rightarrow> byte"

definition wr_bytes :: "mem \<Rightarrow> nat \<Rightarrow> byte list \<Rightarrow> mem" where
  "wr_bytes m a bs = (\<lambda>i. if a \<le> i \<and> i < a + length bs then bs ! (i - a) else m i)"

definition rd_bytes :: "mem \<Rightarrow> nat \<Rightarrow> nat \<Rightarrow> byte list" where
  "rd_bytes m a n = map (\<lambda>i. m (a + i)) [0..<n]"

lemma length_rd_bytes [simp]: "length (rd_bytes m a n) = n"
  by (simp add: rd_bytes_def)

lemma rd_wr_same: "n = length bs \<Longrightarrow> rd_bytes (wr_bytes m a bs) a n = bs"
  by (auto simp: rd_bytes_def wr_bytes_def intro: nth_equalityI)

lemma rd_wr_other [mem_simps]:
  "b + n \<le> a \<or> a + length bs \<le> b \<Longrightarrow> rd_bytes (wr_bytes m a bs) b n = rd_bytes m b n"
  by (auto simp: rd_bytes_def wr_bytes_def)

lemma rd_wr_inside:
  "i + n \<le> length bs \<Longrightarrow> rd_bytes (wr_bytes m a bs) (a + i) n = take n (drop i bs)"
  by (rule nth_equalityI) (simp_all add: rd_bytes_def wr_bytes_def)

lemma wr_bytes_Nil [simp]: "wr_bytes m a [] = m"
  by (auto simp: wr_bytes_def fun_eq_iff)

lemma wr_bytes_append: "wr_bytes (wr_bytes m a xs) (a + length xs) ys = wr_bytes m a (xs @ ys)"
  by (auto simp: wr_bytes_def nth_append fun_eq_iff)

lemma rd_bytes_append: "rd_bytes m a (n + k) = rd_bytes m a n @ rd_bytes m (a + n) k"
  by (rule nth_equalityI) (auto simp: rd_bytes_def nth_append)

lemma rd_bytes_Suc: "rd_bytes m a (Suc n) = m a # rd_bytes m (Suc a) n"
  by (rule nth_equalityI) (auto simp: rd_bytes_def nth_Cons simp del: upt_Suc split: nat.splits)

lemma take_rd_bytes: "k \<le> n \<Longrightarrow> take k (rd_bytes m a n) = rd_bytes m a k"
  by (simp add: rd_bytes_def take_map)

abbreviation rd32 :: "mem \<Rightarrow> nat \<Rightarrow> u32" where
  "rd32 m a \<equiv> le_word (rd_bytes m a 4)"

abbreviation rd64 :: "mem \<Rightarrow> nat \<Rightarrow> u64" where
  "rd64 m a \<equiv> le_word (rd_bytes m a 8)"

abbreviation wr32 :: "mem \<Rightarrow> nat \<Rightarrow> u32 \<Rightarrow> mem" where
  "wr32 m a w \<equiv> wr_bytes m a (le_bytes 4 w)"

abbreviation wr64 :: "mem \<Rightarrow> nat \<Rightarrow> u64 \<Rightarrow> mem" where
  "wr64 m a w \<equiv> wr_bytes m a (le_bytes 8 w)"

lemma rd_wr_same_le [mem_simps]: "rd_bytes (wr_bytes m a (le_bytes n w)) a n = le_bytes n w"
  by (rule rd_wr_same) simp

section \<open>C integers\<close>

text \<open>
  \<^verbatim>\<open>int\<close> is a 32-bit word read as two's complement. Addition, subtraction and multiplication
  that leave the range of \<^verbatim>\<open>int\<close> are undefined in C++; so is a division by zero or
  \<^verbatim>\<open>INT_MIN / -1\<close>. Division truncates towards zero.
\<close>

definition in_int :: "int \<Rightarrow> bool" where
  "in_int x \<longleftrightarrow> - (2 ^ 31) \<le> x \<and> x < 2 ^ 31"

definition c_int :: "int \<Rightarrow> kvdb_error + i32" where
  "c_int x = (if in_int x then Inr (word_of_int x) else Inl (Undefined SignedOverflow))"

definition c_add :: "i32 \<Rightarrow> i32 \<Rightarrow> kvdb_error + i32" where
  "c_add a b = c_int (sint a + sint b)"

definition c_sub :: "i32 \<Rightarrow> i32 \<Rightarrow> kvdb_error + i32" where
  "c_sub a b = c_int (sint a - sint b)"

definition c_mult :: "i32 \<Rightarrow> i32 \<Rightarrow> kvdb_error + i32" where
  "c_mult a b = c_int (sint a * sint b)"

definition c_div :: "i32 \<Rightarrow> i32 \<Rightarrow> kvdb_error + i32" where
  "c_div a b = (if b = 0 then Inl (Undefined DivideByZero) else c_int (sint a sdiv sint b))"

definition c_mod :: "i32 \<Rightarrow> i32 \<Rightarrow> kvdb_error + i32" where
  "c_mod a b =
     (if b = 0 then Inl (Undefined DivideByZero)
      else if in_int (sint a sdiv sint b) then c_int (sint a smod sint b)
      else Inl (Undefined SignedOverflow))"

lemma sint_in_int [simp]: "in_int (sint (w :: i32))"
  using sint_greater_eq [of w] sint_less [of w] by (simp add: in_int_def)

lemma sint_word_of_int_in [simp]: "in_int x \<Longrightarrow> sint (word_of_int x :: i32) = x"
  by (simp add: in_int_def sint_sbintrunc' signed_take_bit_int_eq_self_iff)

lemma c_int_Inr: "c_int x = Inr w \<longleftrightarrow> in_int x \<and> sint w = x"
  by (auto simp: c_int_def)

lemma sint_eq_iff: "sint (b :: i32) = k \<longleftrightarrow> in_int k \<and> b = word_of_int k"
  using sint_word_of_int_in [of k] sint_in_int [of b] by auto

lemma abs_sdiv: "\<bar>a sdiv b\<bar> = \<bar>a\<bar> div \<bar>b :: int\<bar>" if "b \<noteq> 0"
  using that by (auto simp: signed_divide_int_def abs_mult sgn_if pos_imp_zdiv_nonneg_iff)

lemma sdiv_in_int:
  assumes "(b :: i32) \<noteq> 0"
  shows "in_int (sint a sdiv sint b) \<longleftrightarrow> \<not> (sint (a :: i32) = - (2 ^ 31) \<and> b = - 1)"
proof -
  let ?a = "sint a" and ?b = "sint b"
  have rng: "- (2 ^ 31) \<le> ?a" "?a < 2 ^ 31"
    using sint_in_int [of a] by (simp_all add: in_int_def)
  have bm1: "b = - 1 \<longleftrightarrow> ?b = - 1" and b0: "?b \<noteq> 0"
    using assms by (auto simp: sint_eq_iff in_int_def)
  consider "?b = 1" | "?b = - 1" | "2 \<le> \<bar>?b\<bar>"
    using b0 by linarith
  then show ?thesis
  proof cases
    case 3
    then have "\<bar>?a\<bar> div \<bar>?b\<bar> \<le> \<bar>?a\<bar> div 2"
      by (intro zdiv_mono2) simp_all
    also have "\<dots> \<le> 2 ^ 30"
      using rng zdiv_mono1 [of "\<bar>?a\<bar>" "2 ^ 31" 2] by simp
    finally have "\<bar>?a sdiv ?b\<bar> \<le> 2 ^ 30"
      using abs_sdiv [OF b0] by simp
    then show ?thesis
      using 3 bm1 by (auto simp: in_int_def)
  qed (use rng bm1 in \<open>auto simp: in_int_def signed_divide_int_def sgn_mult_abs\<close>)
qed

lemma smod_int_range_abs: "\<bar>a smod b\<bar> < \<bar>b\<bar>" if "(b :: int) \<noteq> 0"
proof -
  have "a smod b = sgn a * (\<bar>a\<bar> mod \<bar>b\<bar>)"
    by (simp add: signed_modulo_int_def)
  then show ?thesis
    using that by (auto simp: abs_mult sgn_if)
qed

lemma smod_in_int:
  assumes "(b :: i32) \<noteq> 0"
  shows "in_int (sint (a :: i32) smod sint b)"
proof -
  have "sint b \<noteq> 0"
    using assms by (auto simp: sint_eq_iff)
  then have "\<bar>sint a smod sint b\<bar> < \<bar>sint b\<bar>"
    by (simp add: smod_int_range_abs)
  then show ?thesis
    using sint_in_int [of b] by (auto simp: in_int_def)
qed

section \<open>C strings\<close>

text \<open>
  \<open>cstr bs\<close> is what \<^verbatim>\<open>strlen\<close> and \<^verbatim>\<open>std::string(const char *)\<close> see of a buffer \<open>bs\<close>: the
  bytes before the first NUL. A text value of the model never holds a NUL.
\<close>

definition cstr :: "byte list \<Rightarrow> byte list" where
  "cstr bs = takeWhile (\<lambda>b. b \<noteq> 0) bs"

definition is_text :: "byte list \<Rightarrow> bool" where
  "is_text bs \<longleftrightarrow> 0 \<notin> set bs"

lemma is_text_cstr [simp]: "is_text (cstr bs)"
  by (auto simp: is_text_def cstr_def dest: set_takeWhileD)

lemma cstr_text [simp]: "is_text bs \<Longrightarrow> cstr bs = bs"
  by (auto simp: is_text_def cstr_def takeWhile_eq_all_conv)

lemma cstr_append_nul: "is_text bs \<Longrightarrow> cstr (bs @ 0 # rest) = bs"
  by (induction bs) (auto simp: cstr_def is_text_def)

lemma is_text_Nil [simp]: "is_text []"
  by (simp add: is_text_def)

lemma is_text_append [simp]: "is_text (xs @ ys) \<longleftrightarrow> is_text xs \<and> is_text ys"
  by (auto simp: is_text_def)

lemma is_text_take [simp]: "is_text xs \<Longrightarrow> is_text (take n xs)"
  by (auto simp: is_text_def dest: in_set_takeD)

text \<open>
  Reading a C string out of a memory of \<open>limit\<close> bytes: \<open>None\<close> when no NUL comes before the
  end, which is a read past the array.
\<close>

function read_cstr :: "mem \<Rightarrow> nat \<Rightarrow> nat \<Rightarrow> byte list option" where
  "read_cstr m pos limit =
     (if limit \<le> pos then None
      else if m pos = 0 then Some []
      else map_option (Cons (m pos)) (read_cstr m (Suc pos) limit))"
  by pat_completeness auto
termination
  by (relation "measure (\<lambda>(m, pos, limit). limit - pos)") auto

declare read_cstr.simps [simp del]

lemma read_cstr_stored:
  assumes "is_text bs" "pos + length bs < limit"
    "rd_bytes m pos (length bs) = bs" "m (pos + length bs) = 0"
  shows "read_cstr m pos limit = Some bs"
  using assms
proof (induction bs arbitrary: pos)
  case Nil
  then show ?case by (simp add: read_cstr.simps [of m pos])
next
  case (Cons b bs)
  from Cons.prems(1) have nz: "b \<noteq> 0" and tx: "is_text bs"
    by (auto simp: is_text_def)
  from Cons.prems(3) have mb: "m pos = b" and rd: "rd_bytes m (Suc pos) (length bs) = bs"
    by (auto simp: rd_bytes_Suc)
  have "read_cstr m (Suc pos) limit = Some bs"
    using Cons.prems(2,4) tx rd by (intro Cons.IH) auto
  with nz mb Cons.prems(2) show ?case
    by (simp add: read_cstr.simps [of m pos])
qed

lemma read_cstr_cong:
  assumes "read_cstr m pos limit = Some bs" "\<And>i. pos \<le> i \<Longrightarrow> i \<le> pos + length bs \<Longrightarrow> m' i = m i"
  shows "read_cstr m' pos limit = Some bs"
  using assms
proof (induction bs arbitrary: pos)
  case Nil
  from Nil.prems(1) have "pos < limit" "m pos = 0"
    by (auto simp: read_cstr.simps [of m pos] split: if_splits)
  with Nil.prems(2) [of pos] show ?case
    by (simp add: read_cstr.simps [of m' pos])
next
  case (Cons b bs)
  from Cons.prems(1) have lt: "pos < limit" and nz: "m pos \<noteq> 0" and b: "b = m pos"
    and rest: "read_cstr m (Suc pos) limit = Some bs"
    by (auto simp: read_cstr.simps [of m pos] split: if_splits)
  have "read_cstr m' (Suc pos) limit = Some bs"
    using rest by (rule Cons.IH) (use Cons.prems(2) in auto)
  with lt nz b Cons.prems(2) [of pos] show ?case
    by (simp add: read_cstr.simps [of m' pos])
qed

lemma read_cstr_text: "read_cstr m pos limit = Some bs \<Longrightarrow> is_text bs"
proof (induction m pos limit arbitrary: bs rule: read_cstr.induct)
  case (1 m pos limit)
  then show ?case
    by (subst (asm) (2) read_cstr.simps) (auto simp: is_text_def split: if_splits)
qed

lemma read_cstr_bound: "read_cstr m pos limit = Some bs \<Longrightarrow> pos + length bs < limit"
proof (induction bs arbitrary: pos)
  case Nil
  then show ?case
    by (auto simp: read_cstr.simps [of m pos] split: if_splits)
next
  case (Cons b bs)
  then have "read_cstr m (Suc pos) limit = Some bs"
    by (auto simp: read_cstr.simps [of m pos] split: if_splits)
  from Cons.IH [OF this] show ?case by simp
qed

end
