(* ===== verification/Zeno_Rpc.thy ===== *)
theory Zeno_Rpc
  imports Zeno_Prelude
begin

text \<open>
  The shared-memory channel between database backends and workers: the region bitmap of
  \<^verbatim>\<open>src/src/include/rpc.h\<close>, the client side of \<^verbatim>\<open>src/src/integrity_zone/client.cpp\<close> and the polling
  loop of \<^verbatim>\<open>src/src/privacy_zone/server.cpp\<close>. \<open>claim_shm_region\<close> and \<open>release_shm_region\<close> are the
  two bitmap functions run alone; \<open>rpc_step\<close> interleaves any number of clients and workers at the
  granularity of the accesses to shared memory, including the load and the compare-and-swap of
  a claim. Accesses are sequentially consistent (the code places barriers around the status
  word). \<open>rpc_inv\<close> is the invariant that gives exclusive regions, and that a client reads
  exactly what a worker computed from the request it sent.
\<close>

section \<open>The bitmap\<close>

definition MAX_REGION_NUM :: nat where "MAX_REGION_NUM = (540 * 1024 * 1024 - 1024) div (1024 * 1024)"
definition BITMAP_SIZE :: nat where "BITMAP_SIZE = (MAX_REGION_NUM + 63) div 64"

definition BITMAP_WORD :: "nat \<Rightarrow> nat" where "BITMAP_WORD n = n div 64"
definition BITMAP_MASK :: "nat \<Rightarrow> u64" where "BITMAP_MASK n = push_bit (n mod 64) 1"

definition GET :: "u64 list \<Rightarrow> nat \<Rightarrow> bool" where
  "GET bm n \<longleftrightarrow> (bm ! BITMAP_WORD n) AND BITMAP_MASK n \<noteq> 0"

definition SET :: "u64 list \<Rightarrow> nat \<Rightarrow> u64 list" where
  "SET bm n = bm[BITMAP_WORD n := (bm ! BITMAP_WORD n) OR BITMAP_MASK n]"

definition CLEAR :: "u64 list \<Rightarrow> nat \<Rightarrow> u64 list" where
  "CLEAR bm n = bm[BITMAP_WORD n := (bm ! BITMAP_WORD n) AND NOT (BITMAP_MASK n)]"

text \<open>The claim without contention: the compare-and-swap succeeds at once.\<close>

function claim_from :: "u64 list \<Rightarrow> nat \<Rightarrow> int \<times> u64 list" where
  "claim_from bm region_id =
     (if region_id < MAX_REGION_NUM then
        (if GET bm region_id then claim_from bm (region_id + 1) else (int region_id, SET bm region_id))
      else (- 1, bm))"
  by pat_completeness auto
termination
  by (relation "measure (\<lambda>(bm, r). MAX_REGION_NUM - r)") auto

declare claim_from.simps [simp del]

definition claim_shm_region :: "u64 list \<Rightarrow> int \<times> u64 list" where
  "claim_shm_region bm = claim_from bm 0"

definition release_shm_region :: "int \<Rightarrow> (u64 list, unit) kvm" where
  "release_shm_region region_id =
     bindE (kvdb_check (0 \<le> region_id \<and> region_id < int MAX_REGION_NUM) RegionId) (\<lambda>_ bm.
     if GET bm (nat region_id) then (Inr (), CLEAR bm (nat region_id))
     else (Inl (Fatal RegionNotAllocated), CLEAR bm (nat region_id)))"

definition bitmap_ok :: "u64 list \<Rightarrow> bool" where
  "bitmap_ok bm \<longleftrightarrow> length bm = BITMAP_SIZE"

lemma MAX_REGION_NUM_val: "MAX_REGION_NUM = 539"
  by (simp add: MAX_REGION_NUM_def)

lemma BITMAP_SIZE_val: "BITMAP_SIZE = 9"
  by (simp add: BITMAP_SIZE_def MAX_REGION_NUM_val)

lemma GET_bit: "GET bm n \<longleftrightarrow> bit (bm ! (n div 64)) (n mod 64)"
  by (simp add: GET_def BITMAP_WORD_def BITMAP_MASK_def push_bit_of_1 and_exp_eq_0_iff_not_bit)

lemma word_in_range: "bitmap_ok bm \<Longrightarrow> n < MAX_REGION_NUM \<Longrightarrow> n div 64 < length bm"
  by (simp add: bitmap_ok_def MAX_REGION_NUM_val BITMAP_SIZE_val)

lemma same_bit: "n div 64 = k div 64 \<and> n mod 64 = k mod 64 \<longleftrightarrow> n = (k :: nat)"
  by (metis div_mult_mod_eq)

lemma nth_upd_bit:
  fixes bm :: "u64 list"
  assumes "n div 64 < length bm"
  shows "bit (bm[n div 64 := w] ! (k div 64)) (k mod 64) \<longleftrightarrow>
    (if n div 64 = k div 64 then bit w (k mod 64) else bit (bm ! (k div 64)) (k mod 64))"
  using assms by (simp add: nth_list_update)

lemma bit_mask_64: "bit (BITMAP_MASK n) (k mod 64) \<longleftrightarrow> n mod 64 = k mod 64"
  by (auto simp: BITMAP_MASK_def bit_simps)

lemma GET_SET:
  assumes "bitmap_ok bm" "n < MAX_REGION_NUM"
  shows "GET (SET bm n) k \<longleftrightarrow> k = n \<or> GET bm k"
proof -
  have "GET (SET bm n) k \<longleftrightarrow> (n div 64 = k div 64 \<and> n mod 64 = k mod 64) \<or> GET bm k"
    unfolding GET_bit SET_def BITMAP_WORD_def nth_upd_bit [OF word_in_range [OF assms]]
    by (simp add: bit_or_iff bit_mask_64) (metis)
  then show ?thesis
    unfolding same_bit by (simp add: eq_commute)
qed

lemma GET_CLEAR:
  assumes "bitmap_ok bm" "n < MAX_REGION_NUM"
  shows "GET (CLEAR bm n) k \<longleftrightarrow> k \<noteq> n \<and> GET bm k"
proof -
  have "GET (CLEAR bm n) k \<longleftrightarrow> \<not> (n div 64 = k div 64 \<and> n mod 64 = k mod 64) \<and> GET bm k"
    unfolding GET_bit CLEAR_def BITMAP_WORD_def nth_upd_bit [OF word_in_range [OF assms]]
    by (simp add: bit_and_iff bit_not_iff bit_mask_64) (metis)
  then show ?thesis
    unfolding same_bit by (simp add: eq_commute)
qed

lemma bitmap_ok_SET [simp]: "bitmap_ok (SET bm n) = bitmap_ok bm"
  and bitmap_ok_CLEAR [simp]: "bitmap_ok (CLEAR bm n) = bitmap_ok bm"
  by (simp_all add: bitmap_ok_def SET_def CLEAR_def)

lemma claim_from_spec:
  assumes "claim_from bm r = (ident, bm')"
  shows "(ident = - 1 \<and> bm' = bm \<and> (\<forall>k. r \<le> k \<longrightarrow> k < MAX_REGION_NUM \<longrightarrow> GET bm k)) \<or>
    (\<exists>n. ident = int n \<and> r \<le> n \<and> n < MAX_REGION_NUM \<and> \<not> GET bm n \<and> bm' = SET bm n
      \<and> (\<forall>k. r \<le> k \<longrightarrow> k < n \<longrightarrow> GET bm k))"
  using assms
proof (induction bm r rule: claim_from.induct)
  case (1 bm r)
  show ?case
  proof (cases "r < MAX_REGION_NUM \<and> GET bm r")
    case True
    with "1.prems" have "claim_from bm (r + 1) = (ident, bm')"
      by (simp add: claim_from.simps [of bm r])
    from "1.IH" [OF _ _ this] True show ?thesis
      by (metis Suc_eq_plus1 Suc_leD Suc_leI le_eq_less_or_eq)
  next
    case False
    with "1.prems" show ?thesis
      by (auto simp: claim_from.simps [of bm r] split: if_splits)
  qed
qed

section \<open>Clients and workers\<close>

datatype req_stat = NONE | SENT | DONE | EXIT

text \<open>
  Where a client is: outside; scanning the bitmap at a region, or having loaded its word;
  holding a claimed region not yet cleared; ready; with a request written; waiting; with the
  answer in front of it; closing, the status already reset.
\<close>

datatype 'd client =
    Outside
  | Scanning nat
  | Loaded nat u64
  | Claimed nat
  | Ready nat
  | Written nat 'd
  | Waiting nat 'd
  | Reading nat 'd
  | Closing nat

text \<open>Where a worker is: looking at a region, serving it, or about to publish the answer.\<close>

datatype worker = Polling nat | Serving nat | Served nat

record 'd rpc =
  bitmap :: "u64 list"
  rq_status :: "nat \<Rightarrow> req_stat"
  rq_data :: "nat \<Rightarrow> 'd"
  clients :: "nat \<Rightarrow> 'd client"
  workers :: "nat \<Rightarrow> worker"

definition OPS_WORKER_NUM :: nat where "OPS_WORKER_NUM = 15"

definition ops_worker_count :: nat where
  "ops_worker_count = (if OPS_WORKER_NUM < MAX_REGION_NUM then OPS_WORKER_NUM else MAX_REGION_NUM)"

text \<open>The loop of a worker visits its own residue class of regions.\<close>

definition next_region :: "nat \<Rightarrow> nat \<Rightarrow> nat" where
  "next_region w r = (if r + ops_worker_count < MAX_REGION_NUM then r + ops_worker_count else w)"

inductive rpc_step :: "('d \<Rightarrow> 'd) \<Rightarrow> 'd \<Rightarrow> 'd rpc \<Rightarrow> 'd rpc \<Rightarrow> bool" for serve zero where
  start: "clients s c = Outside \<Longrightarrow>
    rpc_step serve zero s (s\<lparr>clients := (clients s)(c := Scanning 0)\<rparr>)"
| load_taken: "clients s c = Scanning r \<Longrightarrow> r < MAX_REGION_NUM \<Longrightarrow> GET (bitmap s) r \<Longrightarrow>
    rpc_step serve zero s (s\<lparr>clients := (clients s)(c := Scanning (r + 1))\<rparr>)"
| load_free: "clients s c = Scanning r \<Longrightarrow> r < MAX_REGION_NUM \<Longrightarrow> \<not> GET (bitmap s) r \<Longrightarrow>
    rpc_step serve zero s (s\<lparr>clients := (clients s)(c := Loaded r (bitmap s ! BITMAP_WORD r))\<rparr>)"
| cas: "clients s c = Loaded r old \<Longrightarrow> bitmap s ! BITMAP_WORD r = old \<Longrightarrow>
    rpc_step serve zero s (s\<lparr>bitmap := (bitmap s)[BITMAP_WORD r := old OR BITMAP_MASK r],
      clients := (clients s)(c := Claimed r)\<rparr>)"
| cas_fail: "clients s c = Loaded r old \<Longrightarrow> bitmap s ! BITMAP_WORD r \<noteq> old \<Longrightarrow>
    rpc_step serve zero s (s\<lparr>clients := (clients s)(c := Scanning r)\<rparr>)"
| rescan: "clients s c = Scanning r \<Longrightarrow> MAX_REGION_NUM \<le> r \<Longrightarrow>
    rpc_step serve zero s (s\<lparr>clients := (clients s)(c := Scanning 0)\<rparr>)"
| clean: "clients s c = Claimed r \<Longrightarrow>
    rpc_step serve zero s (s\<lparr>rq_data := (rq_data s)(r := zero), rq_status := (rq_status s)(r := NONE),
      clients := (clients s)(c := Ready r)\<rparr>)"
| fill: "clients s c = Ready r \<Longrightarrow>
    rpc_step serve zero s (s\<lparr>rq_data := (rq_data s)(r := d), clients := (clients s)(c := Written r d)\<rparr>)"
| send: "clients s c = Written r d \<Longrightarrow>
    rpc_step serve zero s (s\<lparr>rq_status := (rq_status s)(r := SENT), clients := (clients s)(c := Waiting r d)\<rparr>)"
| poll_skip: "workers s w = Polling r \<Longrightarrow> w < ops_worker_count \<Longrightarrow> \<not> GET (bitmap s) r \<or> rq_status s r \<noteq> SENT \<Longrightarrow>
    rpc_step serve zero s (s\<lparr>workers := (workers s)(w := Polling (next_region w r))\<rparr>)"
| poll_hit: "workers s w = Polling r \<Longrightarrow> w < ops_worker_count \<Longrightarrow> GET (bitmap s) r \<Longrightarrow> rq_status s r = SENT \<Longrightarrow>
    rpc_step serve zero s (s\<lparr>workers := (workers s)(w := Serving r)\<rparr>)"
| handle: "workers s w = Serving r \<Longrightarrow>
    rpc_step serve zero s (s\<lparr>rq_data := (rq_data s)(r := serve (rq_data s r)), workers := (workers s)(w := Served r)\<rparr>)"
| publish: "workers s w = Served r \<Longrightarrow>
    rpc_step serve zero s (s\<lparr>rq_status := (rq_status s)(r := DONE), workers := (workers s)(w := Polling w)\<rparr>)"
| receive: "clients s c = Waiting r d \<Longrightarrow> rq_status s r = DONE \<Longrightarrow>
    rpc_step serve zero s (s\<lparr>clients := (clients s)(c := Reading r d)\<rparr>)"
| finish: "clients s c = Reading r d \<Longrightarrow>
    rpc_step serve zero s (s\<lparr>rq_status := (rq_status s)(r := NONE), clients := (clients s)(c := Ready r)\<rparr>)"
| close: "clients s c = Ready r \<Longrightarrow> rq_status s r \<noteq> SENT \<Longrightarrow>
    rpc_step serve zero s (s\<lparr>rq_status := (rq_status s)(r := NONE), clients := (clients s)(c := Closing r)\<rparr>)"
| release: "clients s c = Closing r \<Longrightarrow> GET (bitmap s) r \<Longrightarrow>
    rpc_step serve zero s (s\<lparr>bitmap := CLEAR (bitmap s) r, clients := (clients s)(c := Outside)\<rparr>)"

text \<open>The server clears the whole shared memory before it forks its workers.\<close>

definition rpc_init :: "'d \<Rightarrow> 'd rpc" where
  "rpc_init zero = \<lparr>bitmap = replicate BITMAP_SIZE 0, rq_status = (\<lambda>_. NONE), rq_data = (\<lambda>_. zero),
     clients = (\<lambda>_. Outside), workers = (\<lambda>w. Polling w)\<rparr>"

inductive rpc_reach :: "('d \<Rightarrow> 'd) \<Rightarrow> 'd \<Rightarrow> 'd rpc \<Rightarrow> bool" for serve zero where
  init: "rpc_reach serve zero (rpc_init zero)"
| step: "rpc_reach serve zero s \<Longrightarrow> rpc_step serve zero s s' \<Longrightarrow> rpc_reach serve zero s'"

section \<open>The invariant\<close>

fun owned :: "'d client \<Rightarrow> nat option" where
  "owned (Claimed r) = Some r"
| "owned (Ready r) = Some r"
| "owned (Written r d) = Some r"
| "owned (Waiting r d) = Some r"
| "owned (Reading r d) = Some r"
| "owned (Closing r) = Some r"
| "owned _ = None"

fun busy :: "worker \<Rightarrow> nat option" where
  "busy (Polling r) = None"
| "busy (Serving r) = Some r"
| "busy (Served r) = Some r"

text \<open>What the owner of a region may rely on about its status and data.\<close>

fun region_inv :: "('d \<Rightarrow> 'd) \<Rightarrow> 'd rpc \<Rightarrow> 'd client \<Rightarrow> bool" where
  "region_inv serve s (Loaded r old) = (r < MAX_REGION_NUM \<and> old AND BITMAP_MASK r = 0)"
| "region_inv serve s (Claimed r) = (rq_status s r = NONE)"
| "region_inv serve s (Ready r) = (rq_status s r = NONE)"
| "region_inv serve s (Written r d) = (rq_status s r = NONE \<and> rq_data s r = d)"
| "region_inv serve s (Waiting r d) =
     (if rq_status s r = SENT
      then rq_data s r = (if \<exists>w. workers s w = Served r then serve d else d)
      else rq_status s r = DONE \<and> rq_data s r = serve d)"
| "region_inv serve s (Reading r d) = (rq_status s r = DONE \<and> rq_data s r = serve d)"
| "region_inv serve s (Closing r) = (rq_status s r = NONE)"
| "region_inv serve s _ = True"

definition worker_inv :: "'d rpc \<Rightarrow> nat \<Rightarrow> bool" where
  "worker_inv s w \<longleftrightarrow>
     (case workers s w of
       Polling r \<Rightarrow> w < ops_worker_count \<longrightarrow> r mod ops_worker_count = w \<and> r < MAX_REGION_NUM
     | Serving r \<Rightarrow> r mod ops_worker_count = w \<and> rq_status s r = SENT \<and> (\<exists>c d. clients s c = Waiting r d)
     | Served r \<Rightarrow> r mod ops_worker_count = w \<and> rq_status s r = SENT \<and> (\<exists>c d. clients s c = Waiting r d))"

definition rpc_inv :: "('d \<Rightarrow> 'd) \<Rightarrow> 'd rpc \<Rightarrow> bool" where
  "rpc_inv serve s \<longleftrightarrow> bitmap_ok (bitmap s) \<and>
     (\<forall>c r. owned (clients s c) = Some r \<longrightarrow> r < MAX_REGION_NUM \<and> GET (bitmap s) r) \<and>
     (\<forall>r < MAX_REGION_NUM. GET (bitmap s) r \<longrightarrow> (\<exists>c. owned (clients s c) = Some r)) \<and>
     (\<forall>c c' r. owned (clients s c) = Some r \<longrightarrow> owned (clients s c') = Some r \<longrightarrow> c = c') \<and>
     (\<forall>r < MAX_REGION_NUM. \<not> GET (bitmap s) r \<longrightarrow> rq_status s r = NONE) \<and>
     (\<forall>c. region_inv serve s (clients s c)) \<and>
     (\<forall>w. worker_inv s w)"

lemma region_inv_cong:
  assumes "\<And>r. owned pc = Some r \<Longrightarrow> rq_status s' r = rq_status s r"
    "\<And>r. owned pc = Some r \<Longrightarrow> rq_data s' r = rq_data s r"
    "\<And>r. owned pc = Some r \<Longrightarrow> (\<exists>w. workers s' w = Served r) \<longleftrightarrow> (\<exists>w. workers s w = Served r)"
  shows "region_inv serve s' pc = region_inv serve s pc"
  using assms by (cases pc) auto

lemma rpc_invD:
  assumes "rpc_inv serve s"
  shows "bitmap_ok (bitmap s)"
    "\<And>c r. owned (clients s c) = Some r \<Longrightarrow> r < MAX_REGION_NUM"
    "\<And>c r. owned (clients s c) = Some r \<Longrightarrow> GET (bitmap s) r"
    "\<And>r. r < MAX_REGION_NUM \<Longrightarrow> GET (bitmap s) r \<Longrightarrow> \<exists>c. owned (clients s c) = Some r"
    "\<And>c c' r. owned (clients s c) = Some r \<Longrightarrow> owned (clients s c') = Some r \<Longrightarrow> c = c'"
    "\<And>r. r < MAX_REGION_NUM \<Longrightarrow> \<not> GET (bitmap s) r \<Longrightarrow> rq_status s r = NONE"
    "\<And>c. region_inv serve s (clients s c)"
    "\<And>w. worker_inv s w"
  using assms by (auto simp: rpc_inv_def)

lemma rpc_invI:
  assumes "bitmap_ok (bitmap s)"
    "\<And>c r. owned (clients s c) = Some r \<Longrightarrow> r < MAX_REGION_NUM \<and> GET (bitmap s) r"
    "\<And>r. r < MAX_REGION_NUM \<Longrightarrow> GET (bitmap s) r \<Longrightarrow> \<exists>c. owned (clients s c) = Some r"
    "\<And>c c' r. owned (clients s c) = Some r \<Longrightarrow> owned (clients s c') = Some r \<Longrightarrow> c = c'"
    "\<And>r. r < MAX_REGION_NUM \<Longrightarrow> \<not> GET (bitmap s) r \<Longrightarrow> rq_status s r = NONE"
    "\<And>c. region_inv serve s (clients s c)"
    "\<And>w. worker_inv s w"
  shows "rpc_inv serve s"
  unfolding rpc_inv_def
  by (intro conjI allI impI)
    (rule assms(1,6,7) | erule assms(2) [THEN conjunct1] | erule assms(2) [THEN conjunct2]
      | erule (1) assms(3) | erule (1) assms(4) | erule (1) assms(5))+

lemma busyD:
  assumes "rpc_inv serve s" "busy (workers s w) = Some r"
  shows "r mod ops_worker_count = w" "rq_status s r = SENT" "\<exists>c d. clients s c = Waiting r d"
  using rpc_invD(8) [OF assms(1), of w] assms(2)
  by (auto simp: worker_inv_def split: worker.splits)

lemma busy_unique:
  assumes "rpc_inv serve s" "busy (workers s w) = Some r" "busy (workers s w') = Some r"
  shows "w = w'"
  using busyD(1) [OF assms(1,2)] busyD(1) [OF assms(1,3)] by simp

lemma waiting_other:
  assumes "\<exists>k d. f k = Waiting r d" "owned (f c) \<noteq> Some r"
  shows "\<exists>k d. (f(c := pc)) k = Waiting r d"
proof -
  from assms(1) obtain k d where k: "f k = Waiting r d"
    by blast
  with assms(2) have "k \<noteq> c"
    by auto
  with k have "(f(c := pc)) k = Waiting r d"
    by simp
  then show ?thesis by blast
qed

lemma worker_inv_cong:
  assumes "worker_inv s w" "workers s' w = workers s w"
    "\<And>r. busy (workers s w) = Some r \<Longrightarrow> rq_status s' r = rq_status s r"
    "\<And>r. busy (workers s w) = Some r \<Longrightarrow> \<exists>c d. clients s c = Waiting r d \<Longrightarrow> \<exists>c d. clients s' c = Waiting r d"
  shows "worker_inv s' w"
  using assms by (cases "workers s w") (auto simp: worker_inv_def)

text \<open>A step of the owner of an idle region.\<close>

lemma inv_owner_step:
  assumes inv: "rpc_inv serve s" and own: "owned (clients s c) = Some r" and idle: "rq_status s r \<noteq> SENT"
    and pc: "owned pc = Some r"
    and s': "s' = s\<lparr>rq_status := (rq_status s)(r := x), rq_data := (rq_data s)(r := y),
      clients := (clients s)(c := pc)\<rparr>"
    and ok: "region_inv serve s' pc"
  shows "rpc_inv serve s'"
proof -
  note D = rpc_invD [OF inv]
  have own': "owned (clients s' k) = owned (clients s k)" for k
    using own pc by (simp add: s')
  have other: "r' \<noteq> r" if "owned (clients s k) = Some r'" "k \<noteq> c" for k r'
    using D(5) own that by blast
  have reg: "region_inv serve s' (clients s' k)" for k
  proof (cases "k = c")
    case True
    with ok show ?thesis by (simp add: s')
  next
    case False
    then have "region_inv serve s' (clients s k) = region_inv serve s (clients s k)"
      using other by (intro region_inv_cong) (auto simp: s')
    with D(7) False show ?thesis by (simp add: s')
  qed
  have wrk: "worker_inv s' w" for w
  proof -
    have nb: "busy (workers s w) \<noteq> Some r"
      using busyD(2) [OF inv] idle by auto
    show ?thesis
    proof (rule worker_inv_cong [OF D(8)])
      fix r' assume "busy (workers s w) = Some r'"
      with nb own have "r' \<noteq> r" "owned (clients s c) \<noteq> Some r'" by auto
      then show "rq_status s' r' = rq_status s r'"
        "\<exists>c d. clients s c = Waiting r' d \<Longrightarrow> \<exists>c d. clients s' c = Waiting r' d"
        using waiting_other [of "clients s" r' c pc] by (simp_all add: s')
    qed (simp add: s')
  qed
  have bm: "bitmap s' = bitmap s" and st: "k \<noteq> r \<Longrightarrow> rq_status s' k = rq_status s k" for k
    by (simp_all add: s')
  show ?thesis
  proof (rule rpc_invI)
    fix k assume "k < MAX_REGION_NUM" "\<not> GET (bitmap s') k"
    with D(3) [OF own] D(6) st show "rq_status s' k = NONE"
      unfolding bm by metis
  qed (unfold own' bm, (rule D(1) reg wrk | rule conjI, erule D(2), erule D(3) | erule (1) D(4) | erule (1) D(5))+)
qed

text \<open>A step of a client that holds no region.\<close>

lemma inv_free_step:
  assumes inv: "rpc_inv serve s" and "owned (clients s c) = None" "owned pc = None"
    and s': "s' = s\<lparr>clients := (clients s)(c := pc)\<rparr>" and ok: "region_inv serve s' pc"
  shows "rpc_inv serve s'"
proof -
  note D = rpc_invD [OF inv]
  have own': "owned (clients s' k) = owned (clients s k)" for k
    using assms(2,3) by (simp add: s')
  have reg: "region_inv serve s' (clients s' k)" for k
  proof (cases "k = c")
    case True
    with ok show ?thesis by (simp add: s')
  next
    case False
    have "region_inv serve s' (clients s k) = region_inv serve s (clients s k)"
      by (intro region_inv_cong) (auto simp: s')
    with D(7) False show ?thesis by (simp add: s')
  qed
  have wrk: "worker_inv s' w" for w
    by (rule worker_inv_cong [OF D(8)])
      (use waiting_other [of "clients s" _ c pc] assms(2) in \<open>simp_all add: s'\<close>)
  have bm: "bitmap s' = bitmap s" "rq_status s' = rq_status s"
    by (simp_all add: s')
  show ?thesis
    by (rule rpc_invI, unfold own' bm)
      (rule D(1) reg wrk | rule conjI, erule D(2), erule D(3) | erule (1) D(4) | erule (1) D(5) | erule (1) D(6))+
qed

lemma inv_scanning:
  "rpc_inv serve s \<Longrightarrow> owned (clients s c) = None \<Longrightarrow>
    rpc_inv serve (s\<lparr>clients := (clients s)(c := Scanning r)\<rparr>)"
  by (rule inv_free_step [where c = c and pc = "Scanning r"]) simp_all

text \<open>The compare-and-swap takes a region that nobody holds.\<close>

lemma inv_cas:
  assumes inv: "rpc_inv serve s" and pc: "clients s c = Loaded r old" and old: "bitmap s ! BITMAP_WORD r = old"
  shows "rpc_inv serve (s\<lparr>bitmap := SET (bitmap s) r, clients := (clients s)(c := Claimed r)\<rparr>)"
    (is "rpc_inv serve ?s'")
proof -
  note D = rpc_invD [OF inv]
  have r: "r < MAX_REGION_NUM" and clear: "\<not> GET (bitmap s) r"
    using D(7) [of c] pc old by (simp_all add: GET_def)
  then have new: "owned (clients s k) \<noteq> Some r" for k
    using D(3) by blast
  note bits = GET_SET [OF D(1) r]
  have reg: "region_inv serve ?s' (clients s k)" for k
    using D(7) [of k] by (subst region_inv_cong [where s = s]) auto
  show ?thesis
  proof (rule rpc_invI)
    fix k r' assume "owned (clients ?s' k) = Some r'"
    then show "r' < MAX_REGION_NUM \<and> GET (bitmap ?s') r'"
      using D(2,3) r by (auto simp: bits split: if_splits)
  next
    fix r' assume "r' < MAX_REGION_NUM" "GET (bitmap ?s') r'"
    then consider "r' = r" | k where "owned (clients s k) = Some r'"
      using D(4) by (auto simp: bits)
    then show "\<exists>k. owned (clients ?s' k) = Some r'"
    proof cases
      case 1
      then have "owned (clients ?s' c) = Some r'" by simp
      then show ?thesis by blast
    next
      case 2
      then have "k \<noteq> c" using pc by auto
      with 2 have "owned (clients ?s' k) = Some r'" by simp
      then show ?thesis by blast
    qed
  next
    fix k k' r' assume "owned (clients ?s' k) = Some r'" "owned (clients ?s' k') = Some r'"
    then show "k = k'"
      using D(5) [of k r' k'] new by (auto split: if_splits)
  next
    fix r' assume "r' < MAX_REGION_NUM" "\<not> GET (bitmap ?s') r'"
    then show "rq_status ?s' r' = NONE"
      using D(6) by (simp add: bits)
  next
    fix k show "region_inv serve ?s' (clients ?s' k)"
      using reg D(6) [OF r clear] by simp
  next
    fix w show "worker_inv ?s' w"
      by (rule worker_inv_cong [OF D(8)])
        (use waiting_other [of "clients s" _ c "Claimed r"] pc in \<open>simp_all\<close>)
  qed (simp add: D(1))
qed

lemma inv_release:
  assumes inv: "rpc_inv serve s" and pc: "clients s c = Closing r"
  shows "rpc_inv serve (s\<lparr>bitmap := CLEAR (bitmap s) r, clients := (clients s)(c := Outside)\<rparr>)"
    (is "rpc_inv serve ?s'")
proof -
  note D = rpc_invD [OF inv]
  have own: "owned (clients s c) = Some r"
    using pc by simp
  note bits = GET_CLEAR [OF D(1) D(2) [OF own]]
  have other: "r' \<noteq> r" if "owned (clients s k) = Some r'" "k \<noteq> c" for k r'
    using D(5) own that by blast
  have reg: "region_inv serve ?s' (clients s k)" for k
    using D(7) [of k] by (subst region_inv_cong [where s = s]) auto
  show ?thesis
  proof (rule rpc_invI)
    fix k r' assume "owned (clients ?s' k) = Some r'"
    then have "k \<noteq> c" "owned (clients s k) = Some r'"
      by (auto split: if_splits)
    then show "r' < MAX_REGION_NUM \<and> GET (bitmap ?s') r'"
      using D(2,3) other by (auto simp: bits)
  next
    fix r' assume "r' < MAX_REGION_NUM" "GET (bitmap ?s') r'"
    then obtain k where k: "owned (clients s k) = Some r'" "r' \<noteq> r"
      using D(4) by (auto simp: bits)
    then have "k \<noteq> c" using own by auto
    with k have "owned (clients ?s' k) = Some r'" by simp
    then show "\<exists>k. owned (clients ?s' k) = Some r'" by blast
  next
    fix k k' r' assume "owned (clients ?s' k) = Some r'" "owned (clients ?s' k') = Some r'"
    then show "k = k'"
      using D(5) [of k r' k'] by (auto split: if_splits)
  next
    fix r' assume "r' < MAX_REGION_NUM" "\<not> GET (bitmap ?s') r'"
    then show "rq_status ?s' r' = NONE"
      using D(6) D(7) [of c] pc by (auto simp: bits)
  next
    fix k show "region_inv serve ?s' (clients ?s' k)"
      using reg by simp
  next
    fix w show "worker_inv ?s' w"
    proof (rule worker_inv_cong [OF D(8)])
      fix r' assume b: "busy (workers s w) = Some r'"
      then have "owned (clients s c) \<noteq> Some r'"
        using busyD(2) [OF inv b] D(7) [of c] pc by auto
      then show "\<exists>c d. clients s c = Waiting r' d \<Longrightarrow> \<exists>c d. clients ?s' c = Waiting r' d"
        using waiting_other [of "clients s" r' c Outside] by simp
    qed simp_all
  qed (simp add: D(1))
qed

text \<open>A step of a worker on a region whose owner is waiting.\<close>

lemma inv_worker_step:
  assumes inv: "rpc_inv serve s" and pc: "clients s c = Waiting r d"
    and s': "s' = s\<lparr>rq_status := (rq_status s)(r := x), rq_data := (rq_data s)(r := y),
      workers := (workers s)(w := wpc)\<rparr>"
    and alone: "\<And>k. k \<noteq> w \<Longrightarrow> busy (workers s k) \<noteq> Some r"
    and here: "busy (workers s w) \<in> {None, Some r}" "busy wpc \<in> {None, Some r}"
    and reg: "region_inv serve s' (Waiting r d)" and wrk: "worker_inv s' w"
  shows "rpc_inv serve s'"
proof -
  note D = rpc_invD [OF inv]
  have own: "owned (clients s c) = Some r"
    using pc by simp
  have cl: "clients s' = clients s" "bitmap s' = bitmap s"
    by (simp_all add: s')
  have served: "(\<exists>k. workers s' k = Served r') \<longleftrightarrow> (\<exists>k. workers s k = Served r')" if "r' \<noteq> r" for r'
  proof -
    have "workers s w \<noteq> Served r'" "wpc \<noteq> Served r'"
      using that here by (auto simp: s')
    then have "workers s' k = Served r' \<longleftrightarrow> workers s k = Served r'" for k
      by (simp add: s')
    then show ?thesis by simp
  qed
  have reg_all: "region_inv serve s' (clients s k)" for k
  proof (cases "k = c")
    case True
    with reg pc show ?thesis by simp
  next
    case False
    then have "owned (clients s k) = Some r' \<Longrightarrow> r' \<noteq> r" for r'
      using D(5) own by blast
    then have "region_inv serve s' (clients s k) = region_inv serve s (clients s k)"
      using served by (intro region_inv_cong) (simp_all add: s')
    with D(7) show ?thesis by simp
  qed
  have wrk_all: "worker_inv s' k" for k
  proof (cases "k = w")
    case False
    then show ?thesis
      using alone by (intro worker_inv_cong [OF D(8) [of k]]) (auto simp: s')
  qed (simp add: wrk)
  show ?thesis
  proof (rule rpc_invI, unfold cl)
    fix k assume "k < MAX_REGION_NUM" "\<not> GET (bitmap s) k"
    with D(3) [OF own] D(6) [of k] show "rq_status s' k = NONE"
      by (cases "k = r") (simp_all add: s')
  qed (rule D(1) reg_all wrk_all | rule conjI, erule D(2), erule D(3) | erule (1) D(4) | erule (1) D(5))+
qed

lemma worker_count_less: "0 < ops_worker_count" "ops_worker_count \<le> MAX_REGION_NUM"
  by (simp_all add: ops_worker_count_def OPS_WORKER_NUM_def MAX_REGION_NUM_val)

lemma next_region_class:
  assumes "r mod ops_worker_count = w" "w < ops_worker_count"
  shows "next_region w r mod ops_worker_count = w" "next_region w r < MAX_REGION_NUM"
  using assms worker_count_less by (auto simp: next_region_def)

lemma sent_waiting:
  assumes "rpc_inv serve s" "r < MAX_REGION_NUM" "GET (bitmap s) r" "rq_status s r = SENT"
  shows "\<exists>c d. clients s c = Waiting r d"
proof -
  note D = rpc_invD [OF assms(1)]
  from D(4) [OF assms(2,3)] obtain c where c: "owned (clients s c) = Some r"
    by blast
  with D(7) [of c] assms(4) show ?thesis
    by (cases "clients s c") auto
qed

lemma inv_poll_skip:
  assumes inv: "rpc_inv serve s" and w: "workers s w = Polling r" "w < ops_worker_count"
  shows "rpc_inv serve (s\<lparr>workers := (workers s)(w := Polling (next_region w r))\<rparr>)" (is "rpc_inv serve ?s'")
proof -
  note D = rpc_invD [OF inv]
  have "workers ?s' k = Served r' \<longleftrightarrow> workers s k = Served r'" for k r'
    using w by simp
  then have reg: "region_inv serve ?s' (clients s k)" for k
    using D(7) [of k] by (subst region_inv_cong [where s = s]) simp_all
  have "r mod ops_worker_count = w"
    using D(8) [of w] w by (simp add: worker_inv_def)
  note nxt = next_region_class [OF this w(2)]
  have wrk: "worker_inv ?s' k" for k
    using D(8) [of k] nxt by (cases "k = w") (auto simp: worker_inv_def split: worker.splits)
  show ?thesis
    by (rule rpc_invI)
      (simp_all, (rule D(1) reg [simplified] wrk [simplified] | rule conjI, erule D(2), erule D(3)
        | erule (1) D(4) | erule (1) D(5) | erule (1) D(6))+)
qed

lemma inv_poll_hit:
  assumes inv: "rpc_inv serve s" and w: "workers s w = Polling r" "w < ops_worker_count"
    and hit: "GET (bitmap s) r" "rq_status s r = SENT"
  shows "rpc_inv serve (s\<lparr>workers := (workers s)(w := Serving r)\<rparr>)" (is "rpc_inv serve ?s'")
proof -
  note D = rpc_invD [OF inv]
  have r: "r mod ops_worker_count = w" "r < MAX_REGION_NUM"
    using D(8) [of w] w by (simp_all add: worker_inv_def)
  obtain c d where pc: "clients s c = Waiting r d"
    using sent_waiting [OF inv r(2) hit] by blast
  have iff: "workers ?s' k = Served r' \<longleftrightarrow> workers s k = Served r'" for k r'
    using w by simp
  have ex: "(\<exists>k. workers ?s' k = Served r') \<longleftrightarrow> (\<exists>k. workers s k = Served r')" for r'
    by (simp only: iff)
  have "region_inv serve ?s' (Waiting r d) = region_inv serve s (Waiting r d)"
    by (rule region_inv_cong) (simp, simp, rule ex)
  then have reg: "region_inv serve ?s' (Waiting r d)"
    using D(7) [of c] pc by (simp only:)
  have wrk: "worker_inv ?s' w"
    using pc r hit(2) by (auto simp: worker_inv_def)
  show ?thesis
  proof (rule inv_worker_step [OF inv pc _ _ _ _ reg wrk])
    show "?s' = s\<lparr>rq_status := (rq_status s)(r := rq_status s r), rq_data := (rq_data s)(r := rq_data s r),
      workers := (workers s)(w := Serving r)\<rparr>"
      by simp
    show "busy (workers s k) \<noteq> Some r" if "k \<noteq> w" for k
      using busyD(1) [OF inv] r that by blast
  qed (simp_all add: w)
qed

lemma inv_handle:
  assumes inv: "rpc_inv serve s" and w: "workers s w = Serving r"
  shows "rpc_inv serve (s\<lparr>rq_data := (rq_data s)(r := serve (rq_data s r)), workers := (workers s)(w := Served r)\<rparr>)"
    (is "rpc_inv serve ?s'")
proof -
  note D = rpc_invD [OF inv]
  have b: "busy (workers s w) = Some r"
    using w by simp
  obtain c d where pc: "clients s c = Waiting r d"
    using busyD(3) [OF inv b] by blast
  have alone: "busy (workers s k) \<noteq> Some r" if "k \<noteq> w" for k
    using busy_unique [OF inv b] that by blast
  have "workers s k \<noteq> Served r" for k
    using alone [of k] w by (cases "k = w") auto
  then have "rq_data s r = d"
    using D(7) [of c] pc busyD(2) [OF inv b] by simp
  moreover have "\<exists>k. workers ?s' k = Served r"
    by (rule exI [of _ w]) simp
  ultimately have reg: "region_inv serve ?s' (Waiting r d)"
    using busyD(2) [OF inv b] by simp
  have wrk: "worker_inv ?s' w"
    using pc busyD [OF inv b] by (auto simp: worker_inv_def)
  show ?thesis
    by (rule inv_worker_step [where x = "rq_status s r" and y = "serve (rq_data s r)" and wpc = "Served r", OF inv pc _ alone _ _ reg wrk])
      (simp_all add: w)
qed

lemma inv_publish:
  assumes inv: "rpc_inv serve s" and w: "workers s w = Served r"
  shows "rpc_inv serve (s\<lparr>rq_status := (rq_status s)(r := DONE), workers := (workers s)(w := Polling w)\<rparr>)"
    (is "rpc_inv serve ?s'")
proof -
  note D = rpc_invD [OF inv]
  have b: "busy (workers s w) = Some r"
    using w by simp
  obtain c d where pc: "clients s c = Waiting r d"
    using busyD(3) [OF inv b] by blast
  have alone: "busy (workers s k) \<noteq> Some r" if "k \<noteq> w" for k
    using busy_unique [OF inv b] that by blast
  have "rq_data s r = serve d"
    using D(7) [of c] pc busyD(2) [OF inv b] w by (auto split: if_splits)
  then have reg: "region_inv serve ?s' (Waiting r d)"
    by simp
  have wrk: "worker_inv ?s' w"
    using worker_count_less by (simp add: worker_inv_def)
  show ?thesis
    by (rule inv_worker_step [where x = DONE and y = "rq_data s r" and wpc = "Polling w", OF inv pc _ alone _ _ reg wrk])
      (simp_all add: w)
qed

lemma inv_init: "rpc_inv serve (rpc_init zero)"
proof -
  have "\<not> GET (replicate BITMAP_SIZE 0) r" if "r < MAX_REGION_NUM" for r
    using word_in_range [of "replicate BITMAP_SIZE 0" r] that
    by (simp add: GET_bit bitmap_ok_def)
  moreover have "worker_inv (rpc_init zero) w" for w
    using worker_count_less by (simp add: worker_inv_def rpc_init_def)
  ultimately show ?thesis
    by (auto simp: rpc_inv_def rpc_init_def bitmap_ok_def)
qed

lemma inv_step: "rpc_step serve zero s s' \<Longrightarrow> rpc_inv serve s \<Longrightarrow> rpc_inv serve s'"
proof (induction rule: rpc_step.induct)
  case (cas s c r old)
  then show ?case using inv_cas [of serve s c r old] by (simp add: SET_def)
next
  case (clean s c r)
  with rpc_invD(7) [OF clean.prems, of c] show ?case
    by (intro inv_owner_step [OF clean.prems, where c = c and r = r and pc = "Ready r" and x = NONE and y = zero])
      (auto simp: fun_upd_idem)
next
  case (fill s c r d)
  with rpc_invD(7) [OF fill.prems, of c] show ?case
    by (intro inv_owner_step [OF fill.prems, where c = c and r = r and pc = "Written r d" and x = "rq_status s r" and y = d])
      (auto simp: fun_upd_idem)
next
  case (send s c r d)
  have "workers s w \<noteq> Served r" for w
    using busyD(2) [OF send.prems, of w r] rpc_invD(7) [OF send.prems, of c] send.hyps by auto
  with send rpc_invD(7) [OF send.prems, of c] show ?case
    by (intro inv_owner_step [OF send.prems, where c = c and r = r and pc = "Waiting r d" and x = SENT and y = "rq_data s r"])
      (auto simp: fun_upd_idem)
next
  case (receive s c r d)
  with rpc_invD(7) [OF receive.prems, of c] show ?case
    by (intro inv_owner_step [OF receive.prems, where c = c and r = r and pc = "Reading r d" and x = "rq_status s r" and y = "rq_data s r"])
      (auto simp: fun_upd_idem)
next
  case (finish s c r d)
  with rpc_invD(7) [OF finish.prems, of c] show ?case
    by (intro inv_owner_step [OF finish.prems, where c = c and r = r and pc = "Ready r" and x = NONE and y = "rq_data s r"])
      (auto simp: fun_upd_idem)
next
  case (close s c r)
  with rpc_invD(7) [OF close.prems, of c] show ?case
    by (intro inv_owner_step [OF close.prems, where c = c and r = r and pc = "Closing r" and x = NONE and y = "rq_data s r"])
      (auto simp: fun_upd_idem)
next
  case (load_free s c r)
  then show ?case
    by (intro inv_free_step [OF load_free.prems, where c = c and pc = "Loaded r (bitmap s ! BITMAP_WORD r)"]) (auto simp: GET_def)
qed (auto intro: inv_scanning inv_release inv_poll_skip inv_poll_hit inv_handle inv_publish)

lemma reach_inv: "rpc_reach serve zero s \<Longrightarrow> rpc_inv serve s"
  by (induction rule: rpc_reach.induct) (auto intro: inv_init inv_step)

inductive_cases rpc_step_elim: "rpc_step serve zero s s'"

end
