(* ===== verification/Zeno_Rpc_Progress.thy ===== *)
theory Zeno_Rpc_Progress
  imports Zeno_Rpc
begin

text \<open>
  What the channel promises its users, on top of the invariant of \<^verbatim>\<open>Zeno_Rpc\<close>: regions are
  exclusive, a backend reads the answer to its own request, and a waiting backend can always be
  answered.
\<close>

section \<open>Progress\<close>

text \<open>Steps of the worker of a region, the clients standing still.\<close>

abbreviation rpc_steps :: "('d \<Rightarrow> 'd) \<Rightarrow> 'd \<Rightarrow> 'd rpc \<Rightarrow> 'd rpc \<Rightarrow> bool" where
  "rpc_steps serve zero \<equiv> (rpc_step serve zero)\<^sup>*\<^sup>*"

lemma inv_steps: "rpc_steps serve zero s s' \<Longrightarrow> rpc_inv serve s \<Longrightarrow> rpc_inv serve s'"
  by (induction rule: rtranclp_induct) (auto intro: inv_step)

text \<open>A busy worker publishes its answer and goes back to its first region.\<close>

lemma worker_finishes:
  assumes "busy (workers s w) = Some q"
  shows "\<exists>s'. rpc_steps serve zero s s' \<and> clients s' = clients s \<and> bitmap s' = bitmap s
    \<and> workers s' w = Polling w \<and> rq_status s' = (rq_status s)(q := DONE)"
proof -
  have served: "\<exists>s'. rpc_steps serve zero t s' \<and> clients s' = clients t \<and> bitmap s' = bitmap t
    \<and> workers s' w = Polling w \<and> rq_status s' = (rq_status t)(q := DONE)"
    if "workers t w = Served q" for t :: "'a rpc"
    using rpc_step.publish [OF that, of serve zero] by (intro exI conjI, rule r_into_rtranclp) auto
  from assms consider "workers s w = Served q" | "workers s w = Serving q"
    by (cases "workers s w") auto
  then show ?thesis
  proof cases
    case 1
    then show ?thesis by (rule served)
  next
    case 2
    note step = rpc_step.handle [OF this, of serve zero]
    from served [of "s\<lparr>rq_data := (rq_data s)(q := serve (rq_data s q)), workers := (workers s)(w := Served q)\<rparr>"]
    show ?thesis
      using converse_rtranclp_into_rtranclp [of "rpc_step serve zero", OF step] by fastforce
  qed
qed

text \<open>How far the polling worker is from region \<open>r\<close>.\<close>

definition poll_dist :: "nat \<Rightarrow> nat \<Rightarrow> nat" where
  "poll_dist r q = (if q \<le> r then r - q else MAX_REGION_NUM + r - q)"

lemma poll_dist_next:
  assumes "q mod ops_worker_count = w" "r mod ops_worker_count = w" "q < MAX_REGION_NUM" "r < MAX_REGION_NUM" "q \<noteq> r"
  shows "poll_dist r (next_region w q) < poll_dist r q"
proof (cases "q < r")
  case True
  obtain k where "r = q + ops_worker_count * k"
    using assms(1,2) True by (metis less_imp_le_nat mod_eq_nat2E)
  with True have "q + ops_worker_count \<le> r"
    by (cases k) auto
  with True worker_count_less(1) assms(4) show ?thesis
    by (simp add: poll_dist_def next_region_def)
next
  case False
  have "w \<le> r"
    using assms(2) by auto
  with False assms(3,5) worker_count_less(1) show ?thesis
    by (auto simp: poll_dist_def next_region_def)
qed

text \<open>A polling worker finds a request while one of its regions has one.\<close>

lemma worker_finds:
  assumes "rpc_inv serve s" "workers s w = Polling q" "w < ops_worker_count" "r mod ops_worker_count = w"
    "r < MAX_REGION_NUM" "GET (bitmap s) r" "rq_status s r = SENT"
  shows "\<exists>s' p. rpc_steps serve zero s s' \<and> clients s' = clients s \<and> bitmap s' = bitmap s
    \<and> rq_status s' = rq_status s \<and> workers s' w = Serving p \<and> rq_status s p = SENT \<and> p < MAX_REGION_NUM"
  using assms
proof (induction "poll_dist r q" arbitrary: s q rule: less_induct)
  case less
  note q = rpc_invD(8) [OF less.prems(1), of w, unfolded worker_inv_def less.prems(2), simplified, rule_format, OF less.prems(3)]
  show ?case
  proof (cases "GET (bitmap s) q \<and> rq_status s q = SENT")
    case True
    with rpc_step.poll_hit [OF less.prems(2,3), of serve zero] q show ?thesis
      by (intro exI [of _ "s\<lparr>workers := (workers s)(w := Serving q)\<rparr>"] exI [of _ q]) auto
  next
    case False
    with less.prems(6,7) have ne: "q \<noteq> r" by blast
    let ?t = "s\<lparr>workers := (workers s)(w := Polling (next_region w q))\<rparr>"
    from rpc_step.poll_skip [OF less.prems(2,3), of serve zero] False have step: "rpc_step serve zero s ?t"
      by auto
    from less.hyps [OF poll_dist_next [OF _ _ _ _ ne, of w] inv_step [OF step less.prems(1)]] q less.prems(3-7) obtain s' p where
      "rpc_steps serve zero ?t s'" "clients s' = clients s" "bitmap s' = bitmap s" "rq_status s' = rq_status s"
      "workers s' w = Serving p" "rq_status s p = SENT" "p < MAX_REGION_NUM"
      by auto
    with step show ?thesis
      by (blast intro: converse_rtranclp_into_rtranclp)
  qed
qed

lemma busy_region:
  assumes "rpc_inv serve s" "busy (workers s w) = Some p"
  shows "rq_status s p = SENT \<and> p < MAX_REGION_NUM"
proof -
  from busyD(3) [OF assms] obtain c d where "clients s c = Waiting p d"
    by blast
  with rpc_invD(2) [OF assms(1), of c p] busyD(2) [OF assms] show ?thesis
    by simp
qed

definition sent_regions :: "'d rpc \<Rightarrow> nat set" where
  "sent_regions s = {q. q < MAX_REGION_NUM \<and> rq_status s q = SENT}"

lemma region_served:
  assumes "rpc_inv serve s" "r < MAX_REGION_NUM" "GET (bitmap s) r" "rq_status s r = SENT"
  shows "\<exists>s'. rpc_steps serve zero s s' \<and> clients s' = clients s \<and> rq_status s' r = DONE"
  using assms
proof (induction "card (sent_regions s)" arbitrary: s rule: less_induct)
  case less
  define w where "w = r mod ops_worker_count"
  have w: "w < ops_worker_count" "r mod ops_worker_count = w"
    using worker_count_less by (simp_all add: w_def)
  have "\<exists>t p. rpc_steps serve zero s t \<and> clients t = clients s \<and> bitmap t = bitmap s \<and> rq_status t = rq_status s
      \<and> busy (workers t w) = Some p \<and> rq_status s p = SENT \<and> p < MAX_REGION_NUM"
  proof (cases "busy (workers s w)")
    case None
    then obtain q where "workers s w = Polling q"
      by (cases "workers s w") auto
    from worker_finds [OF less.prems(1) this w less.prems(2-4), of zero] show ?thesis
      by fastforce
  next
    case (Some p)
    with busy_region [OF less.prems(1)] show ?thesis
      by (intro exI [of _ s] exI [of _ p]) simp
  qed
  then obtain t p where t: "rpc_steps serve zero s t" "clients t = clients s" "bitmap t = bitmap s"
      "rq_status t = rq_status s" "busy (workers t w) = Some p" "rq_status s p = SENT" "p < MAX_REGION_NUM"
    by blast
  from worker_finishes [OF t(5), of serve zero] obtain u where
    u: "rpc_steps serve zero t u" "clients u = clients t" "bitmap u = bitmap t" "rq_status u = (rq_status t)(p := DONE)"
    by blast
  have su: "rpc_steps serve zero s u"
    using t(1) u(1) by (rule rtranclp_trans)
  show ?case
  proof (cases "p = r")
    case True
    with su t u show ?thesis by auto
  next
    case False
    have "sent_regions u = sent_regions s - {p}" "p \<in> sent_regions s" "finite (sent_regions s)"
      using t u by (auto simp: sent_regions_def)
    then have "card (sent_regions u) < card (sent_regions s)"
      by (metis card_Diff1_less)
    from less.hyps [OF this inv_steps [OF su less.prems(1)] less.prems(2)] less.prems(3,4) False t u obtain s' where
      "rpc_steps serve zero u s'" "clients s' = clients u" "rq_status s' r = DONE"
      by auto
    with su t u show ?thesis
      by (metis rtranclp_trans)
  qed
qed

section \<open>Properties\<close>

text \<open>
  \<^verbatim>\<open>claim_shm_region\<close> takes the lowest free region and marks that region only; it answers -1
  exactly when every region is taken, and then changes nothing. \<^verbatim>\<open>release_shm_region\<close> gives the
  region back, and refuses an identifier out of range or a region that is not taken.
\<close>

theorem claim_release:
  assumes "bitmap_ok bm" "claim_shm_region bm = (ident, bm')"
  shows "(ident = - 1 \<longleftrightarrow> (\<forall>k < MAX_REGION_NUM. GET bm k))
    \<and> (ident = - 1 \<longrightarrow> bm' = bm)
    \<and> (ident \<noteq> - 1 \<longrightarrow> 0 \<le> ident \<and> ident < int MAX_REGION_NUM \<and> \<not> GET bm (nat ident)
        \<and> (\<forall>k < nat ident. GET bm k) \<and> (\<forall>k. GET bm' k \<longleftrightarrow> k = nat ident \<or> GET bm k)
        \<and> (\<exists>bm''. release_shm_region ident bm' = (Inr (), bm'') \<and> (\<forall>k. GET bm'' k \<longleftrightarrow> GET bm k)
            \<and> fst (release_shm_region ident bm'') = Inl (Fatal RegionNotAllocated)))"
proof -
  from claim_from_spec [OF assms(2) [unfolded claim_shm_region_def]] consider
    (full) "ident = - 1" "bm' = bm" "\<forall>k < MAX_REGION_NUM. GET bm k"
    | (free) n where "ident = int n" "n < MAX_REGION_NUM" "\<not> GET bm n" "bm' = SET bm n" "\<forall>k < n. GET bm k"
    by auto
  then show ?thesis
  proof cases
    case free
    have "bitmap_ok (SET bm n)"
      using assms(1) by simp
    then have "GET (CLEAR (SET bm n) n) k \<longleftrightarrow> GET bm k" for k
      using GET_CLEAR [of "SET bm n" n k] GET_SET [OF assms(1) free(2), of k] free(2,3) by auto
    with free assms(1) show ?thesis
      by (auto simp: release_shm_region_def GET_SET bindE_def)
  qed simp
qed

theorem claim_release_witness:
  "claim_shm_region (replicate 9 0) = (0, SET (replicate 9 0) 0)
    \<and> \<not> (\<forall>k < MAX_REGION_NUM. GET (replicate 9 0) k)"
proof -
  have run: "claim_shm_region (replicate 9 0) = (0, SET (replicate 9 0) 0)"
    by (simp add: claim_shm_region_def claim_from.simps [of _ 0] MAX_REGION_NUM_val GET_def BITMAP_WORD_def)
  with claim_release [OF _ run] show ?thesis
    by (simp add: bitmap_ok_def BITMAP_SIZE_val)
qed

text \<open>
  C2. Exclusive regions, under any interleaving of any number of backends and the workers: no two
  backends own one region, although claims race on the same bitmap word; no two workers serve one
  region; and a worker serves a region only while a backend waits for its answer there.
\<close>

theorem regions_exclusive:
  assumes "rpc_reach serve zero s"
  shows "(owned (clients s c) = Some r \<longrightarrow> owned (clients s c') = Some r \<longrightarrow> c = c')
    \<and> (busy (workers s w) = Some r \<longrightarrow> busy (workers s w') = Some r \<longrightarrow> w = w')
    \<and> (busy (workers s w) = Some r \<longrightarrow> (\<exists>c d. clients s c = Waiting r d))"
  using rpc_invD(5) [OF reach_inv [OF assms]] busy_unique [OF reach_inv [OF assms]]
    busyD(3) [OF reach_inv [OF assms]] by blast

text \<open>One request from start to answer: client 0, region 0, worker 0.\<close>

lemma rpc_demo:
  "\<exists>s t :: nat rpc. rpc_reach Suc 0 s \<and> clients s 0 = Waiting 0 41 \<and> workers s 0 = Serving 0
    \<and> rpc_reach Suc 0 t \<and> clients t 0 = Reading 0 41"
proof -
  have b: "\<not> GET (replicate BITMAP_SIZE 0) 0" "GET ((replicate BITMAP_SIZE 0)[0 := 1]) 0"
    by (simp_all add: GET_def BITMAP_WORD_def BITMAP_MASK_def BITMAP_SIZE_val)
  have c: "0 < MAX_REGION_NUM" "0 < ops_worker_count"
    using worker_count_less by (simp_all add: MAX_REGION_NUM_val)
  obtain s1 :: "nat rpc" where s1: "rpc_reach Suc 0 s1" "clients s1 0 = Scanning 0" "bitmap s1 = replicate BITMAP_SIZE 0"
      "workers s1 0 = Polling 0"
    using rpc_reach.step [OF rpc_reach.init rpc_step.start [of _ 0], of 0 Suc] by (fastforce simp: rpc_init_def)
  obtain s2 :: "nat rpc" where s2: "rpc_reach Suc 0 s2" "clients s2 0 = Loaded 0 (bitmap s1 ! BITMAP_WORD 0)"
      "bitmap s2 = bitmap s1" "workers s2 0 = Polling 0"
    using rpc_reach.step [OF s1(1) rpc_step.load_free [OF s1(2) c(1)]] s1 b by fastforce
  obtain s3 :: "nat rpc" where s3: "rpc_reach Suc 0 s3" "clients s3 0 = Claimed 0" "GET (bitmap s3) 0" "workers s3 0 = Polling 0"
    using rpc_reach.step [OF s2(1) rpc_step.cas [OF s2(2)]] s2 s1(3) b
    by (fastforce simp: BITMAP_WORD_def BITMAP_MASK_def BITMAP_SIZE_val)
  obtain s4 :: "nat rpc" where s4: "rpc_reach Suc 0 s4" "clients s4 0 = Ready 0" "GET (bitmap s4) 0" "workers s4 0 = Polling 0"
    using rpc_reach.step [OF s3(1) rpc_step.clean [OF s3(2)]] s3 by fastforce
  obtain s5 :: "nat rpc" where s5: "rpc_reach Suc 0 s5" "clients s5 0 = Written 0 41" "GET (bitmap s5) 0" "workers s5 0 = Polling 0"
    using rpc_reach.step [OF s4(1) rpc_step.fill [OF s4(2), of _ _ 41]] s4 by fastforce
  obtain s6 :: "nat rpc" where s6: "rpc_reach Suc 0 s6" "clients s6 0 = Waiting 0 41" "GET (bitmap s6) 0" "workers s6 0 = Polling 0"
      "rq_status s6 0 = SENT"
    using rpc_reach.step [OF s5(1) rpc_step.send [OF s5(2)]] s5 by fastforce
  obtain s7 :: "nat rpc" where s7: "rpc_reach Suc 0 s7" "clients s7 0 = Waiting 0 41" "workers s7 0 = Serving 0"
    using rpc_reach.step [OF s6(1) rpc_step.poll_hit [OF s6(4) c(2) s6(3,5)]] s6 by fastforce
  obtain s8 :: "nat rpc" where s8: "rpc_reach Suc 0 s8" "clients s8 0 = Waiting 0 41" "workers s8 0 = Served 0"
    using rpc_reach.step [OF s7(1) rpc_step.handle [OF s7(3)]] s7 by fastforce
  obtain s9 :: "nat rpc" where s9: "rpc_reach Suc 0 s9" "clients s9 0 = Waiting 0 41" "rq_status s9 0 = DONE"
    using rpc_reach.step [OF s8(1) rpc_step.publish [OF s8(3)]] s8 by fastforce
  have "\<exists>t :: nat rpc. rpc_reach Suc 0 t \<and> clients t 0 = Reading 0 41"
    using rpc_reach.step [OF s9(1) rpc_step.receive [OF s9(2,3)]] by fastforce
  with s7 show ?thesis by blast
qed

theorem regions_exclusive_witness:
  "\<exists>s :: nat rpc. rpc_reach Suc 0 s \<and> workers s 0 = Serving 0 \<and> (\<exists>c d. clients s c = Waiting 0 d)"
proof -
  obtain s :: "nat rpc" where s: "rpc_reach Suc 0 s" "workers s 0 = Serving 0"
    using rpc_demo by blast
  with regions_exclusive [OF s(1), of 0 0 0 0 0] show ?thesis
    by auto
qed

text \<open>
  C7. A backend reads the answer to its own request: whenever a backend that sent \<open>d\<close> sees the
  status \<^verbatim>\<open>DONE\<close>, its region holds what the worker computed from \<open>d\<close>.
\<close>

theorem answer_is_to_own_request:
  assumes "rpc_reach serve zero s" "clients s c = Reading r d \<or> clients s c = Waiting r d \<and> rq_status s r = DONE"
  shows "rq_data s r = serve d \<and> rq_status s r = DONE"
  using rpc_invD(7) [OF reach_inv [OF assms(1)], of c] assms(2) by auto

theorem answer_is_to_own_request_witness:
  "\<exists>s :: nat rpc. rpc_reach Suc 0 s \<and> rq_data s 0 = 42"
proof -
  obtain s :: "nat rpc" where s: "rpc_reach Suc 0 s" "clients s 0 = Reading 0 41"
    using rpc_demo by blast
  with answer_is_to_own_request [OF s(1) disjI1 [OF s(2)]] show ?thesis
    by auto
qed



end
