(* ===== verification/Zeno_Rid.thy ===== *)
theory Zeno_Rid
  imports Zeno_Prelude
begin

text \<open>
  Field identifiers (\<^verbatim>\<open>src/src/include/rid.h\<close>, and the local-id helpers of
  \<^verbatim>\<open>src/src/privacy_zone/include/kv.hpp\<close>). A \<open>rid\<close> is 64 bits: the top
  \<^verbatim>\<open>KVMAP_PARTITION_BITS\<close> = 16 bits name a partition, the low 48 bits index into it. The
  all-ones partition is reserved for the temporaries of the privacy zone.
\<close>

type_synonym rid = u64

definition RID_PARTITION_SHIFT :: nat where
  "RID_PARTITION_SHIFT = 64 - 16"

definition RID_MASK :: rid where
  "RID_MASK = push_bit RID_PARTITION_SHIFT 1 - 1"

definition RID_LOCAL_PARTITION :: rid where
  "RID_LOCAL_PARTITION = push_bit 16 1 - 1"

definition RID_DEFAULT_PARTITION :: rid where
  "RID_DEFAULT_PARTITION = 0"

definition INVALID_RID :: rid where
  "INVALID_RID = - 1"

definition rid_partition :: "rid \<Rightarrow> rid" where
  "rid_partition ident = drop_bit RID_PARTITION_SHIFT ident"

definition rid_index :: "rid \<Rightarrow> rid" where
  "rid_index ident = ident AND RID_MASK"

definition make_partitioned_rid :: "rid \<Rightarrow> rid \<Rightarrow> rid" where
  "make_partitioned_rid part idx = push_bit RID_PARTITION_SHIFT part OR (idx AND RID_MASK)"

definition islocal :: "rid \<Rightarrow> bool" where
  "islocal ident \<longleftrightarrow> rid_partition ident = RID_LOCAL_PARTITION"

definition idx2local :: "rid \<Rightarrow> rid" where
  "idx2local idx = make_partitioned_rid RID_LOCAL_PARTITION idx"

definition local2idx :: "rid \<Rightarrow> rid" where
  "local2idx ident = rid_index ident"

section \<open>Partition and index are a faithful encoding\<close>

lemmas rid_consts = RID_PARTITION_SHIFT_def RID_LOCAL_PARTITION_def INVALID_RID_def
  RID_DEFAULT_PARTITION_def

lemma RID_MASK_eq: "RID_MASK = mask 48"
  by (simp add: RID_MASK_def RID_PARTITION_SHIFT_def mask_eq_exp_minus_1)

lemma rid_index_take: "rid_index ident = take_bit 48 ident"
  by (simp add: rid_index_def RID_MASK_eq take_bit_eq_mask)

lemma make_take: "make_partitioned_rid p i = push_bit 48 p OR take_bit 48 i"
  by (simp add: make_partitioned_rid_def RID_MASK_eq take_bit_eq_mask RID_PARTITION_SHIFT_def)

lemma rid_partition_drop: "rid_partition ident = drop_bit 48 ident"
  by (simp add: rid_partition_def RID_PARTITION_SHIFT_def)

lemma small_no_high_bits:
  assumes "(w :: rid) < 2 ^ n" "n < 64" "bit w k"
  shows "k < n"
proof -
  from assms(1,2) have "w AND mask n = w"
    by (intro less_mask_eq) simp
  with assms(3) have "bit (w AND mask n) k"
    by simp
  then show ?thesis
    by (simp add: bit_simps)
qed

lemma rid_partition_make:
  assumes "p < 2 ^ 16"
  shows "rid_partition (make_partitioned_rid p i) = p"
proof (rule bit_word_eqI)
  fix n assume "n < LENGTH(64)"
  then show "bit (rid_partition (make_partitioned_rid p i)) n = bit p n"
    using small_no_high_bits [OF assms, of n]
    by (auto simp: rid_partition_drop make_take bit_simps)
qed

lemma rid_index_make: "rid_index (make_partitioned_rid p i) = take_bit 48 i"
  by (rule bit_word_eqI) (auto simp: rid_index_take make_take bit_simps)

lemma rid_index_make_small: "i < 2 ^ 48 \<Longrightarrow> rid_index (make_partitioned_rid p i) = i"
  using small_no_high_bits [of i 48]
  by (auto simp: rid_index_make bit_simps intro!: bit_word_eqI)

lemma make_partition_index: "make_partitioned_rid (rid_partition ident) (rid_index ident) = ident"
  by (rule bit_word_eqI) (auto simp: make_take rid_partition_drop rid_index_take bit_simps)

lemma rid_partition_bound: "rid_partition ident < 2 ^ 16"
  using unat_u64_less [of ident]
  by (simp add: rid_partition_drop drop_bit_eq_div word_less_nat_alt unat_div
      less_mult_imp_div_less)

lemma rid_index_bound: "rid_index ident < 2 ^ 48"
  by (simp add: rid_index_take take_bit_eq_mod word_less_nat_alt unat_mod)

lemma unat_rid_index: "unat (rid_index ident) < 2 ^ 48"
  using rid_index_bound [of ident] by (simp add: word_less_nat_alt)

lemma rid_eq_iff: "a = b \<longleftrightarrow> rid_partition a = rid_partition b \<and> rid_index a = rid_index b"
  by (metis make_partition_index)

lemma RID_LOCAL_PARTITION_val: "RID_LOCAL_PARTITION = 0xFFFF"
  by (simp add: RID_LOCAL_PARTITION_def)

lemma islocal_idx2local [simp]: "islocal (idx2local i)"
  by (simp add: islocal_def idx2local_def rid_partition_make RID_LOCAL_PARTITION_val)

text \<open>An index that fits below the partition bits.\<close>

definition idx_ok :: "rid \<Rightarrow> bool" where
  "idx_ok i \<longleftrightarrow> i < 2 ^ 48"

lemma idx_ok_unat: "idx_ok k \<longleftrightarrow> unat k < 2 ^ 48"
  by (simp add: idx_ok_def word_less_nat_alt)

lemma idx_ok_rid_index [simp]: "idx_ok (rid_index ident)"
  unfolding idx_ok_unat by (rule unat_rid_index)

lemma rid_index_make_ok [simp]: "idx_ok i \<Longrightarrow> rid_index (make_partitioned_rid p i) = i"
  by (simp add: idx_ok_def rid_index_make_small)

lemma local2idx_idx2local [simp]: "idx_ok i \<Longrightarrow> local2idx (idx2local i) = i"
  by (simp add: local2idx_def idx2local_def)

lemma idx2local_local2idx: "islocal ident \<Longrightarrow> idx2local (local2idx ident) = ident"
  by (metis idx2local_def islocal_def local2idx_def make_partition_index)

lemma idx2local_inj: "idx_ok i \<Longrightarrow> idx_ok j \<Longrightarrow> idx2local i = idx2local j \<longleftrightarrow> i = j"
  by (metis local2idx_idx2local)

lemma islocal_make: "p < 2 ^ 16 \<Longrightarrow> islocal (make_partitioned_rid p i) \<longleftrightarrow> p = RID_LOCAL_PARTITION"
  by (simp add: islocal_def rid_partition_make)

lemma islocal_INVALID [simp]: "islocal INVALID_RID"
  by (simp add: islocal_def rid_partition_def rid_consts mask_numeral)

section \<open>Properties\<close>

text \<open>Packing a partition and an index and unpacking them are inverse.\<close>

lemma rid_codec:
  assumes "p < 2 ^ 16" "i < 2 ^ 48"
  shows "rid_partition (make_partitioned_rid p i) = p \<and> rid_index (make_partitioned_rid p i) = i
    \<and> (islocal (make_partitioned_rid p i) \<longleftrightarrow> p = RID_LOCAL_PARTITION)
    \<and> make_partitioned_rid (rid_partition ident) (rid_index ident) = ident"
  using assms by (simp add: rid_partition_make rid_index_make_small islocal_make make_partition_index)

end
