(* ===== verification/Zeno_Local_Store.thy ===== *)
theory Zeno_Local_Store
  imports Zeno_Rid
begin

text \<open>
  The temporaries of one worker of the privacy zone
  (\<^verbatim>\<open>src/src/privacy_zone/include/kv-local.hpp\<close>). \<open>'v local_store\<close> is
  \<^verbatim>\<open>ReusableLocalKVStore<ValueType>\<close>, with its three vectors; \<open>dflt\<close> stands for
  \<^verbatim>\<open>ValueType()\<close>. The \<^verbatim>\<open>char *\<close> specialisation keeps \<^verbatim>\<open>std::string\<close>s built from C strings.
  The append-only \<^verbatim>\<open>LocalKVStore\<close> and the ring buffer that replaces it when
  \<^verbatim>\<open>USE_LOCAL_STORE_CLEAR\<close> is off come after it. The locale \<open>temp_heap\<close> is the contract the
  rest of the privacy zone relies on; the interpretations discharge it for the four stores.
\<close>

section \<open>The reusable store\<close>

record 'v local_store =
  ls_store :: "'v list"
  ls_live :: "byte list"
  ls_free :: "rid list"

definition ls_empty :: "'v local_store" where
  "ls_empty = \<lparr>ls_store = [], ls_live = [], ls_free = []\<rparr>"

definition ls_put :: "'v \<Rightarrow> ('v local_store, rid) kvm" where
  "ls_put value = (\<lambda>s.
     if ls_free s \<noteq> [] then
       let key = last (ls_free s); s1 = s\<lparr>ls_free := butlast (ls_free s)\<rparr> in
       if unat key < length (ls_store s) \<and> unat key < length (ls_live s) then
         (Inr key, s1\<lparr>ls_store := (ls_store s)[unat key := value],
                      ls_live := (ls_live s)[unat key := 1]\<rparr>)
       else (Inl (Undefined VectorIndex), s1)
     else
       (Inr (of_nat (length (ls_store s))),
        s\<lparr>ls_store := ls_store s @ [value], ls_live := ls_live s @ [1]\<rparr>))"

definition ls_get :: "rid \<Rightarrow> ('v local_store, 'v) kvm" where
  "ls_get key = (\<lambda>s.
     if unat key < length (ls_store s) then (Inr (ls_store s ! unat key), s)
     else (Inl (Undefined VectorIndex), s))"

definition vec_resize :: "nat \<Rightarrow> 'a \<Rightarrow> 'a list \<Rightarrow> 'a list" where
  "vec_resize n d xs = take n xs @ replicate (n - length xs) d"

definition ls_replace :: "'v \<Rightarrow> rid \<Rightarrow> 'v \<Rightarrow> ('v local_store, unit) kvm" where
  "ls_replace dflt key value = (\<lambda>s.
     let s1 = (if length (ls_store s) \<le> unat key
               then s\<lparr>ls_store := vec_resize (unat (key + 1)) dflt (ls_store s),
                      ls_live := vec_resize (unat (key + 1)) 0 (ls_live s)\<rparr>
               else s) in
     if unat key < length (ls_store s1) \<and> unat key < length (ls_live s1) then
       (Inr (), s1\<lparr>ls_store := (ls_store s1)[unat key := value],
                   ls_live := (ls_live s1)[unat key := 1]\<rparr>)
     else (Inl (Undefined VectorIndex), s1))"

definition ls_erase :: "'v \<Rightarrow> rid \<Rightarrow> ('v local_store, unit) kvm" where
  "ls_erase dflt key = (\<lambda>s.
     if length (ls_live s) \<le> unat key \<or> ls_live s ! unat key = 0 then (Inr (), s)
     else if unat key < length (ls_store s) then
       (Inr (), s\<lparr>ls_live := (ls_live s)[unat key := 0],
                  ls_store := (ls_store s)[unat key := dflt],
                  ls_free := ls_free s @ [key]\<rparr>)
     else (Inl (Undefined VectorIndex), s\<lparr>ls_live := (ls_live s)[unat key := 0]\<rparr>))"

definition ls_clear :: "('v local_store, unit) kvm" where
  "ls_clear = (\<lambda>s. (Inr (), s\<lparr>ls_store := [], ls_live := [], ls_free := []\<rparr>))"

text \<open>The \<^verbatim>\<open>char *\<close> specialisation.\<close>

definition lstr_put :: "byte list \<Rightarrow> (byte list local_store, rid) kvm" where
  "lstr_put value = ls_put (cstr value)"

definition lstr_get :: "rid \<Rightarrow> (byte list local_store, byte list) kvm" where
  "lstr_get key = ls_get key"

definition lstr_replace :: "rid \<Rightarrow> byte list \<Rightarrow> (byte list local_store, unit) kvm" where
  "lstr_replace key value = ls_replace [] key (cstr value)"

definition lstr_erase :: "rid \<Rightarrow> (byte list local_store, unit) kvm" where
  "lstr_erase key = ls_erase [] key"

section \<open>The append-only store and the ring buffer\<close>

definition vls_put :: "'v \<Rightarrow> ('v list, rid) kvm" where
  "vls_put value = (\<lambda>s. (Inr (of_nat (length s)), s @ [value]))"

definition vls_get :: "rid \<Rightarrow> ('v list, 'v) kvm" where
  "vls_get key = (\<lambda>s.
     if unat key < length s then (Inr (s ! unat key), s) else (Inl (Undefined VectorIndex), s))"

definition vls_replace :: "'v \<Rightarrow> rid \<Rightarrow> 'v \<Rightarrow> ('v list, unit) kvm" where
  "vls_replace dflt key value = (\<lambda>s.
     let s1 = (if length s \<le> unat key then vec_resize (unat (key + 1)) dflt s else s) in
     if unat key < length s1 then (Inr (), s1[unat key := value])
     else (Inl (Undefined VectorIndex), s1))"

record 'v ring_store =
  rg_cur_rid :: rid
  rg_store :: "nat \<Rightarrow> 'v"

definition ring_put :: "nat \<Rightarrow> 'v \<Rightarrow> ('v ring_store, rid) kvm" where
  "ring_put max_ele value = (\<lambda>s.
     let key = rg_cur_rid s; cur = key + 1 in
     if unat key < max_ele then
       (Inr key, s\<lparr>rg_store := (rg_store s)(unat key := value),
                   rg_cur_rid := (if of_nat max_ele \<le> cur then 0 else cur)\<rparr>)
     else (Inl (Undefined VectorIndex), s\<lparr>rg_cur_rid := cur\<rparr>))"

definition ring_get :: "nat \<Rightarrow> rid \<Rightarrow> ('v ring_store, 'v) kvm" where
  "ring_get max_ele key = (\<lambda>s.
     if unat key < max_ele then (Inr (rg_store s (unat key)), s)
     else (Inl (Undefined VectorIndex), s))"

section \<open>The operator over the four stores\<close>

record local_kv =
  lk_int :: "i32 local_store"
  lk_float :: "u32 local_store"
  lk_time :: "i64 local_store"
  lk_text :: "byte list local_store"

definition lk_empty :: local_kv where
  "lk_empty = \<lparr>lk_int = ls_empty, lk_float = ls_empty, lk_time = ls_empty, lk_text = ls_empty\<rparr>"

definition lk_putInt :: "i32 \<Rightarrow> (local_kv, rid) kvm" where
  "lk_putInt value = zoom lk_int lk_int_update (ls_put value)"

definition lk_getInt :: "rid \<Rightarrow> (local_kv, i32) kvm" where
  "lk_getInt key = zoom lk_int lk_int_update (ls_get key)"

definition lk_putFloat :: "u32 \<Rightarrow> (local_kv, rid) kvm" where
  "lk_putFloat value = zoom lk_float lk_float_update (ls_put value)"

definition lk_getFloat :: "rid \<Rightarrow> (local_kv, u32) kvm" where
  "lk_getFloat key = zoom lk_float lk_float_update (ls_get key)"

definition lk_putTimestamp :: "i64 \<Rightarrow> (local_kv, rid) kvm" where
  "lk_putTimestamp value = zoom lk_time lk_time_update (ls_put value)"

definition lk_getTimestamp :: "rid \<Rightarrow> (local_kv, i64) kvm" where
  "lk_getTimestamp key = zoom lk_time lk_time_update (ls_get key)"

definition lk_putString :: "byte list \<Rightarrow> (local_kv, rid) kvm" where
  "lk_putString value = zoom lk_text lk_text_update (lstr_put value)"

definition lk_getString :: "rid \<Rightarrow> (local_kv, byte list) kvm" where
  "lk_getString key = zoom lk_text lk_text_update (lstr_get key)"

definition lk_replaceInt :: "rid \<Rightarrow> i32 \<Rightarrow> (local_kv, unit) kvm" where
  "lk_replaceInt key value = zoom lk_int lk_int_update (ls_replace 0 key value)"

definition lk_replaceFloat :: "rid \<Rightarrow> u32 \<Rightarrow> (local_kv, unit) kvm" where
  "lk_replaceFloat key value = zoom lk_float lk_float_update (ls_replace 0 key value)"

definition lk_replaceTimestamp :: "rid \<Rightarrow> i64 \<Rightarrow> (local_kv, unit) kvm" where
  "lk_replaceTimestamp key value = zoom lk_time lk_time_update (ls_replace 0 key value)"

definition lk_replaceString :: "rid \<Rightarrow> byte list \<Rightarrow> (local_kv, unit) kvm" where
  "lk_replaceString key value = zoom lk_text lk_text_update (lstr_replace key value)"

definition lk_eraseInt :: "rid \<Rightarrow> (local_kv, unit) kvm" where
  "lk_eraseInt key = zoom lk_int lk_int_update (ls_erase 0 key)"

definition lk_eraseFloat :: "rid \<Rightarrow> (local_kv, unit) kvm" where
  "lk_eraseFloat key = zoom lk_float lk_float_update (ls_erase 0 key)"

definition lk_eraseTimestamp :: "rid \<Rightarrow> (local_kv, unit) kvm" where
  "lk_eraseTimestamp key = zoom lk_time lk_time_update (ls_erase 0 key)"

definition lk_eraseString :: "rid \<Rightarrow> (local_kv, unit) kvm" where
  "lk_eraseString key = zoom lk_text lk_text_update (lstr_erase key)"

definition lk_clear :: "(local_kv, unit) kvm" where
  "lk_clear =
     bindE (zoom lk_int lk_int_update ls_clear) (\<lambda>_.
     bindE (zoom lk_float lk_float_update ls_clear) (\<lambda>_.
     bindE (zoom lk_time lk_time_update ls_clear) (\<lambda>_.
     zoom lk_text lk_text_update ls_clear)))"

section \<open>The contract of a temporary store\<close>

text \<open>
  \<open>content s\<close> is the partial map from live identifiers to values; \<open>room s\<close> says the store is
  below the bound on local indices.
\<close>

locale temp_heap =
  fixes put :: "'v \<Rightarrow> ('s, rid) kvm"
    and get :: "rid \<Rightarrow> ('s, 'v) kvm"
    and erase :: "rid \<Rightarrow> ('s, unit) kvm"
    and clear :: "('s, unit) kvm"
    and content :: "'s \<Rightarrow> rid \<Rightarrow> 'v option"
    and stored :: "'v \<Rightarrow> 'v"
    and invar :: "'s \<Rightarrow> bool"
    and room :: "'s \<Rightarrow> bool"
  assumes put_spec: "invar s \<Longrightarrow> room s \<Longrightarrow>
      \<exists>key s'. put v s = (Inr key, s') \<and> content s key = None \<and> idx_ok key
        \<and> content s' = (content s)(key \<mapsto> stored v) \<and> invar s'"
    and get_spec: "invar s \<Longrightarrow> content s key = Some v \<Longrightarrow> get key s = (Inr v, s)"
    and erase_spec: "invar s \<Longrightarrow>
      \<exists>s'. erase key s = (Inr (), s') \<and> content s' = (content s)(key := None) \<and> invar s'"
    and clear_spec: "\<exists>s'. clear s = (Inr (), s') \<and> content s' = Map.empty \<and> invar s'"
begin

lemma putD:
  assumes "invar s" "room s" "put v s = (Inr key, s')"
  shows "content s key = None" "idx_ok key" "content s' = (content s)(key \<mapsto> stored v)" "invar s'"
  using put_spec [OF assms(1,2), of v] assms(3) by auto

lemma put_total: "invar s \<Longrightarrow> room s \<Longrightarrow> \<exists>key s'. put v s = (Inr key, s')"
  using put_spec by blast

lemma put_get:
  assumes "invar s" "room s" "put v s = (Inr key, s')"
  shows "get key s' = (Inr (stored v), s')"
  using putD [OF assms] by (intro get_spec) auto

lemma put_frame:
  assumes "invar s" "room s" "put v s = (Inr key, s')" "content s j = Some w"
  shows "get j s' = (Inr w, s')"
proof -
  from putD(1) [OF assms(1-3)] assms(4) have "j \<noteq> key" by auto
  with putD(3,4) [OF assms(1-3)] assms(4) show ?thesis
    by (intro get_spec) auto
qed

lemma eraseD:
  assumes "invar s" "erase key s = (r, s')"
  shows "r = Inr ()" "content s' = (content s)(key := None)" "invar s'"
  using erase_spec [OF assms(1), of key] assms(2) by auto

lemma erase_frame:
  assumes "invar s" "erase key s = (r, s')" "content s j = Some w" "j \<noteq> key"
  shows "get j s' = (Inr w, s')"
  using eraseD [OF assms(1,2)] assms(3,4) by (intro get_spec) auto

lemma erase_idem:
  assumes "invar s" "erase key s = (r, s')" "erase key s' = (r', s'')"
  shows "content s'' = content s'"
  using eraseD [OF assms(1,2)] eraseD [OF _ assms(3)] by auto

end

section \<open>The reusable store meets the contract\<close>

definition ls_content :: "'v local_store \<Rightarrow> rid \<Rightarrow> 'v option" where
  "ls_content s key =
     (if unat key < length (ls_store s) \<and> ls_live s ! unat key \<noteq> 0
      then Some (ls_store s ! unat key) else None)"

definition ls_invar :: "'v local_store \<Rightarrow> bool" where
  "ls_invar s \<longleftrightarrow>
     length (ls_live s) = length (ls_store s) \<and> length (ls_store s) \<le> 2 ^ 48 \<and>
     distinct (ls_free s) \<and>
     list_all (\<lambda>k. unat k < length (ls_store s) \<and> ls_live s ! unat k = 0) (ls_free s)"

definition ls_room :: "'v local_store \<Rightarrow> bool" where
  "ls_room s \<longleftrightarrow> length (ls_store s) < 2 ^ 48"

lemma ls_invar_empty [simp]: "ls_invar ls_empty"
  by (simp add: ls_invar_def ls_empty_def)

lemma unat_inj_u64: "unat (a :: u64) = unat b \<longleftrightarrow> a = b"
  by (simp add: word_unat_eq_iff)

lemma unat_of_nat_48: "n \<le> 2 ^ 48 \<Longrightarrow> unat (of_nat n :: rid) = n"
  by (simp add: unsigned_of_nat take_bit_nat_eq_self)

lemma ls_put_append:
  fixes v :: 'v
  assumes inv: "ls_invar s" and room: "ls_room s" and free: "ls_free s = []"
  defines "key \<equiv> of_nat (length (ls_store s))"
    and "s' \<equiv> s\<lparr>ls_store := ls_store s @ [v], ls_live := ls_live s @ [1]\<rparr>"
  shows "ls_put v s = (Inr key, s')" "ls_content s key = None" "idx_ok key"
    "ls_content s' = (ls_content s)(key \<mapsto> v)" "ls_invar s'"
proof -
  have uk: "unat key = length (ls_store s)"
    using room by (simp add: key_def ls_room_def unat_of_nat_48)
  show "ls_put v s = (Inr key, s')" "ls_content s key = None" "idx_ok key"
    using uk room free by (simp_all add: ls_put_def key_def s'_def ls_content_def idx_ok_unat ls_room_def)
  show "ls_content s' = (ls_content s)(key \<mapsto> v)"
  proof (rule ext)
    fix k
    have "unat k = length (ls_store s) \<longleftrightarrow> k = key"
      using uk unat_inj_u64 [of k key] by simp
    with inv uk show "ls_content s' k = ((ls_content s)(key \<mapsto> v)) k"
      by (auto simp: ls_content_def s'_def ls_invar_def nth_append)
  qed
  show "ls_invar s'"
    using inv room free by (simp add: ls_invar_def ls_room_def s'_def)
qed

lemma ls_put_reuse:
  fixes v :: 'v
  assumes inv: "ls_invar s" and free: "ls_free s = fs @ [key]"
  defines "s' \<equiv> s\<lparr>ls_free := fs, ls_store := (ls_store s)[unat key := v],
      ls_live := (ls_live s)[unat key := 1]\<rparr>"
  shows "ls_put v s = (Inr key, s')" "ls_content s key = None" "idx_ok key"
    "ls_content s' = (ls_content s)(key \<mapsto> v)" "ls_invar s'"
proof -
  from inv free have lt: "unat key < length (ls_store s)" and dead: "ls_live s ! unat key = 0"
    and nk: "key \<notin> set fs" and len: "length (ls_live s) = length (ls_store s)"
    by (auto simp: ls_invar_def)
  from lt dead len free show "ls_put v s = (Inr key, s')" "ls_content s key = None"
    by (simp_all add: ls_put_def s'_def ls_content_def Let_def)
  show "idx_ok key"
    using lt inv by (simp add: ls_invar_def idx_ok_unat)
  show "ls_content s' = (ls_content s)(key \<mapsto> v)"
  proof (rule ext)
    fix k
    show "ls_content s' k = ((ls_content s)(key \<mapsto> v)) k"
      using lt len unat_inj_u64 [of key k]
      by (auto simp: ls_content_def s'_def nth_list_update)
  qed
  have "list_all (\<lambda>k. unat k < length (ls_store s) \<and> (ls_live s)[unat key := 1] ! unat k = 0) fs"
    using inv free nk unat_inj_u64 [of key]
    by (auto simp: ls_invar_def list_all_iff nth_list_update)
  with inv free show "ls_invar s'"
    by (simp add: ls_invar_def s'_def)
qed

lemma ls_put_spec:
  assumes "ls_invar s" and "ls_room s"
  shows "\<exists>key s'. ls_put v s = (Inr key, s') \<and> ls_content s key = None \<and> idx_ok key
    \<and> ls_content s' = (ls_content s)(key \<mapsto> v) \<and> ls_invar s'"
proof (cases "ls_free s" rule: rev_cases)
  case Nil
  from ls_put_append [OF assms Nil] show ?thesis by blast
next
  case (snoc fs key)
  from ls_put_reuse [OF assms(1) snoc] show ?thesis by blast
qed

lemma ls_erase_spec:
  assumes "ls_invar s"
  shows "\<exists>s'. ls_erase d key s = (Inr (), s') \<and> ls_content s' = (ls_content s)(key := None)
    \<and> ls_invar s'"
proof (cases "length (ls_live s) \<le> unat key \<or> ls_live s ! unat key = 0")
  case True
  with assms show ?thesis
    by (auto simp: ls_erase_def ls_content_def ls_invar_def fun_eq_iff)
next
  case False
  let ?s' = "s\<lparr>ls_live := (ls_live s)[unat key := 0], ls_store := (ls_store s)[unat key := d],
      ls_free := ls_free s @ [key]\<rparr>"
  from False assms have lt: "unat key < length (ls_store s)" and live: "ls_live s ! unat key \<noteq> 0"
    by (auto simp: ls_invar_def)
  then have "ls_erase d key s = (Inr (), ?s')"
    using False by (simp add: ls_erase_def)
  moreover have "ls_content ?s' = (ls_content s)(key := None)"
  proof (rule ext)
    fix k
    show "ls_content ?s' k = ((ls_content s)(key := None)) k"
      using assms lt unat_inj_u64 [of key k]
      by (auto simp: ls_content_def ls_invar_def nth_list_update)
  qed
  moreover have "ls_invar ?s'"
    using assms lt live by (auto simp: ls_invar_def list_all_iff nth_list_update)
  ultimately show ?thesis by blast
qed

lemma ls_get_spec: "ls_content s key = Some v \<Longrightarrow> ls_get key s = (Inr v, s)"
  by (auto simp: ls_content_def ls_get_def split: if_splits)

lemma ls_clear_spec:
  "\<exists>s'. ls_clear s = (Inr (), s') \<and> ls_content s' = Map.empty \<and> ls_invar s'"
  by (simp add: ls_clear_def ls_content_def ls_invar_def fun_eq_iff)

interpretation ls_int: temp_heap ls_put ls_get "ls_erase (0 :: i32)" ls_clear ls_content "\<lambda>v. v"
    ls_invar ls_room
  by unfold_locales (auto simp: ls_put_spec ls_get_spec ls_erase_spec ls_clear_spec)

interpretation ls_time: temp_heap ls_put ls_get "ls_erase (0 :: i64)" ls_clear ls_content "\<lambda>v. v"
    ls_invar ls_room
  by unfold_locales (auto simp: ls_put_spec ls_get_spec ls_erase_spec ls_clear_spec)

interpretation lstr: temp_heap lstr_put lstr_get lstr_erase ls_clear ls_content cstr ls_invar ls_room
  by unfold_locales
    (auto simp: lstr_put_def lstr_get_def lstr_erase_def ls_put_spec ls_get_spec ls_erase_spec
      ls_clear_spec)

section \<open>Properties\<close>

text \<open>The states that stores reach by putting, erasing and clearing temporaries.\<close>

inductive ls_reach :: "'v \<Rightarrow> 'v local_store \<Rightarrow> bool" for dflt where
  start: "ls_reach dflt ls_empty"
| put: "ls_reach dflt s \<Longrightarrow> ls_room s \<Longrightarrow> ls_put v s = (r, s') \<Longrightarrow> ls_reach dflt s'"
| erase: "ls_reach dflt s \<Longrightarrow> ls_erase dflt key s = (r, s') \<Longrightarrow> ls_reach dflt s'"
| clear: "ls_reach dflt s \<Longrightarrow> ls_clear s = (r, s') \<Longrightarrow> ls_reach dflt s'"

lemma ls_reach_invar: "ls_reach dflt s \<Longrightarrow> ls_invar s"
proof (induction rule: ls_reach.induct)
  case (put s v r s')
  then show ?case using ls_put_spec [of s v] by auto
next
  case (erase s key r s')
  then show ?case using ls_erase_spec [of s dflt key] by auto
next
  case (clear s r s')
  then show ?case using ls_clear_spec [of s] by auto
qed simp

text \<open>
  C6. Temporaries never alias: in every state that puts, erases (double erases included) and
  clears reach, a put succeeds with an index that no live temporary uses, the new temporary
  reads back, and every live temporary still reads as before.
\<close>

theorem temporaries_never_alias:
  assumes "ls_reach 0 s" "ls_room s" "ls_put (v :: i32) s = (r, s')"
  shows "\<exists>key. r = Inr key \<and> ls_content s key = None \<and> ls_get key s' = (Inr v, s')
    \<and> (\<forall>j w. ls_content s j = Some w \<longrightarrow> ls_get j s' = (Inr w, s'))"
proof -
  note inv = ls_reach_invar [OF assms(1)]
  from ls_int.put_total [OF inv assms(2), of v] assms(3) obtain key where
    key: "ls_put v s = (Inr key, s')" "r = Inr key"
    by auto
  with ls_int.putD(1) [OF inv assms(2) key(1)] ls_int.put_get [OF inv assms(2) key(1)]
    ls_int.put_frame [OF inv assms(2) key(1)] show ?thesis
    by blast
qed

text \<open>A store in which temporary 0 was put and erased, and 1 was put: 0 is reused.\<close>

definition ls_sample :: "i32 local_store" where
  "ls_sample = snd (ls_put 4 (snd (ls_erase 0 0 (snd (ls_put 3 ls_empty)))))"

theorem temporaries_never_alias_witness:
  "\<exists>key. fst (ls_put 5 ls_sample) = Inr key \<and> ls_content ls_sample key = None
    \<and> ls_get key (snd (ls_put 5 ls_sample)) = (Inr 5, snd (ls_put 5 ls_sample))
    \<and> (\<forall>j w. ls_content ls_sample j = Some w \<longrightarrow>
        ls_get j (snd (ls_put 5 ls_sample)) = (Inr w, snd (ls_put 5 ls_sample)))"
proof (rule temporaries_never_alias [OF _ _ surjective_pairing])
  show "ls_reach 0 ls_sample"
    unfolding ls_sample_def
    by (rule ls_reach.put [OF ls_reach.erase [OF ls_reach.put [OF ls_reach.start _ surjective_pairing]
            surjective_pairing] _ surjective_pairing])
      (simp_all add: ls_room_def ls_empty_def ls_put_def ls_erase_def)
  show "ls_room ls_sample"
    by (simp add: ls_sample_def ls_room_def ls_empty_def ls_put_def ls_erase_def)
qed

text \<open>
  \<^verbatim>\<open>replace\<close> does not take the key it revives off the free list. After a temporary has been
  erased and then replaced, the next put returns that same key and overwrites the replaced
  value.
\<close>

theorem replace_after_erase_aliases:
  assumes "ls_invar s" "ls_room s" "ls_content s key = Some w"
  shows "\<exists>s1 s2 s3. ls_erase d key s = (Inr (), s1) \<and> ls_replace d key v s1 = (Inr (), s2)
    \<and> ls_get key s2 = (Inr v, s2) \<and> ls_put u s2 = (Inr key, s3) \<and> ls_get key s3 = (Inr u, s3)"
proof -
  from assms(1,3) have lt: "unat key < length (ls_store s)" and live: "ls_live s ! unat key \<noteq> 0"
    and len: "length (ls_live s) = length (ls_store s)"
    by (auto simp: ls_content_def ls_invar_def split: if_splits)
  define s1 where "s1 = s\<lparr>ls_live := (ls_live s)[unat key := 0], ls_store := (ls_store s)[unat key := d],
      ls_free := ls_free s @ [key]\<rparr>"
  have "ls_erase d key s = (Inr (), s1)"
    using lt live len by (simp add: ls_erase_def s1_def)
  with lt len show ?thesis
    by (simp add: s1_def ls_replace_def ls_get_def ls_put_def Let_def)
qed

theorem replace_after_erase_aliases_witness:
  "\<exists>s1 s2 s3. ls_erase 0 0 \<lparr>ls_store = [3 :: i32], ls_live = [1], ls_free = []\<rparr> = (Inr (), s1)
    \<and> ls_replace 0 0 8 s1 = (Inr (), s2) \<and> ls_get 0 s2 = (Inr 8, s2)
    \<and> ls_put 9 s2 = (Inr 0, s3) \<and> ls_get 0 s3 = (Inr 9, s3)"
  by (rule replace_after_erase_aliases [where w = 3]) (simp_all add: ls_invar_def ls_room_def ls_content_def)

end
