(* ===== verification/Zeno_File_Map.thy ===== *)
theory Zeno_File_Map
  imports Zeno_Rid
begin

text \<open>
  The persistent mapping of the privacy zone
  (\<^verbatim>\<open>src/src/privacy_zone/include/file-map-operator.hpp\<close>, with \<^verbatim>\<open>USE_KVMAP_PARTITION\<close> and
  \<^verbatim>\<open>USE_VARLEN_STRING\<close> on, as the build sets them). \<open>'v fstore\<close> is \<^verbatim>\<open>FileMapKVStore<ValueType>\<close>
  (an atomic counter and an array; \<open>sz\<close> is \<^verbatim>\<open>sizeof(ValueType)\<close>), \<open>text_store\<close> is
  \<^verbatim>\<open>FileMapKVStore<char *>\<close> (an offset array into an append-only byte array), \<open>file_map\<close> is
  \<^verbatim>\<open>FileMapKVStoreOperator\<close>: the mapped files of every partition, which all workers share, and
  the set of partitions this process has opened. Whether Boost can map the files of a partition
  is the environment's choice, the field \<open>fm_mappable\<close>; a file that is mapped for the first time
  holds zeros.

  The locale \<open>append_store\<close> is the contract of one partition's store; \<open>store_kind\<close> lifts it to
  field identifiers, once for the four types.
\<close>

definition PAGE_SIZE :: nat where "PAGE_SIZE = 4096"

definition KV_MMAP_SIZE :: nat where "KV_MMAP_SIZE = 2 ^ 40"

section \<open>Scalar stores\<close>

record 'v fstore =
  fs_cur_rid :: u64
  fs_store :: "nat \<Rightarrow> 'v"

definition fs_fresh :: "'v \<Rightarrow> 'v fstore" where
  "fs_fresh z = \<lparr>fs_cur_rid = 0, fs_store = (\<lambda>_. z)\<rparr>"

definition MAX_ARRAY_ELE_NUM :: "nat \<Rightarrow> nat" where
  "MAX_ARRAY_ELE_NUM sz = (KV_MMAP_SIZE - PAGE_SIZE) div sz"

definition fs_put :: "nat \<Rightarrow> 'v \<Rightarrow> ('v fstore, rid) kvm" where
  "fs_put sz value = (\<lambda>s.
     let key = fs_cur_rid s; s1 = s\<lparr>fs_cur_rid := key + 1\<rparr> in
     if unat key < MAX_ARRAY_ELE_NUM sz
     then (Inr key, s1\<lparr>fs_store := (fs_store s)(unat key := value)\<rparr>)
     else (Inl (Fatal KeyOutOfRange), s1))"

definition fs_get :: "nat \<Rightarrow> rid \<Rightarrow> ('v fstore, 'v) kvm" where
  "fs_get sz key = (\<lambda>s.
     if unat key < MAX_ARRAY_ELE_NUM sz then (Inr (fs_store s (unat key)), s)
     else (Inl (Fatal KeyOutOfRange), s))"

definition fs_replace :: "nat \<Rightarrow> rid \<Rightarrow> 'v \<Rightarrow> ('v fstore, unit) kvm" where
  "fs_replace sz key value = (\<lambda>s.
     if unat key < MAX_ARRAY_ELE_NUM sz
     then (Inr (), s\<lparr>fs_store := (fs_store s)(unat key := value)\<rparr>)
     else (Inl (Fatal KeyOutOfRange), s))"

text \<open>
  \<^verbatim>\<open>flush_async\<close> hands the page-aligned range of the used elements to \<^verbatim>\<open>msync\<close>: \<open>None\<close> when
  nothing is used, else the start address and the length. \<open>base\<close> is the address of the array.
\<close>

definition PAGE_ALIGN_DOWN :: "u64 \<Rightarrow> u64" where
  "PAGE_ALIGN_DOWN v = v AND NOT (4096 - 1)"

definition PAGE_ALIGN_UP :: "u64 \<Rightarrow> u64" where
  "PAGE_ALIGN_UP v = (v + (4096 - 1)) AND NOT (4096 - 1)"

definition fs_flush_async :: "nat \<Rightarrow> u64 \<Rightarrow> 'v fstore \<Rightarrow> (u64 \<times> u64) option" where
  "fs_flush_async sz base s =
     (let used = fs_cur_rid s * of_nat sz in
      if used = 0 then None
      else let aligned_start = PAGE_ALIGN_DOWN base; aligned_end = PAGE_ALIGN_UP (base + used)
           in Some (aligned_start, aligned_end - aligned_start))"

section \<open>The text store\<close>

definition TEXT_MAX_ELE_NUM :: nat where
  "TEXT_MAX_ELE_NUM = 512 * 1024 * 1024"

definition OFFSET_ARRAY_BYTES :: nat where
  "OFFSET_ARRAY_BYTES = TEXT_MAX_ELE_NUM * 8"

definition STORE_SIZE :: nat where
  "STORE_SIZE = (KV_MMAP_SIZE - PAGE_SIZE) - OFFSET_ARRAY_BYTES"

record text_store =
  ts_cur_rid :: u64
  ts_cur_offset :: u64
  ts_offsets :: "nat \<Rightarrow> u64"
  ts_store :: mem

definition ts_fresh :: text_store where
  "ts_fresh = \<lparr>ts_cur_rid = 0, ts_cur_offset = 0, ts_offsets = (\<lambda>_. 0), ts_store = (\<lambda>_. 0)\<rparr>"

text \<open>
  The part that \<^verbatim>\<open>put\<close> and \<^verbatim>\<open>replace\<close> share once the key is known: reserve the bytes, check
  the end of the reservation, point the key at them and copy the string with its NUL. The
  comparison is on \<^verbatim>\<open>size_t\<close>, so it may have wrapped; a write outside the array is undefined.
\<close>

definition ts_write :: "rid \<Rightarrow> byte list \<Rightarrow> (text_store, unit) kvm" where
  "ts_write key value = (\<lambda>s.
     let str = cstr value; len = length str;
         write_len = of_nat (len + 1) :: u64;
         write_pos = ts_cur_offset s;
         s1 = s\<lparr>ts_cur_offset := write_pos + write_len\<rparr> in
     if write_pos + write_len \<le> of_nat STORE_SIZE then
       if unat write_pos + len + 1 \<le> STORE_SIZE then
         (Inr (), s1\<lparr>ts_offsets := (ts_offsets s)(unat key := write_pos),
                     ts_store := wr_bytes (ts_store s) (unat write_pos) (str @ [0])\<rparr>)
       else (Inl (Undefined BufferOverflow), s1)
     else (Inl (Fatal StoreOutOfRange), s1))"

definition ts_put :: "byte list \<Rightarrow> (text_store, rid) kvm" where
  "ts_put value = (\<lambda>s.
     let key = ts_cur_rid s; s1 = s\<lparr>ts_cur_rid := key + 1\<rparr> in
     if unat key < TEXT_MAX_ELE_NUM
     then bindE (ts_write key value) (\<lambda>_. ret key) s1
     else (Inl (Fatal KeyOutOfRange), s1))"

text \<open>\<^verbatim>\<open>get\<close> returns a pointer into the byte array, here its position.\<close>

definition ts_get_pos :: "rid \<Rightarrow> (text_store, nat) kvm" where
  "ts_get_pos key = (\<lambda>s.
     if unat key < TEXT_MAX_ELE_NUM then (Inr (unat (ts_offsets s (unat key))), s)
     else (Inl (Fatal KeyOutOfRange), s))"

text \<open>What a caller sees that reads the pointer as a C string.\<close>

definition ts_get :: "rid \<Rightarrow> (text_store, byte list) kvm" where
  "ts_get key = bindE (ts_get_pos key) (\<lambda>pos s.
     case read_cstr (ts_store s) pos STORE_SIZE of
       None \<Rightarrow> (Inl (Undefined OverRead), s)
     | Some str \<Rightarrow> (Inr str, s))"

text \<open>What a caller sees that copies \<open>n\<close> bytes from the pointer.\<close>

definition ts_get_raw :: "nat \<Rightarrow> rid \<Rightarrow> (text_store, byte list) kvm" where
  "ts_get_raw n key = bindE (ts_get_pos key) (\<lambda>pos s.
     if pos + n \<le> STORE_SIZE then (Inr (rd_bytes (ts_store s) pos n), s)
     else (Inl (Undefined OverRead), s))"

definition ts_replace :: "rid \<Rightarrow> byte list \<Rightarrow> (text_store, unit) kvm" where
  "ts_replace key value =
     bindE (kvdb_check (unat key < TEXT_MAX_ELE_NUM) KeyOutOfRange) (\<lambda>_. ts_write key value)"

definition ts_flush_async :: "u64 \<Rightarrow> u64 \<Rightarrow> text_store \<Rightarrow> (u64 \<times> u64) option" where
  "ts_flush_async offsets_base store_base s =
     (let store_used = ts_cur_offset s in
      if store_used = 0 then None
      else let aligned_start = PAGE_ALIGN_DOWN offsets_base;
               aligned_end = PAGE_ALIGN_UP (store_base + store_used)
           in Some (aligned_start, aligned_end - aligned_start))"

section \<open>The operator\<close>

record file_map =
  fm_mappable :: "rid \<Rightarrow> bool"
  fm_opened :: "rid \<Rightarrow> bool"
  fm_int :: "rid \<Rightarrow> i32 fstore option"
  fm_float :: "rid \<Rightarrow> u32 fstore option"
  fm_time :: "rid \<Rightarrow> i64 fstore option"
  fm_text :: "rid \<Rightarrow> text_store option"

definition init_store :: "'st \<Rightarrow> rid \<Rightarrow> (rid \<Rightarrow> 'st option) \<Rightarrow> (rid \<Rightarrow> 'st option)" where
  "init_store fresh p files =
     (case files p of None \<Rightarrow> files(p \<mapsto> fresh) | Some _ \<Rightarrow> files)"

definition init_partition :: "rid \<Rightarrow> (file_map, unit) kvm" where
  "init_partition p = (\<lambda>s.
     if p = RID_LOCAL_PARTITION then (Inl (Fatal LocalPartition), s)
     else if fm_opened s p then (Inr (), s)
     else if \<not> fm_mappable s p then (Inl (Fatal SegmentNotFound), s)
     else (Inr (), s\<lparr>fm_opened := (fm_opened s)(p := True),
                     fm_int := init_store (fs_fresh 0) p (fm_int s),
                     fm_float := init_store (fs_fresh 0) p (fm_float s),
                     fm_time := init_store (fs_fresh 0) p (fm_time s),
                     fm_text := init_store ts_fresh p (fm_text s)\<rparr>))"

text \<open>\<^verbatim>\<open>stores[partition]->op(\<dots>)\<close>, for the store map selected by \<open>sel\<close>.\<close>

definition on_store ::
  "(file_map \<Rightarrow> rid \<Rightarrow> 'st option) \<Rightarrow> (((rid \<Rightarrow> 'st option) \<Rightarrow> rid \<Rightarrow> 'st option) \<Rightarrow> file_map \<Rightarrow> file_map)
    \<Rightarrow> rid \<Rightarrow> ('st, 'a) kvm \<Rightarrow> (file_map, 'a) kvm" where
  "on_store sel upd p m = (\<lambda>s.
     case sel s p of
       None \<Rightarrow> (Inl (Fatal SegmentNotFound), s)
     | Some st \<Rightarrow> (case m st of (r, st') \<Rightarrow> (r, upd (\<lambda>f. f(p \<mapsto> st')) s)))"

definition part_put ::
  "(file_map \<Rightarrow> rid \<Rightarrow> 'st option) \<Rightarrow> (((rid \<Rightarrow> 'st option) \<Rightarrow> rid \<Rightarrow> 'st option) \<Rightarrow> file_map \<Rightarrow> file_map)
    \<Rightarrow> ('st, rid) kvm \<Rightarrow> rid \<Rightarrow> (file_map, rid) kvm" where
  "part_put sel upd put p =
     bindE (init_partition p) (\<lambda>_.
     bindE (on_store sel upd p put) (\<lambda>key.
     bindE (kvdb_check (key \<le> RID_MASK) RidOutOfRange) (\<lambda>_.
     ret (make_partitioned_rid p key))))"

definition part_get ::
  "(file_map \<Rightarrow> rid \<Rightarrow> 'st option) \<Rightarrow> (((rid \<Rightarrow> 'st option) \<Rightarrow> rid \<Rightarrow> 'st option) \<Rightarrow> file_map \<Rightarrow> file_map)
    \<Rightarrow> (rid \<Rightarrow> ('st, 'a) kvm) \<Rightarrow> rid \<Rightarrow> (file_map, 'a) kvm" where
  "part_get sel upd get key =
     bindE (init_partition (rid_partition key)) (\<lambda>_.
     on_store sel upd (rid_partition key) (get (rid_index key)))"

definition part_replace ::
  "(file_map \<Rightarrow> rid \<Rightarrow> 'st option) \<Rightarrow> (((rid \<Rightarrow> 'st option) \<Rightarrow> rid \<Rightarrow> 'st option) \<Rightarrow> file_map \<Rightarrow> file_map)
    \<Rightarrow> (rid \<Rightarrow> ('st, unit) kvm) \<Rightarrow> rid \<Rightarrow> (file_map, rid) kvm" where
  "part_replace sel upd replace key =
     bindE (init_partition (rid_partition key)) (\<lambda>_.
     bindE (on_store sel upd (rid_partition key) (replace (rid_index key))) (\<lambda>_.
     ret key))"

definition fm_putInt :: "i32 \<Rightarrow> rid \<Rightarrow> (file_map, rid) kvm" where
  "fm_putInt value p = part_put fm_int fm_int_update (fs_put 4 value) p"

definition fm_getInt :: "rid \<Rightarrow> (file_map, i32) kvm" where
  "fm_getInt key = part_get fm_int fm_int_update (fs_get 4) key"

definition fm_replaceInt :: "rid \<Rightarrow> i32 \<Rightarrow> (file_map, rid) kvm" where
  "fm_replaceInt key value = part_replace fm_int fm_int_update (\<lambda>i. fs_replace 4 i value) key"

definition fm_putFloat :: "u32 \<Rightarrow> rid \<Rightarrow> (file_map, rid) kvm" where
  "fm_putFloat value p = part_put fm_float fm_float_update (fs_put 4 value) p"

definition fm_getFloat :: "rid \<Rightarrow> (file_map, u32) kvm" where
  "fm_getFloat key = part_get fm_float fm_float_update (fs_get 4) key"

definition fm_replaceFloat :: "rid \<Rightarrow> u32 \<Rightarrow> (file_map, rid) kvm" where
  "fm_replaceFloat key value = part_replace fm_float fm_float_update (\<lambda>i. fs_replace 4 i value) key"

definition fm_putTimestamp :: "i64 \<Rightarrow> rid \<Rightarrow> (file_map, rid) kvm" where
  "fm_putTimestamp value p = part_put fm_time fm_time_update (fs_put 8 value) p"

definition fm_getTimestamp :: "rid \<Rightarrow> (file_map, i64) kvm" where
  "fm_getTimestamp key = part_get fm_time fm_time_update (fs_get 8) key"

definition fm_replaceTimestamp :: "rid \<Rightarrow> i64 \<Rightarrow> (file_map, rid) kvm" where
  "fm_replaceTimestamp key value = part_replace fm_time fm_time_update (\<lambda>i. fs_replace 8 i value) key"

definition fm_putString :: "byte list \<Rightarrow> rid \<Rightarrow> (file_map, rid) kvm" where
  "fm_putString value p = part_put fm_text fm_text_update (ts_put value) p"

definition fm_getString :: "rid \<Rightarrow> (file_map, byte list) kvm" where
  "fm_getString key = part_get fm_text fm_text_update ts_get key"

definition fm_getString_raw :: "nat \<Rightarrow> rid \<Rightarrow> (file_map, byte list) kvm" where
  "fm_getString_raw n key = part_get fm_text fm_text_update (ts_get_raw n) key"

definition fm_replaceString :: "rid \<Rightarrow> byte list \<Rightarrow> (file_map, rid) kvm" where
  "fm_replaceString key value = part_replace fm_text fm_text_update (\<lambda>i. ts_replace i value) key"

section \<open>The contract of one partition's store\<close>

text \<open>
  \<open>val s\<close> maps the allocated indices to their values; \<open>stored\<close> is what a store keeps of the
  value it is given; \<open>room\<close> and \<open>fits\<close> say that a put and a replace find space.
\<close>

locale append_store =
  fixes put :: "'v \<Rightarrow> ('st, rid) kvm"
    and get :: "rid \<Rightarrow> ('st, 'v) kvm"
    and replace :: "rid \<Rightarrow> 'v \<Rightarrow> ('st, unit) kvm"
    and val :: "'st \<Rightarrow> rid \<Rightarrow> 'v option"
    and stored :: "'v \<Rightarrow> 'v"
    and invar :: "'st \<Rightarrow> bool"
    and room :: "'v \<Rightarrow> 'st \<Rightarrow> bool"
    and fits :: "'v \<Rightarrow> 'st \<Rightarrow> bool"
  assumes put_spec: "invar st \<Longrightarrow> room v st \<Longrightarrow>
      \<exists>key st'. put v st = (Inr key, st') \<and> val st key = None \<and> key \<le> RID_MASK
        \<and> val st' = (val st)(key \<mapsto> stored v) \<and> invar st'"
    and get_spec: "invar st \<Longrightarrow> val st key = Some v \<Longrightarrow> get key st = (Inr v, st)"
    and replace_spec: "invar st \<Longrightarrow> fits v st \<Longrightarrow> val st key = Some w \<Longrightarrow>
      \<exists>st'. replace key v st = (Inr (), st') \<and> val st' = (val st)(key \<mapsto> stored v) \<and> invar st'"

lemma idx_ok_mask: "key \<le> RID_MASK \<longleftrightarrow> idx_ok key"
proof -
  have "unat RID_MASK = 2 ^ 48 - 1"
    by (simp add: RID_MASK_eq mask_numeral)
  then show ?thesis
    by (auto simp: idx_ok_unat word_le_nat_alt)
qed

subsection \<open>Scalar stores\<close>

definition fs_val :: "'v fstore \<Rightarrow> rid \<Rightarrow> 'v option" where
  "fs_val s key = (if key < fs_cur_rid s then Some (fs_store s (unat key)) else None)"

definition fs_invar :: "nat \<Rightarrow> 'v fstore \<Rightarrow> bool" where
  "fs_invar sz s \<longleftrightarrow> unat (fs_cur_rid s) \<le> MAX_ARRAY_ELE_NUM sz"

definition fs_room :: "nat \<Rightarrow> 'v \<Rightarrow> 'v fstore \<Rightarrow> bool" where
  "fs_room sz v s \<longleftrightarrow> unat (fs_cur_rid s) < MAX_ARRAY_ELE_NUM sz"

lemma MAX_ARRAY_ELE_NUM_le: "0 < sz \<Longrightarrow> MAX_ARRAY_ELE_NUM sz < 2 ^ 40"
  by (simp add: MAX_ARRAY_ELE_NUM_def KV_MMAP_SIZE_def PAGE_SIZE_def div_less_dividend
      le_less_trans [OF div_le_dividend])

lemma unat_succ: "unat (k :: u64) < 2 ^ 40 \<Longrightarrow> unat (k + 1) = unat k + 1"
  by (subst unat_plus_if') simp

lemma less_succ_iff: "unat (k :: u64) < 2 ^ 40 \<Longrightarrow> j < k + 1 \<longleftrightarrow> j < k \<or> j = k"
  using unat_succ [of k] word_unat_eq_iff [of j k] by (auto simp: word_less_nat_alt)

lemma fs_put_ok:
  assumes "0 < sz" "fs_room sz v s"
  defines "s' \<equiv> s\<lparr>fs_cur_rid := fs_cur_rid s + 1,
      fs_store := (fs_store s)(unat (fs_cur_rid s) := v)\<rparr>"
  shows "fs_put sz v s = (Inr (fs_cur_rid s), s')"
    and "fs_val s' = (fs_val s)(fs_cur_rid s \<mapsto> v)"
    and "fs_invar sz s'" and "fs_cur_rid s \<le> RID_MASK"
proof -
  from assms(2) have lt: "unat (fs_cur_rid s) < MAX_ARRAY_ELE_NUM sz"
    by (simp add: fs_room_def)
  with MAX_ARRAY_ELE_NUM_le [OF assms(1)] have lt40: "unat (fs_cur_rid s) < 2 ^ 40"
    by linarith
  show "fs_put sz v s = (Inr (fs_cur_rid s), s')"
    using lt by (simp add: fs_put_def s'_def Let_def)
  show "fs_val s' = (fs_val s)(fs_cur_rid s \<mapsto> v)"
  proof (rule ext)
    fix k
    show "fs_val s' k = ((fs_val s)(fs_cur_rid s \<mapsto> v)) k"
      using less_succ_iff [OF lt40, of k] word_unat_eq_iff [of k "fs_cur_rid s"]
      by (auto simp: fs_val_def s'_def)
  qed
  show "fs_invar sz s'"
    using unat_succ [OF lt40] lt by (simp add: fs_invar_def s'_def)
  show "fs_cur_rid s \<le> RID_MASK"
    using lt40 unfolding idx_ok_mask idx_ok_unat by simp
qed

lemma fs_put_full:
  "\<not> fs_room sz v s \<Longrightarrow> fs_put sz v s = (Inl (Fatal KeyOutOfRange), s\<lparr>fs_cur_rid := fs_cur_rid s + 1\<rparr>)"
  by (simp add: fs_put_def fs_room_def Let_def)

lemma fs_get_ok: "fs_invar sz s \<Longrightarrow> fs_val s key = Some v \<Longrightarrow> fs_get sz key s = (Inr v, s)"
  by (auto simp: fs_val_def fs_get_def fs_invar_def word_less_nat_alt split: if_splits)

lemma fs_replace_ok:
  assumes "fs_invar sz s" "fs_val s key = Some w"
  shows "\<exists>s'. fs_replace sz key v s = (Inr (), s') \<and> fs_val s' = (fs_val s)(key \<mapsto> v) \<and> fs_invar sz s'"
proof -
  from assms have lt: "key < fs_cur_rid s" and "unat key < MAX_ARRAY_ELE_NUM sz"
    by (auto simp: fs_val_def fs_invar_def word_less_nat_alt split: if_splits)
  then have "fs_replace sz key v s = (Inr (), s\<lparr>fs_store := (fs_store s)(unat key := v)\<rparr>)"
    by (simp add: fs_replace_def)
  moreover have "fs_val (s\<lparr>fs_store := (fs_store s)(unat key := v)\<rparr>) = (fs_val s)(key \<mapsto> v)"
    using lt by (auto simp: fs_val_def fun_eq_iff word_unat_eq_iff word_less_nat_alt)
  ultimately show ?thesis
    using assms(1) by (auto simp: fs_invar_def)
qed

lemma fs_append_store:
  assumes "0 < sz"
  shows "append_store (fs_put sz) (fs_get sz) (fs_replace sz) fs_val (\<lambda>v. v)
    (fs_invar sz) (fs_room sz) (\<lambda>_ _. True)"
proof
  fix st :: "'v fstore" and v
  assume "fs_room sz v st"
  from fs_put_ok [OF assms this] show "\<exists>key st'. fs_put sz v st = (Inr key, st') \<and> fs_val st key = None
      \<and> key \<le> RID_MASK \<and> fs_val st' = (fs_val st)(key \<mapsto> v) \<and> fs_invar sz st'"
    by (auto simp: fs_val_def)
qed (auto simp: fs_get_ok fs_replace_ok)

interpretation fs4: append_store "fs_put 4" "fs_get 4" "fs_replace 4" fs_val "\<lambda>v. v"
    "fs_invar 4" "fs_room 4" "\<lambda>_ _. True"
  by (rule fs_append_store) simp

interpretation fs8: append_store "fs_put 8" "fs_get 8" "fs_replace 8" fs_val "\<lambda>v. v"
    "fs_invar 8" "fs_room 8" "\<lambda>_ _. True"
  by (rule fs_append_store) simp

subsection \<open>The text store\<close>

definition ts_val :: "text_store \<Rightarrow> rid \<Rightarrow> byte list option" where
  "ts_val s key =
     (if key < ts_cur_rid s
      then read_cstr (ts_store s) (unat (ts_offsets s (unat key))) STORE_SIZE else None)"

text \<open>Every allocated key points at a string that ends below the append position.\<close>

definition ts_wf_at :: "text_store \<Rightarrow> rid \<Rightarrow> bool" where
  "ts_wf_at s key \<longleftrightarrow>
     (case read_cstr (ts_store s) (unat (ts_offsets s (unat key))) STORE_SIZE of
        None \<Rightarrow> False
      | Some str \<Rightarrow> unat (ts_offsets s (unat key)) + length str < unat (ts_cur_offset s))"

definition ts_invar :: "text_store \<Rightarrow> bool" where
  "ts_invar s \<longleftrightarrow>
     unat (ts_cur_rid s) \<le> TEXT_MAX_ELE_NUM \<and> unat (ts_cur_offset s) \<le> STORE_SIZE \<and>
     (\<forall>key < ts_cur_rid s. ts_wf_at s key)"

definition ts_fits :: "byte list \<Rightarrow> text_store \<Rightarrow> bool" where
  "ts_fits v s \<longleftrightarrow> unat (ts_cur_offset s) + length (cstr v) + 1 \<le> STORE_SIZE"

definition ts_room :: "byte list \<Rightarrow> text_store \<Rightarrow> bool" where
  "ts_room v s \<longleftrightarrow> unat (ts_cur_rid s) < TEXT_MAX_ELE_NUM \<and> ts_fits v s"

lemma STORE_SIZE_lt: "STORE_SIZE < 2 ^ 40"
  by (simp add: STORE_SIZE_def KV_MMAP_SIZE_def PAGE_SIZE_def OFFSET_ARRAY_BYTES_def
      TEXT_MAX_ELE_NUM_def)

lemma TEXT_MAX_lt: "TEXT_MAX_ELE_NUM < 2 ^ 40"
  by (simp add: TEXT_MAX_ELE_NUM_def)

lemma unat_offset_add:
  assumes "unat (a :: u64) + n \<le> STORE_SIZE"
  shows "unat (a + of_nat n) = unat a + n"
proof -
  have "unat (of_nat n :: u64) = n"
    using assms STORE_SIZE_lt by (simp add: unsigned_of_nat take_bit_nat_eq_self)
  then show ?thesis
    using assms STORE_SIZE_lt by (subst unat_plus_if') simp
qed

lemma ts_write_ok:
  assumes "ts_fits v s"
  shows "ts_write key v s = (Inr (), s\<lparr>ts_cur_offset := ts_cur_offset s + of_nat (length (cstr v) + 1),
      ts_offsets := (ts_offsets s)(unat key := ts_cur_offset s),
      ts_store := wr_bytes (ts_store s) (unat (ts_cur_offset s)) (cstr v @ [0])\<rparr>)"
proof -
  let ?n = "length (cstr v) + 1"
  from assms have le: "unat (ts_cur_offset s) + ?n \<le> STORE_SIZE"
    by (simp add: ts_fits_def)
  have "unat (of_nat STORE_SIZE :: u64) = STORE_SIZE"
    using STORE_SIZE_lt by (simp add: unsigned_of_nat take_bit_nat_eq_self)
  with unat_offset_add [OF le] le have "ts_cur_offset s + of_nat ?n \<le> of_nat STORE_SIZE"
    by (simp only: word_le_nat_alt)
  with le show ?thesis
    by (simp add: ts_write_def Let_def)
qed

lemma read_written:
  assumes "is_text str" "pos + length str < limit"
  shows "read_cstr (wr_bytes m pos (str @ [0])) pos limit = Some str"
proof (rule read_cstr_stored [OF assms])
  show "rd_bytes (wr_bytes m pos (str @ [0])) pos (length str) = str"
    by (rule nth_equalityI) (auto simp: rd_bytes_def wr_bytes_def nth_append)
qed (simp add: wr_bytes_def)

lemma read_below_write:
  assumes "read_cstr m pos limit = Some str" "pos + length str < a"
  shows "read_cstr (wr_bytes m a bs) pos limit = Some str"
  using assms(1) by (rule read_cstr_cong) (use assms(2) in \<open>auto simp: wr_bytes_def\<close>)

text \<open>What a write does to the string at any key.\<close>

lemma ts_write_read:
  assumes "ts_fits v s" "ts_write key v s = (r, s')" "unat (ts_cur_offset s) \<le> STORE_SIZE"
  shows "read_cstr (ts_store s') (unat (ts_offsets s' (unat key))) STORE_SIZE = Some (cstr v)"
    and "ts_wf_at s' key"
    and "k \<noteq> key \<Longrightarrow> ts_wf_at s k \<Longrightarrow>
      read_cstr (ts_store s') (unat (ts_offsets s' (unat k))) STORE_SIZE =
      read_cstr (ts_store s) (unat (ts_offsets s (unat k))) STORE_SIZE \<and> ts_wf_at s' k"
proof -
  let ?n = "length (cstr v) + 1"
  from assms(1) have le: "unat (ts_cur_offset s) + ?n \<le> STORE_SIZE"
    by (simp add: ts_fits_def)
  note off = unat_offset_add [OF le]
  have s': "s' = s\<lparr>ts_cur_offset := ts_cur_offset s + of_nat ?n,
      ts_offsets := (ts_offsets s)(unat key := ts_cur_offset s),
      ts_store := wr_bytes (ts_store s) (unat (ts_cur_offset s)) (cstr v @ [0])\<rparr>"
    using assms(2) ts_write_ok [OF assms(1), of key] by simp
  show rd: "read_cstr (ts_store s') (unat (ts_offsets s' (unat key))) STORE_SIZE = Some (cstr v)"
    using le by (simp add: s' read_written)
  then show "ts_wf_at s' key"
    using off by (simp add: ts_wf_at_def s')
  assume ne: "k \<noteq> key" and wf: "ts_wf_at s k"
  then obtain str where str: "read_cstr (ts_store s) (unat (ts_offsets s (unat k))) STORE_SIZE = Some str"
    and below: "unat (ts_offsets s (unat k)) + length str < unat (ts_cur_offset s)"
    by (auto simp: ts_wf_at_def split: option.splits)
  from ne have une: "unat k \<noteq> unat key"
    by (simp add: word_unat_eq_iff)
  have "read_cstr (ts_store s') (unat (ts_offsets s' (unat k))) STORE_SIZE = Some str"
    using read_below_write [OF str below] une by (simp add: s')
  with str below off une show "read_cstr (ts_store s') (unat (ts_offsets s' (unat k))) STORE_SIZE =
      read_cstr (ts_store s) (unat (ts_offsets s (unat k))) STORE_SIZE \<and> ts_wf_at s' k"
    by (simp add: ts_wf_at_def s')
qed

text \<open>
  A write at \<open>key\<close> in a state whose allocated keys other than \<open>key\<close> are well formed: the view
  afterwards, over the keys below any bound \<open>n\<close> on the allocated ones.
\<close>

lemma ts_write_view:
  assumes fits: "ts_fits v s" and le: "unat (ts_cur_offset s) \<le> STORE_SIZE"
    and keys: "unat (ts_cur_rid s) \<le> TEXT_MAX_ELE_NUM" "key < ts_cur_rid s"
    and wf: "\<And>k. k < ts_cur_rid s \<Longrightarrow> k \<noteq> key \<Longrightarrow> ts_wf_at s k"
  shows "\<exists>s'. ts_write key v s = (Inr (), s') \<and> ts_val s' = (ts_val s)(key \<mapsto> cstr v) \<and> ts_invar s'"
proof -
  obtain s' where w: "ts_write key v s = (Inr (), s')" and cur: "ts_cur_rid s' = ts_cur_rid s"
    and off: "ts_cur_offset s' = ts_cur_offset s + of_nat (length (cstr v) + 1)"
    using ts_write_ok [OF fits, of key] by simp
  note rd = ts_write_read [OF fits w le]
  have "ts_val s' k = ((ts_val s)(key \<mapsto> cstr v)) k" for k
    using rd(1) rd(3) [of k] wf [of k] keys(2) by (auto simp: ts_val_def cur)
  moreover have "ts_wf_at s' k" if "k < ts_cur_rid s'" for k
    using rd(2) rd(3) [of k] wf [of k] that by (auto simp: cur)
  moreover have "unat (ts_cur_offset s') \<le> STORE_SIZE"
    using unat_offset_add [of "ts_cur_offset s" "length (cstr v) + 1"] fits
    by (simp add: off ts_fits_def)
  ultimately show ?thesis
    using w keys by (auto simp: ts_invar_def cur)
qed

lemma ts_wf_at_cur_rid [simp]: "ts_wf_at (s\<lparr>ts_cur_rid := x\<rparr>) k = ts_wf_at s k"
  by (simp add: ts_wf_at_def split: option.splits)

lemma ts_put_ok:
  assumes inv: "ts_invar s" and room: "ts_room v s"
  shows "\<exists>s'. ts_put v s = (Inr (ts_cur_rid s), s') \<and> ts_val s' = (ts_val s)(ts_cur_rid s \<mapsto> cstr v)
    \<and> ts_invar s'"
proof -
  let ?key = "ts_cur_rid s" and ?s1 = "s\<lparr>ts_cur_rid := ts_cur_rid s + 1\<rparr>"
  from room have lt: "unat ?key < TEXT_MAX_ELE_NUM" and fits: "ts_fits v ?s1"
    by (simp_all add: ts_room_def ts_fits_def)
  then have lt40: "unat ?key < 2 ^ 40"
    using TEXT_MAX_lt by linarith
  have "\<exists>s'. ts_write ?key v ?s1 = (Inr (), s') \<and> ts_val s' = (ts_val ?s1)(?key \<mapsto> cstr v) \<and> ts_invar s'"
  proof (rule ts_write_view [OF fits])
    show "unat (ts_cur_offset ?s1) \<le> STORE_SIZE"
      using inv by (simp add: ts_invar_def)
    show "unat (ts_cur_rid ?s1) \<le> TEXT_MAX_ELE_NUM" "?key < ts_cur_rid ?s1"
      using lt unat_succ [OF lt40] by (auto simp: word_less_nat_alt)
    show "ts_wf_at ?s1 k" if "k < ts_cur_rid ?s1" "k \<noteq> ?key" for k
      using inv that less_succ_iff [OF lt40, of k] by (auto simp: ts_invar_def)
  qed
  moreover have "(ts_val ?s1)(?key \<mapsto> cstr v) = (ts_val s)(?key \<mapsto> cstr v)"
    using less_succ_iff [OF lt40] by (auto simp: ts_val_def fun_eq_iff)
  ultimately show ?thesis
    using lt by (auto simp: ts_put_def Let_def)
qed

lemma ts_replace_ok:
  assumes inv: "ts_invar s" and "ts_fits v s" and "ts_val s key = Some w"
  shows "\<exists>s'. ts_replace key v s = (Inr (), s') \<and> ts_val s' = (ts_val s)(key \<mapsto> cstr v) \<and> ts_invar s'"
proof -
  from assms have lt: "key < ts_cur_rid s" and "unat key < TEXT_MAX_ELE_NUM"
    by (auto simp: ts_val_def ts_invar_def word_less_nat_alt split: if_splits)
  then have "ts_replace key v s = ts_write key v s"
    by (simp add: ts_replace_def)
  with ts_write_view [OF assms(2) _ _ lt] inv show ?thesis
    by (auto simp: ts_invar_def)
qed

lemma ts_get_ok:
  assumes "ts_invar s" "ts_val s key = Some v"
  shows "ts_get key s = (Inr v, s)"
proof -
  from assms have "unat key < TEXT_MAX_ELE_NUM"
    and "read_cstr (ts_store s) (unat (ts_offsets s (unat key))) STORE_SIZE = Some v"
    by (auto simp: ts_val_def ts_invar_def word_less_nat_alt split: if_splits)
  then show ?thesis
    by (simp add: ts_get_def ts_get_pos_def bindE_def)
qed

interpretation ts: append_store ts_put ts_get ts_replace ts_val cstr ts_invar ts_room ts_fits
proof
  fix st v
  assume "ts_invar st" "ts_room v st"
  moreover from this have "ts_cur_rid st \<le> RID_MASK"
    using TEXT_MAX_lt unfolding idx_ok_mask idx_ok_unat by (simp add: ts_room_def)
  moreover have "ts_val st (ts_cur_rid st) = None"
    by (simp add: ts_val_def)
  ultimately show "\<exists>key st'. ts_put v st = (Inr key, st') \<and> ts_val st key = None \<and> key \<le> RID_MASK
      \<and> ts_val st' = (ts_val st)(key \<mapsto> cstr v) \<and> ts_invar st'"
    using ts_put_ok by blast
qed (auto simp: ts_get_ok ts_replace_ok)

section \<open>From one partition to field identifiers\<close>

text \<open>
  The abstract mapping: for every partition and type one store, with a store of zeros where no
  file exists yet, and the partitions that can be used. Opening a partition does not change it;
  the operations of \<open>file_map\<close> refine operations on its stores.
\<close>

record mapping =
  ab_int :: "rid \<Rightarrow> i32 fstore"
  ab_float :: "rid \<Rightarrow> u32 fstore"
  ab_time :: "rid \<Rightarrow> i64 fstore"
  ab_text :: "rid \<Rightarrow> text_store"
  ab_usable :: "rid \<Rightarrow> bool"

definition store_of :: "'st \<Rightarrow> (rid \<Rightarrow> 'st option) \<Rightarrow> rid \<Rightarrow> 'st" where
  "store_of fresh files p = (case files p of None \<Rightarrow> fresh | Some st \<Rightarrow> st)"

definition fm_abs :: "file_map \<Rightarrow> mapping" where
  "fm_abs s = \<lparr>ab_int = store_of (fs_fresh 0) (fm_int s), ab_float = store_of (fs_fresh 0) (fm_float s),
     ab_time = store_of (fs_fresh 0) (fm_time s), ab_text = store_of ts_fresh (fm_text s),
     ab_usable = (\<lambda>p. p \<noteq> RID_LOCAL_PARTITION \<and> (fm_opened s p \<or> fm_mappable s p))\<rparr>"

text \<open>Every opened partition has its four files.\<close>

definition fm_ok :: "file_map \<Rightarrow> bool" where
  "fm_ok s \<longleftrightarrow> (\<forall>p. fm_opened s p \<longrightarrow>
     fm_int s p \<noteq> None \<and> fm_float s p \<noteq> None \<and> fm_time s p \<noteq> None \<and> fm_text s p \<noteq> None)"

lemma store_of_init [simp]: "store_of fresh (init_store fresh p files) = store_of fresh files"
  by (auto simp: store_of_def init_store_def fun_eq_iff split: option.splits)

lemma init_store_Some [simp]: "init_store fresh p files p \<noteq> None"
  by (auto simp: init_store_def split: option.splits)

lemma init_store_mono: "files q \<noteq> None \<Longrightarrow> init_store fresh p files q \<noteq> None"
  by (auto simp: init_store_def split: option.splits)

lemma store_of_upd [simp]: "store_of fresh (f(p \<mapsto> st)) = (store_of fresh f)(p := st)"
  by (auto simp: store_of_def fun_eq_iff)

lemma init_partition_ok:
  assumes "fm_ok s" "ab_usable (fm_abs s) p"
  shows "\<exists>s1. init_partition p s = (Inr (), s1) \<and> fm_abs s1 = fm_abs s \<and> fm_ok s1 \<and> fm_opened s1 p"
proof (cases "fm_opened s p")
  case True
  with assms show ?thesis
    by (auto simp: init_partition_def fm_abs_def)
next
  case False
  let ?s1 = "snd (init_partition p s)"
  from False assms have run: "init_partition p s = (Inr (), ?s1)"
    by (auto simp: init_partition_def fm_abs_def)
  have "fm_abs ?s1 = fm_abs s" "fm_opened ?s1 p"
    using False assms by (auto simp: init_partition_def fm_abs_def)
  moreover have "fm_ok ?s1"
    using False assms by (auto simp: init_partition_def fm_ok_def fm_abs_def init_store_def split: option.splits)
  ultimately show ?thesis
    using run by blast
qed

lemma init_partition_local:
  "init_partition RID_LOCAL_PARTITION s = (Inl (Fatal LocalPartition), s)"
  by (simp add: init_partition_def)

text \<open>
  A kind of store inside the operator: its file map, its component of the abstract mapping, and
  the laws that tie the two together.
\<close>

locale store_kind =
  fixes sel :: "file_map \<Rightarrow> rid \<Rightarrow> 'st option"
    and upd :: "((rid \<Rightarrow> 'st option) \<Rightarrow> rid \<Rightarrow> 'st option) \<Rightarrow> file_map \<Rightarrow> file_map"
    and fresh :: 'st
    and asel :: "mapping \<Rightarrow> rid \<Rightarrow> 'st"
    and aupd :: "((rid \<Rightarrow> 'st) \<Rightarrow> rid \<Rightarrow> 'st) \<Rightarrow> mapping \<Rightarrow> mapping"
  assumes asel_abs: "asel (fm_abs s) = store_of fresh (sel s)"
    and abs_upd: "fm_abs (upd (\<lambda>f. f(p \<mapsto> st)) s) = aupd (\<lambda>f. f(p := st)) (fm_abs s)"
    and ok_sel: "fm_ok s \<Longrightarrow> fm_opened s p \<Longrightarrow> sel s p \<noteq> None"
    and ok_upd: "fm_ok s \<Longrightarrow> fm_ok (upd (\<lambda>f. f(p \<mapsto> st)) s)"
    and aupd_id: "aupd (\<lambda>f. f(p := asel a p)) a = a"
begin

lemma on_store_abs:
  assumes "fm_ok s" "fm_opened s p" "m (asel (fm_abs s) p) = (r, st')"
  shows "\<exists>s'. on_store sel upd p m s = (r, s') \<and> fm_abs s' = aupd (\<lambda>f. f(p := st')) (fm_abs s) \<and> fm_ok s'"
proof -
  from ok_sel [OF assms(1,2)] obtain st where st: "sel s p = Some st"
    by blast
  then have "asel (fm_abs s) p = st"
    by (simp add: asel_abs store_of_def)
  with assms(3) st have "on_store sel upd p m s = (r, upd (\<lambda>f. f(p \<mapsto> st')) s)"
    by (simp add: on_store_def)
  with abs_upd ok_upd [OF assms(1)] show ?thesis
    by blast
qed

lemma part_op:
  assumes "fm_ok s" "ab_usable (fm_abs s) p" "m (asel (fm_abs s) p) = (r, st')"
  shows "\<exists>s'. bindE (init_partition p) (\<lambda>_. on_store sel upd p m) s = (r, s') \<and>
    fm_abs s' = aupd (\<lambda>f. f(p := st')) (fm_abs s) \<and> fm_ok s'"
proof -
  from init_partition_ok [OF assms(1,2)] obtain s1 where
    s1: "init_partition p s = (Inr (), s1)" "fm_abs s1 = fm_abs s" "fm_ok s1" "fm_opened s1 p"
    by blast
  from on_store_abs [OF s1(3,4), of m r st'] assms(3) s1(1,2) show ?thesis
    by simp
qed

lemma part_get_abs:
  assumes "fm_ok s" "ab_usable (fm_abs s) (rid_partition key)"
    "get (rid_index key) (asel (fm_abs s) (rid_partition key)) = (r, asel (fm_abs s) (rid_partition key))"
  shows "\<exists>s'. part_get sel upd get key s = (r, s') \<and> fm_abs s' = fm_abs s \<and> fm_ok s'"
  using part_op [where m = "get (rid_index key)", OF assms] by (simp add: part_get_def aupd_id)

lemma part_put_abs:
  assumes "fm_ok s" "ab_usable (fm_abs s) p" "put (asel (fm_abs s) p) = (Inr key, st')" "key \<le> RID_MASK"
  shows "\<exists>s'. part_put sel upd put p s = (Inr (make_partitioned_rid p key), s') \<and>
    fm_abs s' = aupd (\<lambda>f. f(p := st')) (fm_abs s) \<and> fm_ok s'"
proof -
  from part_op [where m = put, OF assms(1-3)] obtain s' where
    "bindE (init_partition p) (\<lambda>_. on_store sel upd p put) s = (Inr key, s')"
    "fm_abs s' = aupd (\<lambda>f. f(p := st')) (fm_abs s)" "fm_ok s'"
    by blast
  with assms(4) show ?thesis
    by (auto simp: part_put_def bindE_eq_Inr)
qed

lemma part_replace_abs:
  assumes "fm_ok s" "ab_usable (fm_abs s) (rid_partition key)"
    "replace (rid_index key) (asel (fm_abs s) (rid_partition key)) = (Inr (), st')"
  shows "\<exists>s'. part_replace sel upd replace key s = (Inr key, s') \<and>
    fm_abs s' = aupd (\<lambda>f. f(rid_partition key := st')) (fm_abs s) \<and> fm_ok s'"
proof -
  from part_op [where m = "replace (rid_index key)", OF assms] obtain s' where
    "bindE (init_partition (rid_partition key)) (\<lambda>_. on_store sel upd (rid_partition key) (replace (rid_index key))) s
      = (Inr (), s')"
    "fm_abs s' = aupd (\<lambda>f. f(rid_partition key := st')) (fm_abs s)" "fm_ok s'"
    by blast
  then show ?thesis
    by (auto simp: part_replace_def bindE_eq_Inr)
qed

end

interpretation int_kind: store_kind fm_int fm_int_update "fs_fresh 0" ab_int ab_int_update
  by unfold_locales (auto simp: fm_abs_def fm_ok_def)

interpretation float_kind: store_kind fm_float fm_float_update "fs_fresh 0" ab_float ab_float_update
  by unfold_locales (auto simp: fm_abs_def fm_ok_def)

interpretation time_kind: store_kind fm_time fm_time_update "fs_fresh 0" ab_time ab_time_update
  by unfold_locales (auto simp: fm_abs_def fm_ok_def)

interpretation text_kind: store_kind fm_text fm_text_update ts_fresh ab_text ab_text_update
  by unfold_locales (auto simp: fm_abs_def fm_ok_def)

section \<open>Properties\<close>

lemma fs_invar_fresh [simp]: "fs_invar sz (fs_fresh z)"
  by (simp add: fs_invar_def fs_fresh_def)

lemma ts_invar_fresh [simp]: "ts_invar ts_fresh"
  by (simp add: ts_fresh_def ts_invar_def)

lemma ts_room_fresh: "ts_room t ts_fresh \<longleftrightarrow> length (cstr t) < STORE_SIZE"
  by (auto simp: ts_fresh_def ts_room_def ts_fits_def TEXT_MAX_ELE_NUM_def)

lemmas text_store_sizes = STORE_SIZE_def KV_MMAP_SIZE_def PAGE_SIZE_def OFFSET_ARRAY_BYTES_def
  TEXT_MAX_ELE_NUM_def

text \<open>
  C19. The variable-length text store: a put hands out an unused key, the string stored under it
  reads back up to its first NUL, a later replace under the same key reads back as the new
  string, and no string stored before is disturbed by either, although all strings share one
  byte array.
\<close>

theorem text_store_put_replace:
  assumes "ts_invar s" "ts_room v s" "ts_put v s = (Inr key, s1)"
    "ts_fits w s1" "ts_replace key w s1 = (r, s2)"
  shows "r = Inr () \<and> ts_val s key = None \<and> ts_get key s1 = (Inr (cstr v), s1)
    \<and> ts_get key s2 = (Inr (cstr w), s2) \<and> (\<forall>j t. ts_val s j = Some t \<longrightarrow> ts_get j s2 = (Inr t, s2))"
proof -
  from ts.put_spec [OF assms(1,2)] assms(3) have
    p: "ts_val s key = None" "ts_val s1 = (ts_val s)(key \<mapsto> cstr v)" "ts_invar s1"
    by auto
  from ts.replace_spec [OF p(3) assms(4), of key "cstr v"] assms(5) p(2) have
    q: "r = Inr ()" "ts_val s2 = (ts_val s1)(key \<mapsto> cstr w)" "ts_invar s2"
    by auto
  have "ts_get j s2 = (Inr t, s2)" if "ts_val s j = Some t" for j t
    using that p q by (intro ts.get_spec) auto
  with p q show ?thesis
    by (auto intro!: ts.get_spec)
qed

definition ts_sample :: text_store where
  "ts_sample = snd (ts_put [97, 98] ts_fresh)"

theorem text_store_put_replace_witness:
  "ts_get 0 ts_sample = (Inr [97, 98], ts_sample)
    \<and> ts_get 0 (snd (ts_replace 0 [120, 0, 122] ts_sample))
      = (Inr [120], snd (ts_replace 0 [120, 0, 122] ts_sample))"
proof -
  have "ts_room [97, 98] ts_fresh" "ts_put [97, 98] ts_fresh = (Inr 0, ts_sample)"
    "ts_fits [120, 0, 122] ts_sample"
    by (simp_all add: ts_sample_def ts_fresh_def ts_room_def ts_fits_def ts_put_def ts_write_def cstr_def
        Let_def bindE_def text_store_sizes)
  from text_store_put_replace [OF ts_invar_fresh this surjective_pairing] show ?thesis
    by (simp add: cstr_def)
qed

text \<open>
  A full scalar store refuses a put with an error and leaves every stored value in place;
  the allocation counter in the mapped file has advanced all the same.
\<close>

theorem full_store_aborts:
  assumes "MAX_ARRAY_ELE_NUM sz \<le> unat (fs_cur_rid s)" "unat (fs_cur_rid s) < 2 ^ 64 - 1"
  shows "\<exists>s'. fs_put sz v s = (Inl (Fatal KeyOutOfRange), s') \<and> fs_store s' = fs_store s
    \<and> unat (fs_cur_rid s') = unat (fs_cur_rid s) + 1"
  using assms by (simp add: fs_put_def Let_def unat_plus_if')

theorem full_store_aborts_witness:
  "\<exists>s'. fs_put 4 (9 :: i32) \<lparr>fs_cur_rid = 0x3FFFFFFC00, fs_store = (\<lambda>_. 0)\<rparr>
    = (Inl (Fatal KeyOutOfRange), s')"
  using full_store_aborts [of 4 "\<lparr>fs_cur_rid = 0x3FFFFFFC00, fs_store = (\<lambda>_. 0 :: i32)\<rparr>" 9]
  by (auto simp: MAX_ARRAY_ELE_NUM_def KV_MMAP_SIZE_def PAGE_SIZE_def)

end
