(* ===== verification/Zeno_Kv.thy ===== *)
theory Zeno_Kv
  imports Zeno_Local_Store Zeno_File_Map
begin

text \<open>
  The field store of a worker (\<^verbatim>\<open>src/src/privacy_zone/include/kv.hpp\<close>): temporaries and
  persistent mapping behind one set of functions, the kind of the identifier choosing between
  them. \<open>kv_view\<close> is what the rest of the privacy zone may rely on: for each type a partial
  map from field identifiers to plaintext values. The locale \<open>field_store\<close> states the
  contract of the five functions of one type over that view; it is interpreted for the four
  types.
\<close>

record kv_state =
  kv_local :: local_kv
  kv_fm :: file_map

definition putInt :: "rid \<Rightarrow> i32 \<Rightarrow> bool \<Rightarrow> rid \<Rightarrow> (kv_state, rid) kvm" where
  "putInt key value local p =
     (if local then
        bindE (zoom kv_local kv_local_update (lk_putInt value)) (\<lambda>idx. ret (idx2local idx))
      else if key \<noteq> INVALID_RID then
        zoom kv_fm kv_fm_update (fm_replaceInt key value)
      else
        zoom kv_fm kv_fm_update (fm_putInt value p))"

definition putFloat :: "rid \<Rightarrow> u32 \<Rightarrow> bool \<Rightarrow> rid \<Rightarrow> (kv_state, rid) kvm" where
  "putFloat key value local p =
     (if local then
        bindE (zoom kv_local kv_local_update (lk_putFloat value)) (\<lambda>idx. ret (idx2local idx))
      else if key \<noteq> INVALID_RID then
        zoom kv_fm kv_fm_update (fm_replaceFloat key value)
      else
        zoom kv_fm kv_fm_update (fm_putFloat value p))"

definition putTimestamp :: "rid \<Rightarrow> i64 \<Rightarrow> bool \<Rightarrow> rid \<Rightarrow> (kv_state, rid) kvm" where
  "putTimestamp key value local p =
     (if local then
        bindE (zoom kv_local kv_local_update (lk_putTimestamp value)) (\<lambda>idx. ret (idx2local idx))
      else if key \<noteq> INVALID_RID then
        zoom kv_fm kv_fm_update (fm_replaceTimestamp key value)
      else
        zoom kv_fm kv_fm_update (fm_putTimestamp value p))"

definition putText :: "rid \<Rightarrow> byte list \<Rightarrow> bool \<Rightarrow> rid \<Rightarrow> (kv_state, rid) kvm" where
  "putText key value local p =
     (if local then
        bindE (zoom kv_local kv_local_update (lk_putString value)) (\<lambda>idx. ret (idx2local idx))
      else if key \<noteq> INVALID_RID then
        zoom kv_fm kv_fm_update (fm_replaceString key value)
      else
        zoom kv_fm kv_fm_update (fm_putString value p))"

definition getInt :: "rid \<Rightarrow> (kv_state, i32) kvm" where
  "getInt key =
     (if islocal key then zoom kv_local kv_local_update (lk_getInt (local2idx key))
      else zoom kv_fm kv_fm_update (fm_getInt key))"

definition getFloat :: "rid \<Rightarrow> (kv_state, u32) kvm" where
  "getFloat key =
     (if islocal key then zoom kv_local kv_local_update (lk_getFloat (local2idx key))
      else zoom kv_fm kv_fm_update (fm_getFloat key))"

definition getTimestamp :: "rid \<Rightarrow> (kv_state, i64) kvm" where
  "getTimestamp key =
     (if islocal key then zoom kv_local kv_local_update (lk_getTimestamp (local2idx key))
      else zoom kv_fm kv_fm_update (fm_getTimestamp key))"

definition getText :: "rid \<Rightarrow> (kv_state, byte list) kvm" where
  "getText key =
     (if islocal key then zoom kv_local kv_local_update (lk_getString (local2idx key))
      else zoom kv_fm kv_fm_update (fm_getString key))"

definition freeLocalInt :: "rid \<Rightarrow> (kv_state, unit) kvm" where
  "freeLocalInt key =
     (if islocal key then zoom kv_local kv_local_update (lk_eraseInt (local2idx key)) else ret ())"

definition freeLocalFloat :: "rid \<Rightarrow> (kv_state, unit) kvm" where
  "freeLocalFloat key =
     (if islocal key then zoom kv_local kv_local_update (lk_eraseFloat (local2idx key)) else ret ())"

definition freeLocalTimestamp :: "rid \<Rightarrow> (kv_state, unit) kvm" where
  "freeLocalTimestamp key =
     (if islocal key then zoom kv_local kv_local_update (lk_eraseTimestamp (local2idx key)) else ret ())"

definition freeLocalText :: "rid \<Rightarrow> (kv_state, unit) kvm" where
  "freeLocalText key =
     (if islocal key then zoom kv_local kv_local_update (lk_eraseString (local2idx key)) else ret ())"

section \<open>The view of the fields\<close>

record fields =
  int_of :: "rid \<Rightarrow> i32 option"
  float_of :: "rid \<Rightarrow> u32 option"
  time_of :: "rid \<Rightarrow> i64 option"
  text_of :: "rid \<Rightarrow> byte list option"

definition field_val ::
  "'v local_store \<Rightarrow> ('st \<Rightarrow> rid \<Rightarrow> 'v option) \<Rightarrow> (rid \<Rightarrow> 'st) \<Rightarrow> (rid \<Rightarrow> bool) \<Rightarrow> rid \<Rightarrow> 'v option" where
  "field_val loc val stores ok key =
     (if islocal key then ls_content loc (local2idx key)
      else if ok (rid_partition key) then val (stores (rid_partition key)) (rid_index key)
      else None)"

definition view_of :: "local_kv \<Rightarrow> mapping \<Rightarrow> fields" where
  "view_of loc a =
     \<lparr>int_of = field_val (lk_int loc) fs_val (ab_int a) (ab_usable a),
      float_of = field_val (lk_float loc) fs_val (ab_float a) (ab_usable a),
      time_of = field_val (lk_time loc) fs_val (ab_time a) (ab_usable a),
      text_of = field_val (lk_text loc) ts_val (ab_text a) (ab_usable a)\<rparr>"

definition kv_view :: "kv_state \<Rightarrow> fields" where
  "kv_view s = view_of (kv_local s) (fm_abs (kv_fm s))"

definition mapping_ok :: "mapping \<Rightarrow> bool" where
  "mapping_ok a \<longleftrightarrow> (\<forall>p. fs_invar 4 (ab_int a p) \<and> fs_invar 4 (ab_float a p) \<and>
     fs_invar 8 (ab_time a p) \<and> ts_invar (ab_text a p))"

definition local_ok :: "local_kv \<Rightarrow> bool" where
  "local_ok loc \<longleftrightarrow> ls_invar (lk_int loc) \<and> ls_invar (lk_float loc) \<and> ls_invar (lk_time loc) \<and>
     ls_invar (lk_text loc)"

definition kv_ok :: "kv_state \<Rightarrow> bool" where
  "kv_ok s \<longleftrightarrow> local_ok (kv_local s) \<and> fm_ok (kv_fm s) \<and> mapping_ok (fm_abs (kv_fm s))"

text \<open>Two states that differ at most in the partitions this process has opened.\<close>

definition kv_eqv :: "kv_state \<Rightarrow> kv_state \<Rightarrow> bool" where
  "kv_eqv s s' \<longleftrightarrow> kv_local s' = kv_local s \<and> fm_abs (kv_fm s') = fm_abs (kv_fm s)"

definition kv_usable :: "kv_state \<Rightarrow> rid \<Rightarrow> bool" where
  "kv_usable s p \<longleftrightarrow> p < 2 ^ 16 \<and> ab_usable (fm_abs (kv_fm s)) p"

lemma kv_eqv_refl [simp]: "kv_eqv s s"
  by (simp add: kv_eqv_def)

lemma kv_eqv_trans: "kv_eqv s s' \<Longrightarrow> kv_eqv s' s'' \<Longrightarrow> kv_eqv s s''"
  by (simp add: kv_eqv_def)

lemma kv_eqv_view: "kv_eqv s s' \<Longrightarrow> kv_view s' = kv_view s"
  by (simp add: kv_eqv_def kv_view_def)

lemma kv_eqv_usable: "kv_eqv s s' \<Longrightarrow> kv_usable s' = kv_usable s"
  by (simp add: kv_eqv_def kv_usable_def fun_eq_iff)

lemma ab_usable_not_local: "ab_usable (fm_abs s) p \<Longrightarrow> p \<noteq> RID_LOCAL_PARTITION"
  by (simp add: fm_abs_def)

lemma field_val_local_put:
  assumes "idx_ok i" "ls_content loc' = (ls_content loc)(i \<mapsto> v)"
  shows "field_val loc' val stores ok = (field_val loc val stores ok)(idx2local i \<mapsto> v)"
proof (rule ext)
  fix key
  have "islocal key \<Longrightarrow> local2idx key = i \<longleftrightarrow> key = idx2local i"
    using assms(1) idx2local_local2idx by auto
  then show "field_val loc' val stores ok key = ((field_val loc val stores ok)(idx2local i \<mapsto> v)) key"
    using assms(2) by (auto simp: field_val_def)
qed

lemma field_val_local_erase:
  assumes "islocal key" "ls_content loc' = (ls_content loc)(local2idx key := None)"
  shows "field_val loc' val stores ok = (field_val loc val stores ok)(key := None)"
proof (rule ext)
  fix k
  have "islocal k \<Longrightarrow> local2idx k = local2idx key \<longleftrightarrow> k = key"
    using assms(1) idx2local_local2idx by metis
  then show "field_val loc' val stores ok k = ((field_val loc val stores ok)(key := None)) k"
    using assms by (auto simp: field_val_def)
qed

lemma field_val_part_put:
  assumes "p < 2 ^ 16" "p \<noteq> RID_LOCAL_PARTITION" "ok p" "idx_ok i" "val st' = (val (stores p))(i \<mapsto> v)"
  shows "field_val loc val (stores(p := st')) ok =
    (field_val loc val stores ok)(make_partitioned_rid p i \<mapsto> v)"
proof (rule ext)
  fix key
  have "rid_partition key = p \<and> rid_index key = i \<longleftrightarrow> key = make_partitioned_rid p i"
    using assms(1,4) rid_eq_iff [of key "make_partitioned_rid p i"] by (simp add: rid_partition_make)
  then show "field_val loc val (stores(p := st')) ok key =
      ((field_val loc val stores ok)(make_partitioned_rid p i \<mapsto> v)) key"
    using assms islocal_make [OF assms(1), of i] by (auto simp: field_val_def)
qed

section \<open>The contract of a field type\<close>

locale field_store =
  fixes put :: "rid \<Rightarrow> 'v \<Rightarrow> bool \<Rightarrow> rid \<Rightarrow> (kv_state, rid) kvm"
    and get :: "rid \<Rightarrow> (kv_state, 'v) kvm"
    and free :: "rid \<Rightarrow> (kv_state, unit) kvm"
    and fsel :: "fields \<Rightarrow> rid \<Rightarrow> 'v option"
    and fupd :: "((rid \<Rightarrow> 'v option) \<Rightarrow> rid \<Rightarrow> 'v option) \<Rightarrow> fields \<Rightarrow> fields"
    and stored :: "'v \<Rightarrow> 'v"
    and room :: "kv_state \<Rightarrow> bool"
    and groom :: "'v \<Rightarrow> rid \<Rightarrow> kv_state \<Rightarrow> bool"
    and gfits :: "'v \<Rightarrow> rid \<Rightarrow> kv_state \<Rightarrow> bool"
  assumes get_spec: "kv_ok s \<Longrightarrow> fsel (kv_view s) key = Some v \<Longrightarrow>
      \<exists>s'. get key s = (Inr v, s') \<and> kv_eqv s s' \<and> kv_ok s'"
    and put_local_spec: "kv_ok s \<Longrightarrow> room s \<Longrightarrow>
      \<exists>key s'. put k v True p s = (Inr key, s') \<and> islocal key \<and> fsel (kv_view s) key = None
        \<and> kv_view s' = fupd (\<lambda>m. m(key \<mapsto> stored v)) (kv_view s) \<and> kv_ok s' \<and> kv_fm s' = kv_fm s"
    and put_global_spec: "kv_ok s \<Longrightarrow> kv_usable s p \<Longrightarrow> groom v p s \<Longrightarrow>
      \<exists>key s'. put INVALID_RID v False p s = (Inr key, s') \<and> \<not> islocal key \<and> rid_partition key = p
        \<and> fsel (kv_view s) key = None
        \<and> kv_view s' = fupd (\<lambda>m. m(key \<mapsto> stored v)) (kv_view s) \<and> kv_ok s'
        \<and> kv_local s' = kv_local s \<and> kv_usable s' = kv_usable s"
    and replace_spec: "kv_ok s \<Longrightarrow> \<not> islocal k \<Longrightarrow> gfits v (rid_partition k) s \<Longrightarrow>
      fsel (kv_view s) k = Some w \<Longrightarrow>
      \<exists>s'. put k v False p s = (Inr k, s') \<and> kv_view s' = fupd (\<lambda>m. m(k \<mapsto> stored v)) (kv_view s)
        \<and> kv_ok s' \<and> kv_local s' = kv_local s"
    and free_spec: "kv_ok s \<Longrightarrow>
      \<exists>s'. free key s = (Inr (), s')
        \<and> kv_view s' = (if islocal key then fupd (\<lambda>m. m(key := None)) (kv_view s) else kv_view s)
        \<and> kv_ok s' \<and> kv_fm s' = kv_fm s"
    and fsel_fupd: "fsel (fupd f x) = f (fsel x)"
    and fupd_fupd: "fupd f (fupd g x) = fupd (\<lambda>m. f (g m)) x"
    and fupd_same: "fupd (\<lambda>m. m) x = x"
    and room_eqv: "kv_eqv s s' \<Longrightarrow> room s' = room s"
    and groom_eqv: "kv_eqv s s' \<Longrightarrow> groom v p s' = groom v p s"
begin

text \<open>Read two fields, compute, store a temporary: the shape of every operator of \<^verbatim>\<open>tee.cpp\<close>.\<close>

lemma get2:
  assumes "kv_ok s" "fsel (kv_view s) l = Some a" "fsel (kv_view s) r = Some b"
  shows "\<exists>s'. bindE (get l) (\<lambda>x. bindE (get r) (\<lambda>y. f x y)) s = f a b s' \<and> kv_eqv s s' \<and> kv_ok s'"
proof -
  from get_spec [OF assms(1,2)] obtain s1 where
    s1: "get l s = (Inr a, s1)" "kv_eqv s s1" "kv_ok s1"
    by blast
  with assms(3) have "fsel (kv_view s1) r = Some b"
    by (simp add: kv_eqv_view)
  from get_spec [OF s1(3) this] obtain s2 where
    "get r s1 = (Inr b, s2)" "kv_eqv s1 s2" "kv_ok s2"
    by blast
  with s1 show ?thesis
    by (auto intro: kv_eqv_trans)
qed

lemma calc:
  assumes "kv_ok s" "room s" "fsel (kv_view s) l = Some a" "fsel (kv_view s) r = Some b" "op a b = Inr c"
  shows "\<exists>key s'. bindE (get l) (\<lambda>x. bindE (get r) (\<lambda>y. bindE (lift_sum (op x y))
      (\<lambda>z. put INVALID_RID z True RID_DEFAULT_PARTITION))) s = (Inr key, s')
    \<and> islocal key \<and> fsel (kv_view s) key = None
    \<and> kv_view s' = fupd (\<lambda>m. m(key \<mapsto> stored c)) (kv_view s) \<and> kv_ok s'"
proof -
  from get2 [OF assms(1,3,4), of "\<lambda>x y. bindE (lift_sum (op x y))
      (\<lambda>z. put INVALID_RID z True RID_DEFAULT_PARTITION)"] assms(5)
  obtain s1 where s1: "bindE (get l) (\<lambda>x. bindE (get r) (\<lambda>y. bindE (lift_sum (op x y))
      (\<lambda>z. put INVALID_RID z True RID_DEFAULT_PARTITION))) s
      = put INVALID_RID c True RID_DEFAULT_PARTITION s1" "kv_eqv s s1" "kv_ok s1"
    by auto
  from s1(2) assms(2) have "room s1"
    by (simp add: room_eqv)
  from put_local_spec [OF s1(3) this, of INVALID_RID c RID_DEFAULT_PARTITION] s1 show ?thesis
    by (auto simp: kv_eqv_view)
qed

lemma calc_error:
  assumes "kv_ok s" "fsel (kv_view s) l = Some a" "fsel (kv_view s) r = Some b" "op a b = Inl e"
  shows "\<exists>s'. bindE (get l) (\<lambda>x. bindE (get r) (\<lambda>y. bindE (lift_sum (op x y))
      (\<lambda>z. put INVALID_RID z True RID_DEFAULT_PARTITION))) s = (Inl e, s') \<and> kv_eqv s s'"
  using get2 [OF assms(1-3), of "\<lambda>x y. bindE (lift_sum (op x y))
      (\<lambda>z. put INVALID_RID z True RID_DEFAULT_PARTITION)"] assms(4) by auto

lemma frame_after_put:
  assumes "kv_view s' = fupd (\<lambda>m. m(key \<mapsto> v)) (kv_view s)" "fsel (kv_view s) key = None"
    "fsel (kv_view s) j = Some w"
  shows "fsel (kv_view s') j = Some w"
  using assms by (auto simp: fsel_fupd)

end

section \<open>Every field type meets the contract\<close>

text \<open>
  What a field type is made of: its local store, its kind of partitioned store, and its
  component of the view. The five functions are the same composition for each of them
  (\<open>put_eq\<close>, \<open>get_eq\<close>, \<open>free_eq\<close>), so the contract is proved once.
\<close>

locale field_kind =
  sk: store_kind sel upd fresh asel aupd +
  ap: append_store sput sget srepl sval stored sinvar sroom sfits
  for sel :: "file_map \<Rightarrow> rid \<Rightarrow> 'st option"
    and upd :: "((rid \<Rightarrow> 'st option) \<Rightarrow> rid \<Rightarrow> 'st option) \<Rightarrow> file_map \<Rightarrow> file_map"
    and fresh :: 'st
    and asel :: "mapping \<Rightarrow> rid \<Rightarrow> 'st"
    and aupd :: "((rid \<Rightarrow> 'st) \<Rightarrow> rid \<Rightarrow> 'st) \<Rightarrow> mapping \<Rightarrow> mapping"
    and sput :: "'v \<Rightarrow> ('st, rid) kvm"
    and sget :: "rid \<Rightarrow> ('st, 'v) kvm"
    and srepl :: "rid \<Rightarrow> 'v \<Rightarrow> ('st, unit) kvm"
    and sval :: "'st \<Rightarrow> rid \<Rightarrow> 'v option"
    and stored :: "'v \<Rightarrow> 'v"
    and sinvar :: "'st \<Rightarrow> bool"
    and sroom :: "'v \<Rightarrow> 'st \<Rightarrow> bool"
    and sfits :: "'v \<Rightarrow> 'st \<Rightarrow> bool" +
  fixes lsel :: "local_kv \<Rightarrow> 'v local_store"
    and lupd :: "('v local_store \<Rightarrow> 'v local_store) \<Rightarrow> local_kv \<Rightarrow> local_kv"
    and dflt :: 'v
    and put :: "rid \<Rightarrow> 'v \<Rightarrow> bool \<Rightarrow> rid \<Rightarrow> (kv_state, rid) kvm"
    and get :: "rid \<Rightarrow> (kv_state, 'v) kvm"
    and free :: "rid \<Rightarrow> (kv_state, unit) kvm"
    and fsel :: "fields \<Rightarrow> rid \<Rightarrow> 'v option"
    and fupd :: "((rid \<Rightarrow> 'v option) \<Rightarrow> rid \<Rightarrow> 'v option) \<Rightarrow> fields \<Rightarrow> fields"
    and room :: "kv_state \<Rightarrow> bool"
    and groom :: "'v \<Rightarrow> rid \<Rightarrow> kv_state \<Rightarrow> bool"
    and gfits :: "'v \<Rightarrow> rid \<Rightarrow> kv_state \<Rightarrow> bool"
  assumes put_eq: "put k v tmp p =
      (if tmp then bindE (zoom kv_local kv_local_update (zoom lsel lupd (ls_put (stored v))))
         (\<lambda>idx. ret (idx2local idx))
       else if k \<noteq> INVALID_RID then zoom kv_fm kv_fm_update (part_replace sel upd (\<lambda>i. srepl i v) k)
       else zoom kv_fm kv_fm_update (part_put sel upd (sput v) p))"
    and get_eq: "get k = (if islocal k then zoom kv_local kv_local_update (zoom lsel lupd (ls_get (local2idx k)))
       else zoom kv_fm kv_fm_update (part_get sel upd sget k))"
    and free_eq: "free k = (if islocal k
       then zoom kv_local kv_local_update (zoom lsel lupd (ls_erase dflt (local2idx k))) else ret ())"
    and lupd_same: "lupd (\<lambda>_. lsel loc) loc = loc"
    and view_sel: "fsel (view_of loc a) = field_val (lsel loc) sval (asel a) (ab_usable a)"
    and view_local: "view_of (lupd (\<lambda>_. x) loc) a =
      fupd (\<lambda>_. field_val x sval (asel a) (ab_usable a)) (view_of loc a)"
    and view_map: "view_of loc (aupd h a) =
      fupd (\<lambda>_. field_val (lsel loc) sval (h (asel a)) (ab_usable a)) (view_of loc a)"
    and sel_upd: "fsel (fupd f fs) = f (fsel fs)"
    and upd_upd: "fupd f (fupd g fs) = fupd (\<lambda>m. f (g m)) fs"
    and upd_same: "fupd (\<lambda>m. m) fs = fs"
    and upd_cong: "f (fsel fs) = g (fsel fs) \<Longrightarrow> fupd f fs = fupd g fs"
    and local_ok_sel: "local_ok loc \<Longrightarrow> ls_invar (lsel loc)"
    and local_ok_upd: "local_ok loc \<Longrightarrow> ls_invar x \<Longrightarrow> local_ok (lupd (\<lambda>_. x) loc)"
    and mapping_ok_sel: "mapping_ok a \<Longrightarrow> sinvar (asel a p)"
    and mapping_ok_upd: "mapping_ok a \<Longrightarrow> sinvar st \<Longrightarrow> mapping_ok (aupd (\<lambda>f. f(p := st)) a)"
    and usable_upd: "ab_usable (aupd h a) = ab_usable a"
    and room_eq: "room s \<longleftrightarrow> ls_room (lsel (kv_local s))"
    and groom_eq: "groom v p s \<longleftrightarrow> sroom v (asel (fm_abs (kv_fm s)) p)"
    and gfits_eq: "gfits v p s \<longleftrightarrow> sfits v (asel (fm_abs (kv_fm s)) p)"
begin

lemma get_field:
  assumes ok: "kv_ok s" and val: "fsel (kv_view s) key = Some v"
  shows "\<exists>s'. get key s = (Inr v, s') \<and> kv_eqv s s' \<and> kv_ok s'"
proof (cases "islocal key")
  case True
  with val have "ls_get (local2idx key) (lsel (kv_local s)) = (Inr v, lsel (kv_local s))"
    by (intro ls_get_spec) (simp add: kv_view_def view_sel field_val_def)
  with True ok show ?thesis
    by (simp add: get_eq zoom_def lupd_same)
next
  case False
  let ?a = "fm_abs (kv_fm s)" and ?p = "rid_partition key"
  from False val have us: "ab_usable ?a ?p" and v: "sval (asel ?a ?p) (rid_index key) = Some v"
    by (auto simp: kv_view_def view_sel field_val_def split: if_splits)
  have "sget (rid_index key) (asel ?a ?p) = (Inr v, asel ?a ?p)"
    using ok v mapping_ok_sel by (intro ap.get_spec) (auto simp: kv_ok_def)
  from sk.part_get_abs [OF _ us, of sget, OF _ this] ok obtain fm' where
    "part_get sel upd sget key (kv_fm s) = (Inr v, fm')" "fm_abs fm' = ?a" "fm_ok fm'"
    by (auto simp: kv_ok_def)
  with False ok show ?thesis
    by (simp add: get_eq zoom_def kv_eqv_def kv_ok_def)
qed

lemma put_temporary:
  assumes ok: "kv_ok s" and room: "room s"
  shows "\<exists>key s'. put k v True p s = (Inr key, s') \<and> islocal key \<and> fsel (kv_view s) key = None
    \<and> kv_view s' = fupd (\<lambda>m. m(key \<mapsto> stored v)) (kv_view s) \<and> kv_ok s' \<and> kv_fm s' = kv_fm s"
proof -
  let ?l = "lsel (kv_local s)"
  from ok room have "ls_invar ?l" "ls_room ?l"
    by (simp_all add: kv_ok_def local_ok_sel room_eq)
  from ls_put_spec [OF this, of "stored v"] obtain i loc' where
    put: "ls_put (stored v) ?l = (Inr i, loc')" and none: "ls_content ?l i = None" and i: "idx_ok i" and
    upd: "ls_content loc' = (ls_content ?l)(i \<mapsto> stored v)" and inv: "ls_invar loc'"
    by blast
  let ?s' = "s\<lparr>kv_local := lupd (\<lambda>_. loc') (kv_local s)\<rparr>"
  have "put k v True p s = (Inr (idx2local i), ?s')"
    using put by (simp add: put_eq zoom_def bindE_def)
  moreover have "kv_view ?s' = fupd (\<lambda>m. m(idx2local i \<mapsto> stored v)) (kv_view s)"
    unfolding kv_view_def using field_val_local_put [OF i upd]
    by (simp add: view_local) (rule upd_cong, simp add: view_sel)
  moreover have "kv_ok ?s'"
    using ok inv by (simp add: kv_ok_def local_ok_upd)
  ultimately show ?thesis
    using none i by (auto simp: kv_view_def view_sel field_val_def)
qed

text \<open>What a changed store of one partition does to the state of the worker.\<close>

lemma partition_update:
  assumes ok: "kv_ok s" and p: "p < 2 ^ 16" "ab_usable (fm_abs (kv_fm s)) p" and i: "idx_ok i"
    and upd: "sval st' = (sval (asel (fm_abs (kv_fm s)) p))(i \<mapsto> v)" and inv: "sinvar st'"
    and fm': "fm_abs fm' = aupd (\<lambda>f. f(p := st')) (fm_abs (kv_fm s))" "fm_ok fm'"
  shows "kv_view (s\<lparr>kv_fm := fm'\<rparr>) = fupd (\<lambda>m. m(make_partitioned_rid p i \<mapsto> v)) (kv_view s)"
    and "kv_ok (s\<lparr>kv_fm := fm'\<rparr>)" and "kv_usable (s\<lparr>kv_fm := fm'\<rparr>) = kv_usable s"
proof -
  let ?a = "fm_abs (kv_fm s)"
  show "kv_view (s\<lparr>kv_fm := fm'\<rparr>) = fupd (\<lambda>m. m(make_partitioned_rid p i \<mapsto> v)) (kv_view s)"
    unfolding kv_view_def using field_val_part_put [where stores = "asel ?a" and ok = "ab_usable ?a",
        OF p(1) ab_usable_not_local [OF p(2)] p(2) i upd]
    by (simp add: fm'(1) view_map) (rule upd_cong, simp add: view_sel)
  show "kv_ok (s\<lparr>kv_fm := fm'\<rparr>)"
    using ok fm' inv by (simp add: kv_ok_def mapping_ok_upd)
  show "kv_usable (s\<lparr>kv_fm := fm'\<rparr>) = kv_usable s"
    by (simp add: kv_usable_def fun_eq_iff fm'(1) usable_upd)
qed

lemma put_persistent:
  assumes ok: "kv_ok s" and us: "kv_usable s p" and room: "groom v p s"
  shows "\<exists>key s'. put INVALID_RID v False p s = (Inr key, s') \<and> \<not> islocal key \<and> rid_partition key = p
    \<and> fsel (kv_view s) key = None
    \<and> kv_view s' = fupd (\<lambda>m. m(key \<mapsto> stored v)) (kv_view s) \<and> kv_ok s'
    \<and> kv_local s' = kv_local s \<and> kv_usable s' = kv_usable s"
proof -
  let ?a = "fm_abs (kv_fm s)"
  from us have p: "p < 2 ^ 16" "ab_usable ?a p" "p \<noteq> RID_LOCAL_PARTITION"
    by (auto simp: kv_usable_def dest: ab_usable_not_local)
  have "sinvar (asel ?a p)"
    using ok by (simp add: kv_ok_def mapping_ok_sel)
  from ap.put_spec [OF this, of v] room obtain i st' where
    put: "sput v (asel ?a p) = (Inr i, st')" and none: "sval (asel ?a p) i = None" and
    i: "i \<le> RID_MASK" and upd: "sval st' = (sval (asel ?a p))(i \<mapsto> stored v)" and inv: "sinvar st'"
    by (auto simp: groom_eq)
  from sk.part_put_abs [OF _ p(2), of "sput v", OF _ put i] ok obtain fm' where
    fm': "part_put sel upd (sput v) p (kv_fm s) = (Inr (make_partitioned_rid p i), fm')"
      "fm_abs fm' = aupd (\<lambda>f. f(p := st')) ?a" "fm_ok fm'"
    by (auto simp: kv_ok_def)
  from i have i_ok: "idx_ok i"
    by (simp add: idx_ok_mask)
  have "fsel (kv_view s) (make_partitioned_rid p i) = None"
    using none i_ok p islocal_make [OF p(1), of i]
    by (simp add: kv_view_def view_sel field_val_def rid_partition_make)
  then show ?thesis
    using fm'(1) p islocal_make [OF p(1), of i] partition_update [OF ok p(1,2) i_ok upd inv fm'(2,3)]
    by (auto simp: put_eq zoom_def rid_partition_make)
qed

lemma put_replace:
  assumes ok: "kv_ok s" and nl: "\<not> islocal k" and fits: "gfits v (rid_partition k) s"
    and val: "fsel (kv_view s) k = Some w"
  shows "\<exists>s'. put k v False p s = (Inr k, s') \<and> kv_view s' = fupd (\<lambda>m. m(k \<mapsto> stored v)) (kv_view s)
    \<and> kv_ok s' \<and> kv_local s' = kv_local s"
proof -
  let ?a = "fm_abs (kv_fm s)" and ?p = "rid_partition k"
  from nl val have us: "ab_usable ?a ?p" and v: "sval (asel ?a ?p) (rid_index k) = Some w"
    by (auto simp: kv_view_def view_sel field_val_def split: if_splits)
  have ne: "k \<noteq> INVALID_RID"
    using nl by auto
  have "sinvar (asel ?a ?p)"
    using ok by (simp add: kv_ok_def mapping_ok_sel)
  from ap.replace_spec [OF this _ v, of v] fits obtain st' where
    rep: "srepl (rid_index k) v (asel ?a ?p) = (Inr (), st')" and
    upd: "sval st' = (sval (asel ?a ?p))(rid_index k \<mapsto> stored v)" and inv: "sinvar st'"
    by (auto simp: gfits_eq)
  from sk.part_replace_abs [OF _ us, of "\<lambda>i. srepl i v", OF _ rep] ok obtain fm' where
    fm': "part_replace sel upd (\<lambda>i. srepl i v) k (kv_fm s) = (Inr k, fm')"
      "fm_abs fm' = aupd (\<lambda>f. f(?p := st')) ?a" "fm_ok fm'"
    by (auto simp: kv_ok_def)
  then show ?thesis
    using ne partition_update [OF ok rid_partition_bound us idx_ok_rid_index upd inv fm'(2,3)]
    by (simp add: put_eq zoom_def make_partition_index)
qed

text \<open>What a replace does to the mapping itself.\<close>

lemma put_replace_abs:
  assumes ok: "kv_ok s" and nl: "\<not> islocal k" and fits: "gfits v (rid_partition k) s"
    and val: "fsel (kv_view s) k = Some w" and run: "put k v False p s = (r, s')"
  shows "\<exists>st'. srepl (rid_index k) v (asel (fm_abs (kv_fm s)) (rid_partition k)) = (Inr (), st')
    \<and> fm_abs (kv_fm s') = aupd (\<lambda>f. f(rid_partition k := st')) (fm_abs (kv_fm s))"
proof -
  let ?a = "fm_abs (kv_fm s)" and ?p = "rid_partition k"
  from nl val have us: "ab_usable ?a ?p" and v: "sval (asel ?a ?p) (rid_index k) = Some w"
    by (auto simp: kv_view_def view_sel field_val_def split: if_splits)
  have "sinvar (asel ?a ?p)"
    using ok by (simp add: kv_ok_def mapping_ok_sel)
  from ap.replace_spec [OF this _ v, of v] fits obtain st' where
    rep: "srepl (rid_index k) v (asel ?a ?p) = (Inr (), st')"
    by (auto simp: gfits_eq)
  have "k \<noteq> INVALID_RID"
    using nl by auto
  with sk.part_replace_abs [OF _ us, of "\<lambda>i. srepl i v", OF _ rep] ok run rep show ?thesis
    by (auto simp: kv_ok_def put_eq zoom_def)
qed

lemma free_temporary:
  assumes ok: "kv_ok s"
  shows "\<exists>s'. free key s = (Inr (), s')
    \<and> kv_view s' = (if islocal key then fupd (\<lambda>m. m(key := None)) (kv_view s) else kv_view s)
    \<and> kv_ok s' \<and> kv_fm s' = kv_fm s"
proof (cases "islocal key")
  case True
  let ?l = "lsel (kv_local s)"
  from ok have "ls_invar ?l"
    by (simp add: kv_ok_def local_ok_sel)
  from ls_erase_spec [OF this] obtain loc' where
    er: "ls_erase dflt (local2idx key) ?l = (Inr (), loc')" and
    upd: "ls_content loc' = (ls_content ?l)(local2idx key := None)" and inv: "ls_invar loc'"
    by blast
  let ?s' = "s\<lparr>kv_local := lupd (\<lambda>_. loc') (kv_local s)\<rparr>"
  have "free key s = (Inr (), ?s')"
    using er True by (simp add: free_eq zoom_def)
  moreover have "kv_view ?s' = fupd (\<lambda>m. m(key := None)) (kv_view s)"
    unfolding kv_view_def using field_val_local_erase [OF True upd]
    by (simp add: view_local) (rule upd_cong, simp add: view_sel)
  moreover have "kv_ok ?s'"
    using ok inv by (simp add: kv_ok_def local_ok_upd)
  ultimately show ?thesis
    using True by auto
next
  case False
  with ok show ?thesis
    by (simp add: free_eq)
qed

end

sublocale field_kind < field_store put get free fsel fupd stored room groom gfits
  by unfold_locales
    (auto simp: put_temporary put_persistent put_replace free_temporary sel_upd upd_upd
      upd_same room_eq groom_eq kv_eqv_def dest: get_field)

section \<open>The four field types\<close>

definition roomInt :: "kv_state \<Rightarrow> bool" where
  "roomInt s \<longleftrightarrow> ls_room (lk_int (kv_local s))"

definition groomInt :: "i32 \<Rightarrow> rid \<Rightarrow> kv_state \<Rightarrow> bool" where
  "groomInt v p s \<longleftrightarrow> fs_room 4 v (ab_int (fm_abs (kv_fm s)) p)"

definition gfitsInt :: "i32 \<Rightarrow> rid \<Rightarrow> kv_state \<Rightarrow> bool" where
  "gfitsInt v p s \<longleftrightarrow> True"

definition roomFloat :: "kv_state \<Rightarrow> bool" where
  "roomFloat s \<longleftrightarrow> ls_room (lk_float (kv_local s))"

definition groomFloat :: "u32 \<Rightarrow> rid \<Rightarrow> kv_state \<Rightarrow> bool" where
  "groomFloat v p s \<longleftrightarrow> fs_room 4 v (ab_float (fm_abs (kv_fm s)) p)"

definition gfitsFloat :: "u32 \<Rightarrow> rid \<Rightarrow> kv_state \<Rightarrow> bool" where
  "gfitsFloat v p s \<longleftrightarrow> True"

definition roomTimestamp :: "kv_state \<Rightarrow> bool" where
  "roomTimestamp s \<longleftrightarrow> ls_room (lk_time (kv_local s))"

definition groomTimestamp :: "i64 \<Rightarrow> rid \<Rightarrow> kv_state \<Rightarrow> bool" where
  "groomTimestamp v p s \<longleftrightarrow> fs_room 8 v (ab_time (fm_abs (kv_fm s)) p)"

definition gfitsTimestamp :: "i64 \<Rightarrow> rid \<Rightarrow> kv_state \<Rightarrow> bool" where
  "gfitsTimestamp v p s \<longleftrightarrow> True"

definition roomText :: "kv_state \<Rightarrow> bool" where
  "roomText s \<longleftrightarrow> ls_room (lk_text (kv_local s))"

definition groomText :: "byte list \<Rightarrow> rid \<Rightarrow> kv_state \<Rightarrow> bool" where
  "groomText v p s \<longleftrightarrow> ts_room v (ab_text (fm_abs (kv_fm s)) p)"

definition gfitsText :: "byte list \<Rightarrow> rid \<Rightarrow> kv_state \<Rightarrow> bool" where
  "gfitsText v p s \<longleftrightarrow> ts_fits v (ab_text (fm_abs (kv_fm s)) p)"

lemmas field_view_defs = view_of_def local_ok_def mapping_ok_def

interpretation int_field: field_kind fm_int fm_int_update "fs_fresh 0" ab_int ab_int_update
    "fs_put 4" "fs_get 4" "fs_replace 4" fs_val "\<lambda>v. v" "fs_invar 4" "fs_room 4" "\<lambda>_ _. True"
    lk_int lk_int_update 0 putInt getInt freeLocalInt int_of int_of_update roomInt groomInt gfitsInt
  by unfold_locales
    (simp_all add: putInt_def getInt_def freeLocalInt_def lk_putInt_def lk_getInt_def lk_eraseInt_def
      fm_putInt_def fm_getInt_def fm_replaceInt_def roomInt_def groomInt_def gfitsInt_def
      field_view_defs fun_eq_iff)

interpretation float_field: field_kind fm_float fm_float_update "fs_fresh 0" ab_float ab_float_update
    "fs_put 4" "fs_get 4" "fs_replace 4" fs_val "\<lambda>v. v" "fs_invar 4" "fs_room 4" "\<lambda>_ _. True"
    lk_float lk_float_update 0 putFloat getFloat freeLocalFloat float_of float_of_update roomFloat groomFloat gfitsFloat
  by unfold_locales
    (simp_all add: putFloat_def getFloat_def freeLocalFloat_def lk_putFloat_def lk_getFloat_def lk_eraseFloat_def
      fm_putFloat_def fm_getFloat_def fm_replaceFloat_def roomFloat_def groomFloat_def gfitsFloat_def
      field_view_defs fun_eq_iff)

interpretation time_field: field_kind fm_time fm_time_update "fs_fresh 0" ab_time ab_time_update
    "fs_put 8" "fs_get 8" "fs_replace 8" fs_val "\<lambda>v. v" "fs_invar 8" "fs_room 8" "\<lambda>_ _. True"
    lk_time lk_time_update 0 putTimestamp getTimestamp freeLocalTimestamp time_of time_of_update roomTimestamp groomTimestamp gfitsTimestamp
  by unfold_locales
    (simp_all add: putTimestamp_def getTimestamp_def freeLocalTimestamp_def lk_putTimestamp_def lk_getTimestamp_def lk_eraseTimestamp_def
      fm_putTimestamp_def fm_getTimestamp_def fm_replaceTimestamp_def roomTimestamp_def groomTimestamp_def gfitsTimestamp_def
      field_view_defs fun_eq_iff)

interpretation text_field: field_kind fm_text fm_text_update ts_fresh ab_text ab_text_update
    ts_put ts_get ts_replace ts_val cstr ts_invar ts_room ts_fits
    lk_text lk_text_update "[]" putText getText freeLocalText text_of text_of_update roomText groomText gfitsText
  by unfold_locales
    (simp_all add: putText_def getText_def freeLocalText_def lk_putString_def lk_getString_def lk_eraseString_def
      fm_putString_def fm_getString_def fm_replaceString_def roomText_def groomText_def gfitsText_def lstr_put_def lstr_get_def lstr_erase_def
      field_view_defs fun_eq_iff)

section \<open>Properties\<close>

text \<open>A worker that has just started, over an empty data directory.\<close>

definition kv_init :: "(rid \<Rightarrow> bool) \<Rightarrow> kv_state" where
  "kv_init mappable = \<lparr>kv_local = lk_empty, kv_fm = \<lparr>fm_mappable = mappable, fm_opened = (\<lambda>_. False),
     fm_int = (\<lambda>_. None), fm_float = (\<lambda>_. None), fm_time = (\<lambda>_. None), fm_text = (\<lambda>_. None)\<rparr>\<rparr>"

lemma kv_ok_init [simp]: "kv_ok (kv_init mappable)"
  by (simp add: kv_ok_def kv_init_def local_ok_def lk_empty_def fm_ok_def mapping_ok_def fm_abs_def store_of_def)

lemma kv_view_init: "kv_view (kv_init mappable) =
    \<lparr>int_of = Map.empty, float_of = Map.empty, time_of = Map.empty, text_of = Map.empty\<rparr>"
  by (auto simp: kv_view_def view_of_def kv_init_def lk_empty_def field_val_def fm_abs_def store_of_def
      fun_eq_iff ls_content_def ls_empty_def fs_val_def ts_val_def fs_fresh_def ts_fresh_def)

lemma fs_room_fresh: "sz \<in> {4, 8} \<Longrightarrow> fs_room sz v (fs_fresh z)"
  by (auto simp: fs_room_def fs_fresh_def MAX_ARRAY_ELE_NUM_def KV_MMAP_SIZE_def PAGE_SIZE_def)

lemma kv_init_room [simp]:
  "roomInt (kv_init f)" "roomFloat (kv_init f)" "roomTimestamp (kv_init f)" "roomText (kv_init f)"
  "groomInt v p (kv_init f)" "groomFloat w p (kv_init f)" "groomTimestamp z p (kv_init f)"
  by (simp_all add: kv_init_def roomInt_def roomFloat_def roomTimestamp_def roomText_def groomInt_def
      groomFloat_def groomTimestamp_def lk_empty_def ls_empty_def ls_room_def fm_abs_def store_of_def
      fs_room_fresh)

lemma kv_init_groomText: "groomText t p (kv_init f) \<longleftrightarrow> length (cstr t) < STORE_SIZE"
  by (simp add: kv_init_def groomText_def fm_abs_def store_of_def ts_room_fresh)

lemma kv_init_usable: "kv_usable (kv_init f) p \<longleftrightarrow> p < 2 ^ 16 \<and> p \<noteq> RID_LOCAL_PARTITION \<and> f p"
  by (auto simp: kv_init_def kv_usable_def fm_abs_def)

text \<open>
  C11. Persisting a text refines a map update: \<^verbatim>\<open>putText\<close> outside the temporaries returns an
  identifier of the requested partition that named no text before, the view of all fields of
  all types changes at that identifier only, and \<^verbatim>\<open>getText\<close> reads the text back.
\<close>

theorem put_text_refines_update:
  assumes "kv_ok s" "kv_usable s p" "groomText v p s"
  shows "\<exists>key s' s''. putText INVALID_RID v False p s = (Inr key, s')
    \<and> rid_partition key = p \<and> \<not> islocal key \<and> text_of (kv_view s) key = None
    \<and> kv_view s' = (kv_view s)\<lparr>text_of := (text_of (kv_view s))(key \<mapsto> cstr v)\<rparr>
    \<and> getText key s' = (Inr (cstr v), s'') \<and> kv_view s'' = kv_view s' \<and> kv_ok s''"
proof -
  from text_field.put_global_spec [OF assms] obtain key s' where
    s': "putText INVALID_RID v False p s = (Inr key, s')" "\<not> islocal key" "rid_partition key = p"
      "text_of (kv_view s) key = None"
      "kv_view s' = text_of_update (\<lambda>m. m(key \<mapsto> cstr v)) (kv_view s)" "kv_ok s'"
    by blast
  then have "text_of (kv_view s') key = Some (cstr v)"
    by simp
  from text_field.get_spec [OF s'(6) this] obtain s'' where
    "getText key s' = (Inr (cstr v), s'')" "kv_eqv s' s''" "kv_ok s''"
    by blast
  with s' show ?thesis
    by (auto simp: kv_eqv_view)
qed

theorem put_text_refines_update_witness:
  "\<exists>key s' s''. putText INVALID_RID [104, 105] False 7 (kv_init (\<lambda>_. True)) = (Inr key, s')
    \<and> rid_partition key = 7 \<and> getText key s' = (Inr [104, 105], s'')"
proof -
  have "kv_usable (kv_init (\<lambda>_. True)) 7" "groomText [104, 105] 7 (kv_init (\<lambda>_. True))"
    by (simp_all add: kv_init_usable kv_init_groomText RID_LOCAL_PARTITION_val cstr_def text_store_sizes)
  from put_text_refines_update [OF kv_ok_init this] show ?thesis
    by (auto simp: cstr_def)
qed

text \<open>
  C36. Replacing the value of a persistent field changes the view at that field only, whatever
  partition argument is passed, and the identifier stays the same.
\<close>

theorem replace_int_refines_update:
  assumes "kv_ok s" "\<not> islocal key" "int_of (kv_view s) key = Some w"
  shows "\<exists>s'. putInt key v False p s = (Inr key, s') \<and> kv_ok s'
    \<and> kv_view s' = (kv_view s)\<lparr>int_of := (int_of (kv_view s))(key \<mapsto> v)\<rparr>"
proof -
  from int_field.replace_spec [OF assms(1,2) _ assms(3), of v p] show ?thesis
    by (auto simp: gfitsInt_def)
qed

definition kv_sample :: kv_state where
  "kv_sample = snd (putInt INVALID_RID 5 False 7 (kv_init (\<lambda>_. True)))"

lemma kv_sample_int: "kv_ok kv_sample \<and> (\<exists>key. \<not> islocal key \<and> rid_partition key = 7
    \<and> int_of (kv_view kv_sample) key = Some 5)"
proof -
  have "kv_usable (kv_init (\<lambda>_. True)) 7"
    by (simp add: kv_init_usable RID_LOCAL_PARTITION_val)
  from int_field.put_global_spec [OF kv_ok_init this, of 5] show ?thesis
    by (auto simp: kv_sample_def)
qed

theorem replace_int_refines_update_witness:
  "\<exists>key s'. putInt key 8 False 0 kv_sample = (Inr key, s') \<and> int_of (kv_view s') key = Some 8"
proof -
  from kv_sample_int obtain key where "kv_ok kv_sample" "\<not> islocal key" "int_of (kv_view kv_sample) key = Some 5"
    by blast
  from replace_int_refines_update [OF this, of 8 0] show ?thesis
    by (force intro!: exI [of _ key])
qed

text \<open>
  A temporary's identifier never reaches the mapped files: a put that names one as its
  target, or the reserved partition, is refused and changes nothing.
\<close>

theorem local_rid_not_persisted:
  assumes "islocal key"
  shows "(key \<noteq> INVALID_RID \<longrightarrow> putInt key v False p s = (Inl (Fatal LocalPartition), s)
      \<and> putText key t False p s = (Inl (Fatal LocalPartition), s))
    \<and> putInt INVALID_RID v False (rid_partition key) s = (Inl (Fatal LocalPartition), s)
    \<and> putText INVALID_RID t False (rid_partition key) s = (Inl (Fatal LocalPartition), s)"
  using assms
  by (simp add: islocal_def putInt_def putText_def fm_replaceInt_def fm_putInt_def fm_replaceString_def
      fm_putString_def part_put_def part_replace_def zoom_def init_partition_local)

theorem local_rid_not_persisted_witness:
  "islocal (idx2local 3) \<and> putInt (idx2local 3) 8 False 0 kv_sample = (Inl (Fatal LocalPartition), kv_sample)"
proof -
  have "idx2local 3 \<noteq> INVALID_RID"
    using local2idx_idx2local [of 3]
    by (auto simp: idx_ok_def local2idx_def rid_index_def INVALID_RID_def RID_MASK_eq mask_numeral)
  then show ?thesis
    using local_rid_not_persisted [OF islocal_idx2local, of 3 8 0 kv_sample "[]"] by simp
qed

end
