(* ===== verification/Zeno_Crypto.thy ===== *)
theory Zeno_Crypto
  imports Zeno_Prelude
begin

text \<open>
  Authenticated encryption (\<^verbatim>\<open>src/src/privacy_zone/crypto.cpp\<close>). The cipher itself is mbedtls,
  which is not part of the repository: the record \<open>mbedtls\<close> holds the three functions the code
  calls, as functions of the key, the nonce and the data, and \<open>gcm_correct\<close> states what
  mbedtls documents of AES-256-GCM for well-formed keys and nonces. The state is the key of
  the context and the nonce counter \<^verbatim>\<open>iv\<close>. A ciphertext is nonce, tag and data, in that order.
\<close>

definition KEY_SIZE :: nat where "KEY_SIZE = 32"
definition IV_SIZE :: nat where "IV_SIZE = 12"
definition TAG_SIZE :: nat where "TAG_SIZE = 16"

record mbedtls =
  mb_crypt_and_tag :: "byte list \<Rightarrow> byte list \<Rightarrow> byte list \<Rightarrow> i32 \<times> byte list \<times> byte list"
  mb_auth_decrypt :: "byte list \<Rightarrow> byte list \<Rightarrow> byte list \<Rightarrow> byte list \<Rightarrow> i32 \<times> byte list"
  mb_random :: "nat \<Rightarrow> byte list"

definition gcm_correct :: "mbedtls \<Rightarrow> bool" where
  "gcm_correct lib \<longleftrightarrow> (\<forall>key iv pt. length key = KEY_SIZE \<longrightarrow> length iv = IV_SIZE \<longrightarrow>
     (case mb_crypt_and_tag lib key iv pt of (res, ct, tag) \<Rightarrow>
        res = 0 \<and> length ct = length pt \<and> length tag = TAG_SIZE
        \<and> mb_auth_decrypt lib key iv tag ct = (0, pt)))"

record crypto_state =
  cr_key :: "byte list"
  cr_iv :: "byte list"

definition enc_key :: "byte list" where
  "enc_key = replicate 8 0x34 @ replicate 8 0x12 @ replicate 8 0x34 @ replicate 8 0x12"

text \<open>The loop of \<^verbatim>\<open>increment\<close>: \<open>n\<close> is \<^verbatim>\<open>i + 1\<close>.\<close>

fun increment_from :: "byte list \<Rightarrow> nat \<Rightarrow> byte list" where
  "increment_from iv 0 = iv"
| "increment_from iv (Suc i) =
     (if iv ! i = 0xFF then increment_from (iv[i := 0]) i else iv[i := iv ! i + 1])"

definition increment :: "byte list \<Rightarrow> byte list" where
  "increment iv = increment_from iv (length iv)"

definition gcm_init :: "mbedtls \<Rightarrow> crypto_state \<Rightarrow> crypto_state" where
  "gcm_init lib s = \<lparr>cr_key = enc_key, cr_iv = mb_random lib IV_SIZE\<rparr>"

definition gcm_encrypt :: "mbedtls \<Rightarrow> byte list \<Rightarrow> crypto_state \<Rightarrow> (i32 \<times> byte list) \<times> crypto_state" where
  "gcm_encrypt lib inp s =
     (let iv = increment (cr_iv s);
          (res, ct, tag) = mb_crypt_and_tag lib (cr_key s) iv inp
      in ((res, iv @ tag @ ct), s\<lparr>cr_iv := iv\<rparr>))"

text \<open>\<^verbatim>\<open>data_sz\<close> is a \<^verbatim>\<open>uint32_t\<close>.\<close>

definition gcm_decrypt :: "mbedtls \<Rightarrow> byte list \<Rightarrow> crypto_state \<Rightarrow> i32 \<times> byte list \<times> u64" where
  "gcm_decrypt lib inp s =
     (let data_sz = ucast (of_nat (length inp) - of_nat IV_SIZE - of_nat TAG_SIZE :: u64) :: u32;
          (res, pt) = mb_auth_decrypt lib (cr_key s) (take IV_SIZE inp)
            (take TAG_SIZE (drop IV_SIZE inp))
            (take (unat data_sz) (drop (IV_SIZE + TAG_SIZE) inp))
      in (res, pt, ucast data_sz))"

definition encrypt_bytes :: "mbedtls \<Rightarrow> byte list \<Rightarrow> nat \<Rightarrow> (crypto_state, byte list) kvm" where
  "encrypt_bytes lib src exp_dst_len = (\<lambda>s.
     let ((resp, out), s') = gcm_encrypt lib src s in
     if length src + IV_SIZE + TAG_SIZE = exp_dst_len \<and> resp = 0 then (Inr out, s')
     else (Inl (Fatal CryptoFailed), s'))"

definition decrypt_bytes :: "mbedtls \<Rightarrow> byte list \<Rightarrow> nat \<Rightarrow> (crypto_state, byte list) kvm" where
  "decrypt_bytes lib src exp_dst_len = (\<lambda>s.
     if length src < IV_SIZE + TAG_SIZE then (Inl (Fatal CiphertextTooShort), s)
     else let (resp, pt, dst_len) = gcm_decrypt lib src s in
       if unat dst_len = exp_dst_len \<and> resp = 0 then (Inr pt, s)
       else (Inl (Fatal CryptoFailed), s))"

section \<open>The nonce counter\<close>

definition be_val :: "byte list \<Rightarrow> nat" where
  "be_val bs = foldl (\<lambda>a b. a * 256 + unat b) 0 bs"

lemma be_val_Nil [simp]: "be_val [] = 0"
  by (simp add: be_val_def)

lemma be_val_snoc [simp]: "be_val (bs @ [b]) = be_val bs * 256 + unat b"
  by (simp add: be_val_def)

lemma unat_byte_less: "unat (b :: byte) < 256"
  using unsigned_less [of b, where ?'a = nat] by simp

lemma be_val_bound: "be_val bs < 256 ^ length bs"
proof (induction bs rule: rev_induct)
  case (snoc b bs)
  have "be_val bs * 256 + unat b < (be_val bs + 1) * 256"
    using unat_byte_less [of b] by simp
  also have "\<dots> \<le> 256 ^ length bs * 256"
    using snoc by (intro mult_right_mono) auto
  finally show ?case by simp
qed simp

lemma be_val_inj: "length xs = length ys \<Longrightarrow> be_val xs = be_val ys \<Longrightarrow> xs = ys"
proof (induction xs arbitrary: ys rule: rev_induct)
  case (snoc b bs)
  from snoc.prems(1) obtain cs c where ys: "ys = cs @ [c]" "length bs = length cs"
    by (cases ys rule: rev_cases) auto
  with snoc.prems(2) have eq: "be_val bs * 256 + unat b = be_val cs * 256 + unat c"
    by simp
  have "be_val bs = be_val cs" "unat b = unat c"
    using arg_cong [OF eq, of "\<lambda>x. x div 256"] arg_cong [OF eq, of "\<lambda>x. x mod 256"]
      unat_byte_less [of b] unat_byte_less [of c] by simp_all
  with snoc.IH [OF ys(2)] ys(1) show ?case
    by (simp add: word_unat_eq_iff)
qed simp

lemma increment_from_append: "n \<le> length xs \<Longrightarrow> increment_from (xs @ ys) n = increment_from xs n @ ys"
  by (induction n arbitrary: xs) (auto simp: nth_append list_update_append)

lemma length_increment_from [simp]: "length (increment_from xs n) = length xs"
  by (induction n arbitrary: xs) auto

lemma length_increment [simp]: "length (increment xs) = length xs"
  by (simp add: increment_def)

lemma increment_snoc:
  "increment (bs @ [b]) = (if b = 0xFF then increment bs @ [0] else bs @ [b + 1])"
  by (simp add: increment_def increment_from_append)

lemma unat_byte_succ: "(b :: byte) \<noteq> 0xFF \<Longrightarrow> unat (b + 1) = unat b + 1"
proof -
  assume "b \<noteq> 0xFF"
  then have "b + 1 \<noteq> 0"
    using eq_neg_iff_add_eq_0 [of b 1] by auto
  then show ?thesis
    by (simp add: unatSuc add.commute)
qed

text \<open>\<^verbatim>\<open>increment\<close> adds one to the nonce as a big-endian number, wrapping at its width.\<close>

lemma be_val_increment: "be_val (increment bs) = (be_val bs + 1) mod 256 ^ length bs"
proof (induction bs rule: rev_induct)
  case Nil
  then show ?case by (simp add: increment_def)
next
  case (snoc b bs)
  show ?case
  proof (cases "b = 0xFF")
    case True
    then have "be_val (bs @ [b]) + 1 = (be_val bs + 1) * 256"
      by simp
    with True snoc show ?thesis
      by (simp add: increment_snoc mult_mod_left mult.commute [of 256])
  next
    case False
    then have "be_val (bs @ [b]) + 1 = be_val (increment (bs @ [b]))"
      by (simp add: increment_snoc unat_byte_succ)
    with be_val_bound [of "increment (bs @ [b])"] show ?thesis
      by simp
  qed
qed

lemma length_increment_funpow [simp]: "length ((increment ^^ n) bs) = length bs"
  by (induction n) simp_all

lemma be_val_funpow: "be_val ((increment ^^ n) bs) = (be_val bs + n) mod 256 ^ length bs"
proof (induction n)
  case 0
  then show ?case by (simp add: be_val_bound)
next
  case (Suc n)
  then show ?case by (simp add: be_val_increment mod_Suc_eq)
qed

lemma mod_add_inj:
  fixes a i j m :: nat
  assumes "(a + i) mod m = (a + j) mod m" "i \<le> j" "j < m"
  shows "i = j"
proof -
  have "m dvd (a + j) - (a + i)"
    by (rule iffD1 [OF mod_eq_dvd_iff_nat]) (use assms(1,2) in simp_all)
  then have "m dvd j - i"
    by simp
  then have "j - i = 0"
    using assms(3) by (metis dvd_imp_le gr0I leD less_imp_diff_less)
  with assms(2) show ?thesis by simp
qed

lemma increment_funpow_inj:
  assumes "(increment ^^ i) bs = (increment ^^ j) bs" "i < 256 ^ length bs" "j < 256 ^ length bs"
  shows "i = j"
proof -
  have "(be_val bs + i) mod 256 ^ length bs = (be_val bs + j) mod 256 ^ length bs"
    using arg_cong [OF assms(1), of be_val] by (simp add: be_val_funpow)
  with mod_add_inj [of "be_val bs" i "256 ^ length bs" j] mod_add_inj [of "be_val bs" j "256 ^ length bs" i]
    assms(2,3) show ?thesis
    by (cases "i \<le> j") auto
qed

section \<open>Round trip\<close>

definition crypto_ok :: "crypto_state \<Rightarrow> bool" where
  "crypto_ok s \<longleftrightarrow> length (cr_key s) = KEY_SIZE \<and> length (cr_iv s) = IV_SIZE"

lemma gcm_correctD:
  assumes "gcm_correct lib" "length key = KEY_SIZE" "length iv = IV_SIZE"
    "mb_crypt_and_tag lib key iv pt = (res, ct, tag)"
  shows "res = 0" "length ct = length pt" "length tag = TAG_SIZE"
    "mb_auth_decrypt lib key iv tag ct = (0, pt)"
  using assms(1) [unfolded gcm_correct_def, rule_format, OF assms(2,3), of pt] assms(4) by simp_all

lemma data_sz_exact:
  assumes "n < 2 ^ 32"
  shows "ucast (of_nat (n + 28) - 12 - 16 :: u64) = (of_nat n :: u32)" "unat (of_nat n :: u32) = n"
    "unat (ucast (of_nat n :: u32) :: u64) = n"
proof -
  have "of_nat (n + 28) - 12 - 16 = (of_nat n :: u64)"
    by simp
  then show "ucast (of_nat (n + 28) - 12 - 16 :: u64) = (of_nat n :: u32)"
    by (simp add: unsigned_of_nat unsigned_ucast_eq word_unat_eq_iff take_bit_of_nat
        flip: of_nat_take_bit)
  show "unat (of_nat n :: u32) = n" "unat (ucast (of_nat n :: u32) :: u64) = n"
    using assms by (simp_all add: unsigned_ucast_eq unsigned_of_nat take_bit_nat_eq_self)
qed

lemma encrypt_bytes_ok:
  assumes lib: "gcm_correct lib" and ok: "crypto_ok s"
  shows "\<exists>ct. encrypt_bytes lib pt (length pt + 28) s = (Inr ct, s\<lparr>cr_iv := increment (cr_iv s)\<rparr>)
    \<and> length ct = length pt + 28 \<and> take IV_SIZE ct = increment (cr_iv s)
    \<and> (\<forall>s'. cr_key s' = cr_key s \<longrightarrow> length pt < 2 ^ 32 \<longrightarrow> decrypt_bytes lib ct (length pt) s' = (Inr pt, s'))"
proof -
  let ?iv = "increment (cr_iv s)"
  obtain res ct tag where enc: "mb_crypt_and_tag lib (cr_key s) ?iv pt = (res, ct, tag)"
    by (metis prod_cases3)
  have iv: "length ?iv = IV_SIZE"
    using ok by (simp add: crypto_ok_def)
  then have lens: "res = 0" "length ct = length pt" "length tag = TAG_SIZE"
    and dec: "mb_auth_decrypt lib (cr_key s) ?iv tag ct = (0, pt)"
    using gcm_correctD [OF lib _ _ enc] ok by (simp_all add: crypto_ok_def)
  have "encrypt_bytes lib pt (length pt + 28) s = (Inr (?iv @ tag @ ct), s\<lparr>cr_iv := ?iv\<rparr>)"
    using enc lens by (simp add: encrypt_bytes_def gcm_encrypt_def Let_def IV_SIZE_def TAG_SIZE_def)
  moreover have "decrypt_bytes lib (?iv @ tag @ ct) (length pt) s' = (Inr pt, s')"
    if "cr_key s' = cr_key s" "length pt < 2 ^ 32" for s'
    using that iv lens dec data_sz_exact [OF that(2)]
    by (simp add: decrypt_bytes_def gcm_decrypt_def Let_def IV_SIZE_def TAG_SIZE_def add.commute)
  ultimately show ?thesis
    using iv lens by (auto simp: IV_SIZE_def TAG_SIZE_def)
qed

section \<open>Properties\<close>

text \<open>A worker encrypting one plaintext after the other.\<close>

primrec encrypt_all :: "mbedtls \<Rightarrow> byte list list \<Rightarrow> (crypto_state, byte list list) kvm" where
  "encrypt_all lib [] = ret []"
| "encrypt_all lib (pt # pts) =
     bindE (encrypt_bytes lib pt (length pt + 28)) (\<lambda>ct.
     bindE (encrypt_all lib pts) (\<lambda>cts. ret (ct # cts)))"

lemma encrypt_all_nonces:
  assumes "gcm_correct lib" "crypto_ok s"
  shows "\<exists>cts s'. encrypt_all lib pts s = (Inr cts, s') \<and> length cts = length pts
    \<and> (\<forall>i < length pts. take IV_SIZE (cts ! i) = (increment ^^ Suc i) (cr_iv s))"
  using assms(2)
proof (induction pts arbitrary: s)
  case (Cons pt pts)
  let ?s1 = "s\<lparr>cr_iv := increment (cr_iv s)\<rparr>"
  from encrypt_bytes_ok [OF assms(1) Cons.prems, of pt] obtain ct where
    ct: "encrypt_bytes lib pt (length pt + 28) s = (Inr ct, ?s1)" "take IV_SIZE ct = increment (cr_iv s)"
    by blast
  have "crypto_ok ?s1"
    using Cons.prems by (simp add: crypto_ok_def)
  from Cons.IH [OF this] obtain cts s' where
    cts: "encrypt_all lib pts ?s1 = (Inr cts, s')" "length cts = length pts"
      "\<forall>i < length pts. take IV_SIZE (cts ! i) = (increment ^^ Suc i) (increment (cr_iv s))"
    by auto
  have "take IV_SIZE ((ct # cts) ! i) = (increment ^^ Suc i) (cr_iv s)" if "i < length (pt # pts)" for i
    using that ct(2) cts(3) by (cases i) (simp_all add: funpow_swap1)
  with ct cts show ?case
    by (intro exI [of _ "ct # cts"] exI [of _ s']) simp
qed simp

text \<open>
  C27. Encryption never fails and never reuses a nonce: any number of plaintexts below 2 to the
  96 that one worker encrypts in a row carry pairwise different nonces, the first twelve bytes
  of each ciphertext.
\<close>

theorem nonces_distinct:
  assumes "gcm_correct lib" "crypto_ok s" "length pts \<le> 2 ^ 96 - 1"
  shows "\<exists>cts s'. encrypt_all lib pts s = (Inr cts, s') \<and> length cts = length pts
    \<and> distinct (map (take IV_SIZE) cts)"
proof -
  from encrypt_all_nonces [OF assms(1,2)] obtain cts s' where
    cts: "encrypt_all lib pts s = (Inr cts, s')" "length cts = length pts"
      "\<forall>i < length pts. take IV_SIZE (cts ! i) = (increment ^^ Suc i) (cr_iv s)"
    by blast
  have big: "Suc i < 256 ^ length (cr_iv s)" if "i < length pts" for i
    using that assms(2,3) by (simp add: crypto_ok_def IV_SIZE_def)
  have "i = j" if "i < length pts" "j < length pts" "take IV_SIZE (cts ! i) = take IV_SIZE (cts ! j)" for i j
    using increment_funpow_inj [of "Suc i" "cr_iv s" "Suc j"] that cts(3) big by simp
  then have "distinct (map (take IV_SIZE) cts)"
    using cts(2) by (auto simp: distinct_conv_nth)
  with cts show ?thesis by blast
qed

text \<open>A cipher of the right shape, for the witnesses: the identity, with a constant tag.\<close>

definition plain_gcm :: mbedtls where
  "plain_gcm = \<lparr>mb_crypt_and_tag = (\<lambda>key iv pt. (0, pt, replicate 16 0)),
     mb_auth_decrypt = (\<lambda>key iv tag ct. (if tag = replicate 16 0 then 0 else - 18, ct)),
     mb_random = (\<lambda>n. replicate n 0)\<rparr>"

lemma gcm_correct_plain: "gcm_correct plain_gcm"
  by (simp add: gcm_correct_def plain_gcm_def TAG_SIZE_def)

lemma crypto_ok_init:
  "length (mb_random lib IV_SIZE) = IV_SIZE \<Longrightarrow> crypto_ok (gcm_init lib s)"
  by (simp add: crypto_ok_def gcm_init_def enc_key_def KEY_SIZE_def)

lemma crypto_ok_plain: "crypto_ok (gcm_init plain_gcm s)"
  by (rule crypto_ok_init) (simp add: plain_gcm_def)

theorem nonces_distinct_witness:
  "\<exists>cts s'. encrypt_all plain_gcm [[1], [1], [1, 2]] (gcm_init plain_gcm \<lparr>cr_key = [], cr_iv = []\<rparr>) = (Inr cts, s')
    \<and> length cts = 3 \<and> distinct (map (take IV_SIZE) cts)"
  using nonces_distinct [OF gcm_correct_plain crypto_ok_plain [of "\<lparr>cr_key = [], cr_iv = []\<rparr>"], of "[[1], [1], [1, 2]]"]
  by (simp add: numeral_3_eq_3 del: encrypt_all.simps)

text \<open>
  C28. A ciphertext decrypts to its plaintext under the same key, in any worker and whatever its
  nonce counter, if the plaintext is shorter than 2 to the 32 bytes; the ciphertext is 28 bytes
  longer.
\<close>

theorem encrypt_decrypt_roundtrip:
  assumes "gcm_correct lib" "crypto_ok s" "length pt < 2 ^ 32" "cr_key s' = cr_key s"
  shows "\<exists>ct s1. encrypt_bytes lib pt (length pt + 28) s = (Inr ct, s1) \<and> length ct = length pt + 28
    \<and> crypto_ok s1 \<and> decrypt_bytes lib ct (length pt) s' = (Inr pt, s')"
  using encrypt_bytes_ok [OF assms(1,2), of pt] assms(2-4) by (auto simp: crypto_ok_def)

theorem encrypt_decrypt_roundtrip_witness:
  "\<exists>ct s1. encrypt_bytes plain_gcm [5, 6] 30 (gcm_init plain_gcm \<lparr>cr_key = [], cr_iv = []\<rparr>) = (Inr ct, s1)
    \<and> decrypt_bytes plain_gcm ct (length [5 :: byte, 6]) \<lparr>cr_key = enc_key, cr_iv = replicate 12 9\<rparr>
      = (Inr [5, 6], \<lparr>cr_key = enc_key, cr_iv = replicate 12 9\<rparr>)"
  using encrypt_decrypt_roundtrip [OF gcm_correct_plain crypto_ok_plain, of "[5, 6]"
      "\<lparr>cr_key = enc_key, cr_iv = replicate 12 9\<rparr>" "\<lparr>cr_key = [], cr_iv = []\<rparr>"]
  by (auto simp: gcm_init_def)

end
