(* ===== verification/Zeno_Wal.thy ===== *)
theory Zeno_Wal
  imports Zeno_Kv Zeno_Crypto
begin

text \<open>
  The write-ahead log of the privacy zone (\<^verbatim>\<open>src/src/privacy_zone/include/wal.hpp\<close>). Two paths
  exist. The payload path turns a batch of field identifiers into one encrypted record that
  PostgreSQL carries in its own log (\<open>materializeBatch\<close>) and applies such a record to the
  mapping (\<open>replayPayload\<close>). The file path collects identifiers in shared memory
  (\<open>appendBatch\<close>) and writes fixed-size entries to a file (\<open>wal_flush\<close>, \<open>wal_replay\<close>,
  \<open>wal_truncate\<close>). Failures of system calls are not modelled; advisory locks order the critical
  sections and are implicit in the steps being atomic.
\<close>

section \<open>State\<close>

record wal_item =
  it_type :: i32
  it_rid :: rid

text \<open>An entry of the log file: the union is its 544 bytes.\<close>

record wal_entry =
  we_type :: i32
  we_key :: rid
  we_value :: "byte list"

record wal_file =
  wf_magic :: u64
  wf_write_pos :: u64
  wf_entries :: "nat \<Rightarrow> wal_entry"

text \<open>
  \<open>wl_init\<close> and \<open>wl_header\<close> (the cached \<^verbatim>\<open>header.write_pos\<close>) belong to the process; the file and
  the pending list, with its magic number, are shared between processes.
\<close>

record wal_state =
  wl_init :: bool
  wl_header :: u64
  wl_file :: wal_file
  wl_pending_magic :: u64
  wl_pending :: "wal_item list"

record worker_state =
  ws_kv :: kv_state
  ws_crypto :: crypto_state
  ws_wal :: wal_state
  ws_mem :: mem

definition on_kv :: "(kv_state, 'a) kvm \<Rightarrow> (worker_state, 'a) kvm" where
  "on_kv m = zoom ws_kv ws_kv_update m"

definition on_fm :: "(file_map, 'a) kvm \<Rightarrow> (worker_state, 'a) kvm" where
  "on_fm m = on_kv (zoom kv_fm kv_fm_update m)"

definition on_wal :: "(wal_state, 'a) kvm \<Rightarrow> (worker_state, 'a) kvm" where
  "on_wal m = zoom ws_wal ws_wal_update m"

definition on_crypto :: "(crypto_state, 'a) kvm \<Rightarrow> (worker_state, 'a) kvm" where
  "on_crypto m = zoom ws_crypto ws_crypto_update m"

definition STRING_LENGTH :: nat where "STRING_LENGTH = 540"
definition PENDING_MAGIC :: u64 where "PENDING_MAGIC = 0x4645444257414c33"
definition WAL_MAGIC :: u64 where "WAL_MAGIC = 0x4645444257414c34"
definition WAL_PAYLOAD_MAGIC :: u32 where "WAL_PAYLOAD_MAGIC = 0x31564c57"
definition WAL_PAYLOAD_VERSION :: u16 where "WAL_PAYLOAD_VERSION = 1"
definition WAL_FILE_SIZE :: u64 where "WAL_FILE_SIZE = 2 ^ 32"
definition WAL_DATA_OFFSET :: u64 where "WAL_DATA_OFFSET = 4096"
definition WAL_ENTRY_SIZE :: u64 where "WAL_ENTRY_SIZE = 560"
definition WAL_UNION_SIZE :: nat where "WAL_UNION_SIZE = 544"
definition MAX_PENDING_ITEMS :: nat where "MAX_PENDING_ITEMS = 2 ^ 20"
definition WAL_MATERIALIZE_RID_BATCH_SIZE :: nat where "WAL_MATERIALIZE_RID_BATCH_SIZE = 3000"

section \<open>The payload\<close>

text \<open>A value as the payload carries it; a text with the NUL that ends it, at most 540 bytes.\<close>

datatype wal_value = WInt i32 | WFloat u32 | WText "byte list" | WTime i64

definition text_payload :: "byte list \<Rightarrow> byte list" where
  "text_payload t = take (min (length t) (STRING_LENGTH - 1) + 1) (t @ [0])"

primrec value_bytes :: "wal_value \<Rightarrow> byte list" where
  "value_bytes (WInt v) = le_bytes 4 v"
| "value_bytes (WFloat v) = le_bytes 4 v"
| "value_bytes (WText t) = text_payload t"
| "value_bytes (WTime v) = le_bytes 8 v"

definition fetch_value :: "wal_item \<Rightarrow> (file_map, wal_value) kvm" where
  "fetch_value it =
     (if it_type it = 0 then bindE (fm_getInt (it_rid it)) (\<lambda>v. ret (WInt v))
      else if it_type it = 1 then bindE (fm_getFloat (it_rid it)) (\<lambda>v. ret (WFloat v))
      else if it_type it = 2 then bindE (fm_getString (it_rid it)) (\<lambda>v. ret (WText v))
      else if it_type it = 3 then bindE (fm_getTimestamp (it_rid it)) (\<lambda>v. ret (WTime v))
      else raise (Fatal WalEntryType))"

definition append_record_value :: "byte list \<Rightarrow> rid \<Rightarrow> byte list \<Rightarrow> (file_map, byte list) kvm" where
  "append_record_value out key value =
     bindE (kvdb_check (length value \<le> 65535) WalValueTooLarge) (\<lambda>_.
     ret (out @ le_bytes 2 (of_nat (length value) :: u16) @ le_bytes 8 key @ value))"

primrec materialize_records :: "wal_item list \<Rightarrow> byte list \<Rightarrow> (file_map, byte list) kvm" where
  "materialize_records [] out = ret out"
| "materialize_records (it # its) out =
     bindE (fetch_value it) (\<lambda>v.
     bindE (append_record_value (out @ [ucast (it_type it)]) (it_rid it) (value_bytes v))
       (\<lambda>out. materialize_records its out))"

definition payload_header :: "nat \<Rightarrow> byte list" where
  "payload_header n =
     le_bytes 4 WAL_PAYLOAD_MAGIC @ le_bytes 2 WAL_PAYLOAD_VERSION @ le_bytes 2 (of_nat n :: u16)"

definition materialize_payload :: "wal_item list \<Rightarrow> (file_map, byte list) kvm" where
  "materialize_payload items =
     bindE (kvdb_check (length items \<le> 65535) WalPayloadCapacity) (\<lambda>_.
     materialize_records items (payload_header (length items)))"

definition item_type_ok :: "wal_item \<Rightarrow> bool" where
  "item_type_ok it \<longleftrightarrow> 0 \<le> sint (it_type it) \<and> sint (it_type it) \<le> 3"

definition materializeBatch :: "mbedtls \<Rightarrow> wal_item list \<Rightarrow> nat \<Rightarrow> (worker_state, byte list) kvm" where
  "materializeBatch lib items capacity =
     (if items = [] then ret []
      else
       bindE (kvdb_check (length items \<le> WAL_MATERIALIZE_RID_BATCH_SIZE) WalBatchSize) (\<lambda>_.
       bindE (kvdb_check (list_all item_type_ok items) WalRidType) (\<lambda>_.
       bindE (on_fm (materialize_payload items)) (\<lambda>plaintext.
       bindE (kvdb_check (length plaintext + IV_SIZE + TAG_SIZE \<le> capacity) WalPayloadCapacity) (\<lambda>_.
       bindE (on_crypto (\<lambda>s. (Inr (fst (gcm_encrypt lib plaintext s)), snd (gcm_encrypt lib plaintext s))))
         (\<lambda>(res, out).
       bindE (kvdb_check (res = 0) WalEncrypt) (\<lambda>_. ret out)))))))"

definition read_bytes :: "nat \<Rightarrow> byte list \<Rightarrow> (file_map, byte list \<times> byte list) kvm" where
  "read_bytes n rest =
     bindE (kvdb_check (n \<le> length rest) WalTruncated) (\<lambda>_. ret (take n rest, drop n rest))"

definition replay_value :: "byte \<Rightarrow> rid \<Rightarrow> byte list \<Rightarrow> (file_map, unit) kvm" where
  "replay_value type key value =
     (if type = 0 then
        bindE (kvdb_check (length value = 4) WalValueLength) (\<lambda>_.
        bindE (fm_replaceInt key (le_word value)) (\<lambda>_. ret ()))
      else if type = 1 then
        bindE (kvdb_check (length value = 4) WalValueLength) (\<lambda>_.
        bindE (fm_replaceFloat key (le_word value)) (\<lambda>_. ret ()))
      else if type = 2 then
        bindE (kvdb_check (0 < length value \<and> length value \<le> STRING_LENGTH) WalValueLength) (\<lambda>_.
        bindE (fm_replaceString key (take (STRING_LENGTH - 1) value)) (\<lambda>_. ret ()))
      else if type = 3 then
        bindE (kvdb_check (length value = 8) WalValueLength) (\<lambda>_.
        bindE (fm_replaceTimestamp key (le_word value)) (\<lambda>_. ret ()))
      else raise (Fatal WalPayloadType))"

primrec replay_records :: "nat \<Rightarrow> byte list \<Rightarrow> (file_map, unit) kvm" where
  "replay_records 0 rest = kvdb_check (rest = []) WalTrailing"
| "replay_records (Suc n) rest =
     bindE (read_bytes 1 rest) (\<lambda>(type, r1).
     bindE (read_bytes 2 r1) (\<lambda>(len, r2).
     bindE (read_bytes 8 r2) (\<lambda>(key, r3).
     let l = unat (le_word len :: u16) in
     bindE (kvdb_check (l \<le> length r3) WalRecordTruncated) (\<lambda>_.
     bindE (replay_value (hd type) (le_word key) (take l r3)) (\<lambda>_.
     replay_records n (drop l r3))))))"

definition replay_payload :: "byte list \<Rightarrow> (file_map, unit) kvm" where
  "replay_payload data =
     bindE (read_bytes 8 data) (\<lambda>(header, rest).
     bindE (kvdb_check (le_word (take 4 header) = WAL_PAYLOAD_MAGIC \<and>
         le_word (take 2 (drop 4 header)) = WAL_PAYLOAD_VERSION) WalPayloadHeader) (\<lambda>_.
     replay_records (unat (le_word (drop 6 header) :: u16)) rest))"

definition replayPayload :: "mbedtls \<Rightarrow> byte list \<Rightarrow> (worker_state, unit) kvm" where
  "replayPayload lib payload =
     (if payload = [] then ret ()
      else
       bindE (kvdb_check (IV_SIZE + TAG_SIZE \<le> length payload) WalPayloadTooShort) (\<lambda>_.
       bindE (on_crypto (\<lambda>s. (Inr (gcm_decrypt lib payload s), s))) (\<lambda>(res, plaintext, decrypt_len).
       bindE (kvdb_check (res = 0) WalDecrypt) (\<lambda>_.
       bindE (kvdb_check (unat decrypt_len = length payload - IV_SIZE - TAG_SIZE) WalPlaintextSize) (\<lambda>_.
       on_fm (replay_payload plaintext))))))"

section \<open>The log file\<close>

definition init_pending :: "(wal_state, unit) kvm" where
  "init_pending = (\<lambda>s.
     if wl_pending_magic s \<noteq> PENDING_MAGIC
     then (Inr (), s\<lparr>wl_pending := [], wl_pending_magic := PENDING_MAGIC\<rparr>)
     else (Inr (), s))"

definition write_header :: "(wal_state, unit) kvm" where
  "write_header = (\<lambda>s.
     (Inr (), s\<lparr>wl_file := (wl_file s)\<lparr>wf_magic := WAL_MAGIC, wf_write_pos := wl_header s\<rparr>\<rparr>))"

definition header_valid :: "wal_file \<Rightarrow> bool" where
  "header_valid f \<longleftrightarrow> wf_magic f = WAL_MAGIC \<and> WAL_DATA_OFFSET \<le> wf_write_pos f \<and>
     wf_write_pos f \<le> WAL_FILE_SIZE \<and> (wf_write_pos f - WAL_DATA_OFFSET) mod WAL_ENTRY_SIZE = 0"

definition init_wal_file :: "(wal_state, unit) kvm" where
  "init_wal_file = (\<lambda>s.
     if header_valid (wl_file s) then (Inr (), s\<lparr>wl_header := wf_write_pos (wl_file s)\<rparr>)
     else write_header (s\<lparr>wl_header := WAL_DATA_OFFSET\<rparr>))"

definition wal_init :: "(wal_state, unit) kvm" where
  "wal_init = (\<lambda>s.
     if wl_init s then (Inr (), s)
     else bindE init_pending (\<lambda>_. bindE init_wal_file (\<lambda>_ s. (Inr (), s\<lparr>wl_init := True\<rparr>))) s)"

definition appendBatch :: "wal_item list \<Rightarrow> (wal_state, unit) kvm" where
  "appendBatch items =
     (if items = [] then ret ()
      else
       bindE wal_init (\<lambda>_.
       bindE (kvdb_check (list_all item_type_ok items) WalRidType) (\<lambda>_ s.
       if length (wl_pending s) + length items \<le> MAX_PENDING_ITEMS
       then (Inr (), s\<lparr>wl_pending := wl_pending s @ items\<rparr>)
       else (Inl (Fatal WalPendingFull), s))))"

definition take_pending :: "(wal_state, wal_item list) kvm" where
  "take_pending = (\<lambda>s. (Inr (wl_pending s), s\<lparr>wl_pending := []\<rparr>))"

definition wal_truncate :: "(worker_state, unit) kvm" where
  "wal_truncate = on_wal (
     bindE wal_init (\<lambda>_ s.
       write_header (s\<lparr>wl_pending := [], wl_header := WAL_DATA_OFFSET\<rparr>)))"

text \<open>
  The value-initialised union of a new entry, with the member of the type stored at its start.
  The text member is copied with \<^verbatim>\<open>memcpy\<close>, 540 bytes whatever the length of the string.
\<close>

definition union_bytes :: "byte list \<Rightarrow> byte list" where
  "union_bytes bs = take WAL_UNION_SIZE (bs @ replicate WAL_UNION_SIZE 0)"

definition fetch_raw :: "wal_item \<Rightarrow> (file_map, byte list) kvm" where
  "fetch_raw it =
     (if it_type it = 0 then bindE (fm_getInt (it_rid it)) (\<lambda>v. ret (le_bytes 4 v))
      else if it_type it = 1 then bindE (fm_getFloat (it_rid it)) (\<lambda>v. ret (le_bytes 4 v))
      else if it_type it = 2 then fm_getString_raw STRING_LENGTH (it_rid it)
      else if it_type it = 3 then bindE (fm_getTimestamp (it_rid it)) (\<lambda>v. ret (le_bytes 8 v))
      else raise (Fatal WalEntryType))"

primrec materialize :: "wal_item list \<Rightarrow> (file_map, wal_entry list) kvm" where
  "materialize [] = ret []"
| "materialize (it # its) =
     bindE (fetch_raw it) (\<lambda>v.
     bindE (materialize its) (\<lambda>es.
     ret (\<lparr>we_type = it_type it, we_key = it_rid it, we_value = union_bytes v\<rparr> # es)))"

definition entry_slot :: "u64 \<Rightarrow> nat" where
  "entry_slot pos = unat ((pos - WAL_DATA_OFFSET) div WAL_ENTRY_SIZE)"

definition write_entries :: "u64 \<Rightarrow> wal_entry list \<Rightarrow> wal_file \<Rightarrow> wal_file" where
  "write_entries pos es f = f\<lparr>wf_entries := (\<lambda>i.
     if entry_slot pos \<le> i \<and> i < entry_slot pos + length es then es ! (i - entry_slot pos)
     else wf_entries f i)\<rparr>"

definition log_entries :: "wal_entry list \<Rightarrow> (wal_state, unit) kvm" where
  "log_entries es = (\<lambda>s.
     let size = of_nat (length es) * WAL_ENTRY_SIZE; pos = wl_header s in
     if pos + size \<le> WAL_FILE_SIZE then
       write_header (s\<lparr>wl_file := write_entries pos es (wl_file s), wl_header := pos + size\<rparr>)
     else (Inl (Fatal WalFileFull), s))"

definition wal_flush :: "(worker_state, unit) kvm" where
  "wal_flush =
     bindE (on_wal wal_init) (\<lambda>_.
     bindE (on_wal take_pending) (\<lambda>items.
     if items = [] then ret ()
     else bindE (on_fm (materialize items)) (\<lambda>es. on_wal (log_entries es))))"

text \<open>\<^verbatim>\<open>replaceString\<close> of the text member: a C string in the 540 bytes, or a read past them.\<close>

definition replay_entry :: "wal_entry \<Rightarrow> (file_map, unit) kvm" where
  "replay_entry e =
     (if we_type e = 0 then bindE (fm_replaceInt (we_key e) (le_word (take 4 (we_value e)))) (\<lambda>_. ret ())
      else if we_type e = 1 then bindE (fm_replaceFloat (we_key e) (le_word (take 4 (we_value e)))) (\<lambda>_. ret ())
      else if we_type e = 2 then
        (if 0 \<in> set (take STRING_LENGTH (we_value e))
         then bindE (fm_replaceString (we_key e) (take STRING_LENGTH (we_value e))) (\<lambda>_. ret ())
         else raise (Undefined OverRead))
      else if we_type e = 3 then bindE (fm_replaceTimestamp (we_key e) (le_word (take 8 (we_value e)))) (\<lambda>_. ret ())
      else raise (Fatal WalEntryType))"

primrec replay_entries :: "wal_entry list \<Rightarrow> (file_map, unit) kvm" where
  "replay_entries [] = ret ()"
| "replay_entries (e # es) = bindE (replay_entry e) (\<lambda>_. replay_entries es)"

definition logged_entries :: "wal_state \<Rightarrow> wal_entry list" where
  "logged_entries s = map (wf_entries (wl_file s)) [0..<entry_slot (wl_header s)]"

definition wal_replay :: "(worker_state, unit) kvm" where
  "wal_replay =
     bindE (on_wal wal_init) (\<lambda>_.
     bindE (on_wal (\<lambda>s. (Inr (logged_entries s), s))) (\<lambda>es. on_fm (replay_entries es)))"

section \<open>The payload carries the values\<close>

primrec fetch_all :: "wal_item list \<Rightarrow> (file_map, wal_value list) kvm" where
  "fetch_all [] = ret []"
| "fetch_all (it # its) = bindE (fetch_value it) (\<lambda>v. bindE (fetch_all its) (\<lambda>vs. ret (v # vs)))"

primrec store_value :: "rid \<Rightarrow> wal_value \<Rightarrow> (file_map, unit) kvm" where
  "store_value key (WInt v) = bindE (fm_replaceInt key v) (\<lambda>_. ret ())"
| "store_value key (WFloat v) = bindE (fm_replaceFloat key v) (\<lambda>_. ret ())"
| "store_value key (WText t) = bindE (fm_replaceString key (take (STRING_LENGTH - 1) t)) (\<lambda>_. ret ())"
| "store_value key (WTime v) = bindE (fm_replaceTimestamp key v) (\<lambda>_. ret ())"

primrec store_all :: "(rid \<times> wal_value) list \<Rightarrow> (file_map, unit) kvm" where
  "store_all [] = ret ()"
| "store_all (kv # kvs) = bindE (store_value (fst kv) (snd kv)) (\<lambda>_. store_all kvs)"

primrec value_type :: "wal_value \<Rightarrow> byte" where
  "value_type (WInt v) = 0"
| "value_type (WFloat v) = 1"
| "value_type (WText t) = 2"
| "value_type (WTime v) = 3"

primrec value_ok :: "wal_value \<Rightarrow> bool" where
  "value_ok (WInt v) = True"
| "value_ok (WFloat v) = True"
| "value_ok (WText t) = is_text t"
| "value_ok (WTime v) = True"

definition record_bytes :: "rid \<times> wal_value \<Rightarrow> byte list" where
  "record_bytes kv = value_type (snd kv) # le_bytes 2 (of_nat (length (value_bytes (snd kv))) :: u16)
     @ le_bytes 8 (fst kv) @ value_bytes (snd kv)"

lemma length_text_payload: "length (text_payload t) = min (length t) 539 + 1"
  by (simp add: text_payload_def STRING_LENGTH_def)

lemma length_value_bytes: "0 < length (value_bytes v) \<and> length (value_bytes v) \<le> 540"
  by (cases v) (simp_all add: length_text_payload)

lemma length_record_bytes: "length (record_bytes kv) = 11 + length (value_bytes (snd kv))"
  by (simp add: record_bytes_def)

lemma on_store_Inr:
  "on_store sel upd p m s = (Inr x, s') \<Longrightarrow> \<exists>st st'. sel s p = Some st \<and> m st = (Inr x, st')"
  by (auto simp: on_store_def split: option.splits prod.splits)

lemma ts_get_text: "ts_get key st = (Inr t, st') \<Longrightarrow> is_text t"
  by (auto simp: ts_get_def bindE_eq_Inr split: option.splits dest: read_cstr_text)

lemma fm_getString_text: "fm_getString key s = (Inr t, s') \<Longrightarrow> is_text t"
  by (auto simp: fm_getString_def part_get_def bindE_eq_Inr dest!: on_store_Inr ts_get_text)

lemma fetch_value_kind:
  assumes "fetch_value it s = (Inr v, s')"
  shows "ucast (it_type it) = value_type v" "value_ok v"
  using assms fm_getString_text
  by (auto simp: fetch_value_def bindE_eq_Inr split: if_splits)

lemma materialize_records_run:
  "materialize_records its out s = (Inr bs, s') \<Longrightarrow>
    \<exists>vs. fetch_all its s = (Inr vs, s') \<and> length vs = length its \<and> list_all value_ok vs
      \<and> bs = out @ concat (map record_bytes (zip (map it_rid its) vs))"
proof (induction its arbitrary: out s)
  case (Cons it its)
  from Cons.prems obtain v s1 out1 s2 where
    fetch: "fetch_value it s = (Inr v, s1)" and
    app: "append_record_value (out @ [ucast (it_type it)]) (it_rid it) (value_bytes v) s1 = (Inr out1, s2)" and
    rest: "materialize_records its out1 s2 = (Inr bs, s')"
    by (auto simp: bindE_eq_Inr)
  from app have out1: "out1 = out @ record_bytes (it_rid it, v)" and s2: "s2 = s1"
    using fetch_value_kind [OF fetch]
    by (auto simp: append_record_value_def bindE_eq_Inr record_bytes_def)
  from Cons.IH [OF rest] obtain vs where vs: "fetch_all its s1 = (Inr vs, s')" "length vs = length its"
    "list_all value_ok vs" "bs = out1 @ concat (map record_bytes (zip (map it_rid its) vs))"
    by (auto simp: s2)
  with fetch fetch_value_kind [OF fetch] out1 show ?case
    by (intro exI [of _ "v # vs"]) simp
qed simp

lemma take_text_payload: "is_text t \<Longrightarrow> cstr (take 539 (text_payload t)) = take 539 t"
proof -
  assume t: "is_text t"
  show ?thesis
  proof (cases "length t < 539")
    case True
    with t cstr_append_nul [of t "[]"] show ?thesis
      by (simp add: text_payload_def STRING_LENGTH_def)
  next
    case False
    with t show ?thesis
      by (simp add: text_payload_def STRING_LENGTH_def)
  qed
qed

lemma fm_replaceString_cstr: "fm_replaceString key v = fm_replaceString key (cstr v)"
  by (simp add: fm_replaceString_def ts_replace_def ts_write_def)

lemma replay_value_bytes:
  "value_ok v \<Longrightarrow> replay_value (value_type v) key (value_bytes v) = store_value key v"
proof (cases v)
  case (WText t)
  moreover assume "value_ok v"
  ultimately have "is_text t" by simp
  then have "fm_replaceString key (take 539 (text_payload t)) = fm_replaceString key (take 539 t)"
    by (subst fm_replaceString_cstr) (simp add: take_text_payload)
  with WText length_value_bytes [of v] show ?thesis
    by (auto simp: replay_value_def STRING_LENGTH_def bindE_def fun_eq_iff kvdb_check_def)
qed (auto simp: replay_value_def bindE_def fun_eq_iff kvdb_check_def)

lemma read_bytes_append [simp]:
  "read_bytes (Suc 0) (x # ys) = ret ([x], ys)"
  "read_bytes 2 (le_bytes 2 (w :: u16) @ ys) = ret (le_bytes 2 w, ys)"
  "read_bytes 8 (le_bytes 8 (k :: u64) @ ys) = ret (le_bytes 8 k, ys)"
  by (simp_all add: read_bytes_def kvdb_check_def fun_eq_iff)

lemma kvdb_check_ret: "b \<Longrightarrow> kvdb_check b c = ret ()"
  by (simp add: kvdb_check_def)

lemma replay_record:
  assumes "value_ok (snd kv)"
  shows "replay_records (Suc n) (record_bytes kv @ rest) =
    bindE (store_value (fst kv) (snd kv)) (\<lambda>_. replay_records n rest)"
proof -
  obtain key v where kv: "kv = (key, v)" by force
  have "unat (of_nat (length (value_bytes v)) :: u16) = length (value_bytes v)"
    using length_value_bytes [of v] by (simp add: unsigned_of_nat take_bit_nat_eq_self)
  with assms replay_value_bytes [of v key] show ?thesis
    by (simp add: kv record_bytes_def Let_def kvdb_check_ret)
qed

lemma replay_records_run:
  "list_all value_ok (map snd kvs) \<Longrightarrow>
    replay_records (length kvs) (concat (map record_bytes kvs)) s = store_all kvs s"
proof (induction kvs arbitrary: s)
  case (Cons kv kvs)
  then show ?case
    by (auto simp: replay_record bindE_def simp del: replay_records.simps split: prod.splits sum.splits)
qed simp

lemma header_fields:
  "take 8 (payload_header n @ rest) = payload_header n" "drop 8 (payload_header n @ rest) = rest"
  "le_word (take 4 (payload_header n)) = WAL_PAYLOAD_MAGIC"
  "le_word (take 2 (drop 4 (payload_header n))) = WAL_PAYLOAD_VERSION"
  "n \<le> 65535 \<Longrightarrow> unat (le_word (drop 6 (payload_header n)) :: u16) = n"
  by (simp_all add: payload_header_def unsigned_of_nat take_bit_nat_eq_self)

lemma length_payload_header [simp]: "length (payload_header n) = 8"
  by (simp add: payload_header_def)

lemma replay_payload_run:
  assumes "list_all value_ok (map snd kvs)" "length kvs \<le> 65535"
  shows "replay_payload (payload_header (length kvs) @ concat (map record_bytes kvs)) s = store_all kvs s"
  using assms by (simp add: replay_payload_def read_bytes_def header_fields replay_records_run kvdb_check_ret)

lemma materialize_payload_run:
  assumes "materialize_payload items s = (Inr bs, s')"
  shows "\<exists>vs. fetch_all items s = (Inr vs, s') \<and> length vs = length items \<and> list_all value_ok vs
    \<and> length items \<le> 65535
    \<and> bs = payload_header (length items) @ concat (map record_bytes (zip (map it_rid items) vs))"
  using assms materialize_records_run [of items "payload_header (length items)" s bs s']
  by (auto simp: materialize_payload_def bindE_eq_Inr)

lemma payload_roundtrip:
  assumes "materialize_payload items s = (Inr bs, s')"
  shows "\<exists>vs. fetch_all items s = (Inr vs, s') \<and> length vs = length items
    \<and> (\<forall>t. replay_payload bs t = store_all (zip (map it_rid items) vs) t)"
proof -
  obtain vs where vs: "fetch_all items s = (Inr vs, s')" "length vs = length items" "list_all value_ok vs"
    "length items \<le> 65535"
    "bs = payload_header (length items) @ concat (map record_bytes (zip (map it_rid items) vs))"
    using materialize_payload_run [OF assms] by blast
  then have "replay_payload bs t = store_all (zip (map it_rid items) vs) t" for t
    using replay_payload_run [of "zip (map it_rid items) vs" t] by (simp add: map_snd_zip)
  with vs show ?thesis by blast
qed

lemma length_records: "length (concat (map record_bytes kvs)) \<le> 551 * length kvs"
proof (induction kvs)
  case (Cons kv kvs)
  with length_value_bytes [of "snd kv"] show ?case
    by (simp add: length_record_bytes)
qed simp

lemma length_text_records:
  "list_all (\<lambda>kv. \<exists>t. snd kv = WText t \<and> 539 \<le> length t) kvs \<Longrightarrow>
    length (concat (map record_bytes kvs)) = 551 * length kvs"
  by (induction kvs) (auto simp: length_record_bytes length_text_payload)

section \<open>Accepted payloads are prefix-free\<close>

lemma read_bytes_Inr [simp]:
  "read_bytes n xs s = (Inr r, s') \<longleftrightarrow> n \<le> length xs \<and> r = (take n xs, drop n xs) \<and> s' = s"
  by (auto simp: read_bytes_def bindE_eq_Inr)

lemma replay_records_prefix_free:
  assumes "replay_records n xs s = (Inr u, s1)" "replay_records n (xs @ ys) s = (Inr w, s2)"
  shows "ys = []"
  using assms
proof (induction n arbitrary: xs s)
  case (Suc n)
  define r3 where "r3 = drop 8 (drop 2 (drop 1 xs))"
  define l where "l = unat (le_word (take 2 (drop 1 xs)) :: u16)"
  from Suc.prems(1) have len: "1 \<le> length xs" "2 \<le> length (drop 1 xs)" "8 \<le> length (drop 2 (drop 1 xs))"
    and l: "l \<le> length r3"
    by (auto simp: bindE_eq_Inr Let_def r3_def l_def)
  let ?v = "replay_value (hd (take 1 xs)) (le_word (take 8 (drop 2 (drop 1 xs)))) (take l r3)"
  from Suc.prems(1) obtain t where t: "?v s = (Inr (), t)" "replay_records n (drop l r3) t = (Inr u, s1)"
    by (auto simp: bindE_eq_Inr Let_def r3_def l_def)
  from Suc.prems(2) len l obtain t' where "?v s = (Inr (), t')"
    "replay_records n (drop l r3 @ ys) t' = (Inr w, s2)"
    by (auto simp: bindE_eq_Inr Let_def r3_def l_def)
  with t Suc.IH show ?case by auto
qed simp

lemma replay_payload_prefix_free:
  assumes "replay_payload xs s = (Inr u, s1)" "replay_payload (xs @ ys) s = (Inr w, s2)"
  shows "ys = []"
  using assms replay_records_prefix_free [of _ "drop 8 xs" s u s1 ys w s2]
  by (auto simp: replay_payload_def bindE_eq_Inr)

section \<open>The log file is append-only for one process\<close>

definition pos_of :: "nat \<Rightarrow> u64" where
  "pos_of k = WAL_DATA_OFFSET + of_nat k * WAL_ENTRY_SIZE"

definition max_entries :: nat where "max_entries = (2 ^ 32 - 4096) div 560"

lemma unat_pos_of: "k \<le> 2 ^ 40 \<Longrightarrow> unat (pos_of k) = 4096 + 560 * k"
proof -
  assume k: "k \<le> 2 ^ 40"
  have "pos_of k = of_nat (4096 + 560 * k)"
    by (simp add: pos_of_def WAL_DATA_OFFSET_def WAL_ENTRY_SIZE_def)
  moreover have "4096 + 560 * k < 2 ^ 64"
    using k by simp
  ultimately show ?thesis
    by (simp add: unsigned_of_nat take_bit_nat_eq_self del: of_nat_add of_nat_mult)
qed

lemma unat_pos_sub: "k \<le> 2 ^ 40 \<Longrightarrow> unat (pos_of k - WAL_DATA_OFFSET) = 560 * k"
proof -
  assume k: "k \<le> 2 ^ 40"
  have "pos_of k - WAL_DATA_OFFSET = of_nat (560 * k)"
    by (simp add: pos_of_def WAL_ENTRY_SIZE_def)
  moreover have "560 * k < 2 ^ 64"
    using k by simp
  ultimately show ?thesis
    by (simp add: unsigned_of_nat take_bit_nat_eq_self del: of_nat_mult)
qed

lemma entry_slot_pos_of [simp]: "k \<le> 2 ^ 40 \<Longrightarrow> entry_slot (pos_of k) = k"
  by (simp add: entry_slot_def unat_div unat_pos_sub) (simp add: WAL_ENTRY_SIZE_def)

lemma pos_of_add: "pos_of k + of_nat n * WAL_ENTRY_SIZE = pos_of (k + n)"
  by (simp add: pos_of_def algebra_simps)

lemma pos_of_fits: "k \<le> 2 ^ 40 \<Longrightarrow> pos_of k \<le> WAL_FILE_SIZE \<longleftrightarrow> k \<le> max_entries"
  by (simp add: word_le_nat_alt unat_pos_of WAL_FILE_SIZE_def max_entries_def) presburger

lemma log_entries_run:
  assumes "wl_header s = pos_of k" "k + length es \<le> max_entries"
  shows "\<exists>s'. log_entries es s = (Inr (), s') \<and> wl_header s' = pos_of (k + length es)
    \<and> wf_write_pos (wl_file s') = pos_of (k + length es)
    \<and> wf_entries (wl_file s') = (\<lambda>i. if k \<le> i \<and> i < k + length es then es ! (i - k) else wf_entries (wl_file s) i)"
proof -
  have "max_entries \<le> 2 ^ 40"
    by (simp add: max_entries_def)
  then have b: "k \<le> 2 ^ 40" "k + length es \<le> 2 ^ 40"
    using assms(2) by linarith+
  with assms show ?thesis
    by (simp add: log_entries_def Let_def pos_of_add pos_of_fits write_header_def write_entries_def
        cong: if_cong)
qed

lemma logged_entries_pos: "wl_header s = pos_of k \<Longrightarrow> k \<le> 2 ^ 40 \<Longrightarrow>
    logged_entries s = map (wf_entries (wl_file s)) [0..<k]"
  by (simp add: logged_entries_def)

lemma log_entries_append:
  assumes "wl_header s = pos_of k" "k + length es \<le> max_entries"
  shows "\<exists>s'. log_entries es s = (Inr (), s') \<and> logged_entries s' = logged_entries s @ es
    \<and> wl_header s' = pos_of (k + length es) \<and> wf_write_pos (wl_file s') = wl_header s'"
proof -
  obtain s' where s': "log_entries es s = (Inr (), s')" "wl_header s' = pos_of (k + length es)"
    "wf_write_pos (wl_file s') = pos_of (k + length es)"
    "wf_entries (wl_file s') = (\<lambda>i. if k \<le> i \<and> i < k + length es then es ! (i - k) else wf_entries (wl_file s) i)"
    using log_entries_run [OF assms] by blast
  have "max_entries \<le> 2 ^ 40"
    by (simp add: max_entries_def)
  then have b: "k \<le> 2 ^ 40" "k + length es \<le> 2 ^ 40"
    using assms(2) by linarith+
  have "logged_entries s' = logged_entries s @ es"
    unfolding logged_entries_pos [OF s'(2) b(2)] logged_entries_pos [OF assms(1) b(1)] s'(4)
    by (rule nth_equalityI) (auto simp: nth_append)
  with s' show ?thesis by auto
qed

section \<open>Replay and the key counter\<close>

lemma fs_replace_counter: "fs_replace sz key v s = (r, s') \<Longrightarrow> fs_cur_rid s' = fs_cur_rid s"
  by (auto simp: fs_replace_def split: if_splits)

lemma replace_then_put:
  assumes "unat (fs_cur_rid s) < MAX_ARRAY_ELE_NUM sz" "key = fs_cur_rid s"
  shows "\<exists>s1. fs_replace sz key v s = (Inr (), s1)
    \<and> (\<exists>s2. fs_put sz w s1 = (Inr key, s2) \<and> fs_get sz key s2 = (Inr w, s2))"
  using assms by (simp add: fs_replace_def fs_put_def fs_get_def Let_def)

section \<open>Properties\<close>

text \<open>A worker over a field store, with fresh crypto state, for the witnesses.\<close>

definition worker_of :: "kv_state \<Rightarrow> worker_state" where
  "worker_of k = \<lparr>ws_kv = k, ws_crypto = gcm_init plain_gcm \<lparr>cr_key = [], cr_iv = []\<rparr>,
     ws_wal = \<lparr>wl_init = False, wl_header = 0, wl_file = \<lparr>wf_magic = 0, wf_write_pos = 0,
       wf_entries = (\<lambda>_. \<lparr>we_type = 0, we_key = 0, we_value = []\<rparr>)\<rparr>, wl_pending_magic = 0, wl_pending = []\<rparr>,
     ws_mem = (\<lambda>_. 0)\<rparr>"


definition wal_empty :: wal_state where
  "wal_empty = \<lparr>wl_init = True, wl_header = pos_of 0, wl_file = \<lparr>wf_magic = WAL_MAGIC, wf_write_pos = pos_of 0,
     wf_entries = (\<lambda>_. \<lparr>we_type = 0, we_key = 0, we_value = []\<rparr>)\<rparr>, wl_pending_magic = PENDING_MAGIC, wl_pending = []\<rparr>"


text \<open>
  The append position is cached per process and never read again. When two workers have the
  log file open and both flush, the second overwrites the entries of the first: the file is then
  the same as if the first had never flushed.
\<close>

theorem second_flush_overwrites:
  assumes "wl_header a = pos_of n" "wl_header b = pos_of n" "wl_file b = wl_file a"
    "length es \<le> length fs" "n + length fs \<le> max_entries"
  shows "\<exists>a' b' b''. log_entries es a = (Inr (), a') \<and> log_entries fs (b\<lparr>wl_file := wl_file a'\<rparr>) = (Inr (), b')
    \<and> log_entries fs b = (Inr (), b'') \<and> wl_file b' = wl_file b''"
proof -
  have m: "n \<le> 2 ^ 40" "n + length es \<le> max_entries" "n + length es \<le> 2 ^ 40" "n + length fs \<le> 2 ^ 40"
    using assms(4,5) by (simp_all add: max_entries_def)
  with assms show ?thesis
    by (auto simp: log_entries_def Let_def pos_of_add pos_of_fits write_header_def write_entries_def fun_eq_iff
        cong: if_cong)
qed

theorem second_flush_overwrites_witness:
  "\<exists>a' b' b''. log_entries [\<lparr>we_type = 0, we_key = 3, we_value = [1]\<rparr>] wal_empty = (Inr (), a')
    \<and> log_entries [\<lparr>we_type = 0, we_key = 4, we_value = [2]\<rparr>] (wal_empty\<lparr>wl_file := wl_file a'\<rparr>) = (Inr (), b')
    \<and> log_entries [\<lparr>we_type = 0, we_key = 4, we_value = [2]\<rparr>] wal_empty = (Inr (), b'') \<and> wl_file b' = wl_file b''"
  by (rule second_flush_overwrites [where n = 0]) (simp_all add: wal_empty_def max_entries_def)

end
