(* ===== verification/Zeno_Recovery.thy ===== *)
theory Zeno_Recovery
  imports Zeno_Wal
begin

text \<open>
  Recovery through the payload path of the log: what \<^verbatim>\<open>materializeBatch\<close> writes and
  \<^verbatim>\<open>replayPayload\<close> does, over the view of the fields. The lemmas go up the calls: one value, one
  record, a batch of records, the encrypted payload.
\<close>

section \<open>Recovery\<close>

text \<open>The value of a logged field, in the view of a worker; what a record does to the view.\<close>

definition wal_has :: "fields \<Rightarrow> wal_item \<Rightarrow> wal_value \<Rightarrow> bool" where
  "wal_has f it v \<longleftrightarrow> \<not> islocal (it_rid it) \<and>
     (case v of
       WInt x \<Rightarrow> it_type it = 0 \<and> int_of f (it_rid it) = Some x
     | WFloat x \<Rightarrow> it_type it = 1 \<and> float_of f (it_rid it) = Some x
     | WText x \<Rightarrow> it_type it = 2 \<and> text_of f (it_rid it) = Some x
     | WTime x \<Rightarrow> it_type it = 3 \<and> time_of f (it_rid it) = Some x)"

definition wal_known :: "fields \<Rightarrow> rid \<times> wal_value \<Rightarrow> bool" where
  "wal_known f kv \<longleftrightarrow> \<not> islocal (fst kv) \<and>
     (case snd kv of
       WInt x \<Rightarrow> int_of f (fst kv) \<noteq> None
     | WFloat x \<Rightarrow> float_of f (fst kv) \<noteq> None
     | WText x \<Rightarrow> text_of f (fst kv) \<noteq> None
     | WTime x \<Rightarrow> time_of f (fst kv) \<noteq> None)"

definition wal_apply :: "rid \<times> wal_value \<Rightarrow> fields \<Rightarrow> fields" where
  "wal_apply kv f =
     (case snd kv of
       WInt x \<Rightarrow> f\<lparr>int_of := (int_of f)(fst kv \<mapsto> x)\<rparr>
     | WFloat x \<Rightarrow> f\<lparr>float_of := (float_of f)(fst kv \<mapsto> x)\<rparr>
     | WText x \<Rightarrow> f\<lparr>text_of := (text_of f)(fst kv \<mapsto> take (STRING_LENGTH - 1) x)\<rparr>
     | WTime x \<Rightarrow> f\<lparr>time_of := (time_of f)(fst kv \<mapsto> x)\<rparr>)"

abbreviation in_fm :: "(file_map, 'a) kvm \<Rightarrow> (kv_state, 'a) kvm" where
  "in_fm m \<equiv> zoom kv_fm kv_fm_update m"

lemma in_fm_bind: "in_fm (bindE m f) = bindE (in_fm m) (\<lambda>x. in_fm (f x))"
  by (rule ext) (simp add: zoom_def bindE_def split: prod.splits sum.splits)

lemma in_fm_ret [simp]: "in_fm (ret x) = ret x"
  by (rule ext) (simp add: zoom_def)

lemma fetch_value_ok:
  assumes "kv_ok k" "wal_has (kv_view k) it v"
  shows "\<exists>k'. in_fm (fetch_value it) k = (Inr v, k') \<and> kv_eqv k k' \<and> kv_ok k'"
proof (cases v)
  case (WInt x)
  with assms int_field.get_spec [of k "it_rid it" x] show ?thesis
    by (auto simp: wal_has_def fetch_value_def in_fm_bind getInt_def)
next
  case (WFloat x)
  with assms float_field.get_spec [of k "it_rid it" x] show ?thesis
    by (auto simp: wal_has_def fetch_value_def in_fm_bind getFloat_def)
next
  case (WText x)
  with assms text_field.get_spec [of k "it_rid it" x] show ?thesis
    by (auto simp: wal_has_def fetch_value_def in_fm_bind getText_def)
next
  case (WTime x)
  with assms time_field.get_spec [of k "it_rid it" x] show ?thesis
    by (auto simp: wal_has_def fetch_value_def in_fm_bind getTimestamp_def)
qed

lemma append_record_ok:
  "append_record_value (out @ [value_type v]) key (value_bytes v) = ret (out @ record_bytes (key, v))"
  using length_value_bytes [of v]
  by (auto simp: append_record_value_def record_bytes_def kvdb_check_def fun_eq_iff)

lemma wal_has_type: "wal_has f it v \<Longrightarrow> ucast (it_type it) = value_type v \<and> item_type_ok it"
  by (auto simp: wal_has_def item_type_ok_def split: wal_value.splits)

lemma materialize_records_ok:
  assumes "kv_ok k" "list_all2 (wal_has (kv_view k)) its vs"
  shows "\<exists>k'. in_fm (materialize_records its out) k
      = (Inr (out @ concat (map record_bytes (zip (map it_rid its) vs))), k') \<and> kv_eqv k k' \<and> kv_ok k'"
  using assms
proof (induction its arbitrary: vs k out)
  case Nil
  then show ?case by (simp add: zoom_def)
next
  case (Cons it its us)
  then obtain v vs where us: "us = v # vs" and hd: "wal_has (kv_view k) it v"
    and tl: "list_all2 (wal_has (kv_view k)) its vs"
    by (auto simp: list_all2_Cons1)
  from fetch_value_ok [OF Cons.prems(1) hd] obtain k1 where
    k1: "in_fm (fetch_value it) k = (Inr v, k1)" "kv_eqv k k1" "kv_ok k1"
    by blast
  from Cons.IH [OF k1(3), of vs "out @ record_bytes (it_rid it, v)"] tl kv_eqv_view [OF k1(2)] obtain k2 where
    "in_fm (materialize_records its (out @ record_bytes (it_rid it, v))) k1
      = (Inr ((out @ record_bytes (it_rid it, v)) @ concat (map record_bytes (zip (map it_rid its) vs))), k2)"
    "kv_eqv k1 k2" "kv_ok k2"
    by auto
  with k1 wal_has_type [OF hd] show ?case
    by (auto simp: us in_fm_bind append_record_ok intro: kv_eqv_trans)
qed

lemma list_all2_types: "list_all2 (wal_has f) its vs \<Longrightarrow> list_all item_type_ok its"
  by (induction rule: list_all2_induct) (auto dest: wal_has_type)
text \<open>Space for \<open>n\<close> more texts in every partition.\<close>

definition text_space :: "nat \<Rightarrow> kv_state \<Rightarrow> bool" where
  "text_space n s \<longleftrightarrow> (\<forall>p. unat (ts_cur_offset (ab_text (fm_abs (kv_fm s)) p)) + 540 * n \<le> STORE_SIZE)"

lemma text_spaceD: "text_space (Suc n) s \<Longrightarrow>
    unat (ts_cur_offset (ab_text (fm_abs (kv_fm s)) p)) + 540 + 540 * n \<le> STORE_SIZE"
  unfolding text_space_def by (drule spec [of _ p]) simp

lemma text_space_step:
  assumes "text_space (Suc n) k"
    "\<And>p. unat (ts_cur_offset (ab_text (fm_abs (kv_fm k')) p)) \<le> unat (ts_cur_offset (ab_text (fm_abs (kv_fm k)) p)) + 540"
  shows "text_space n k'"
  unfolding text_space_def
proof
  fix p
  show "unat (ts_cur_offset (ab_text (fm_abs (kv_fm k')) p)) + 540 * n \<le> STORE_SIZE"
    using text_spaceD [OF assms(1), of p] assms(2) [of p] by linarith
qed

lemma ts_replace_offset:
  assumes "ts_fits v st" "ts_replace key v st = (Inr (), st')"
  shows "unat (ts_cur_offset st') = unat (ts_cur_offset st) + length (cstr v) + 1"
proof -
  have "ts_write key v st = (Inr (), st')"
    using assms(2) by (auto simp: ts_replace_def bindE_eq_Inr)
  with ts_write_ok [OF assms(1), of key] unat_offset_add [of "ts_cur_offset st" "length (cstr v) + 1"] assms(1)
  show ?thesis
    by (auto simp: ts_fits_def)
qed

lemma length_cstr: "length (cstr t) \<le> length t"
  by (simp add: cstr_def length_takeWhile_le)

lemma store_text_ok:
  assumes ok: "kv_ok k" and sp: "text_space (Suc n) k" and loc: "\<not> islocal key"
    and known: "text_of (kv_view k) key = Some w" and len: "length t \<le> 539"
  shows "\<exists>k'. putText key t False 0 k = (Inr key, k') \<and> kv_ok k' \<and> text_space n k'
    \<and> kv_view k' = text_of_update (\<lambda>m. m(key \<mapsto> cstr t)) (kv_view k)"
proof -
  have l: "length (cstr t) \<le> 539"
    using len length_cstr [of t] by linarith
  have fits: "gfitsText t (rid_partition key) k"
    using sp l by (auto simp: text_space_def gfitsText_def ts_fits_def dest!: spec [of _ "rid_partition key"])
  from text_field.replace_spec [OF ok loc fits known, of 0] obtain k' where
    k': "putText key t False 0 k = (Inr key, k')" "kv_ok k'"
      "kv_view k' = text_of_update (\<lambda>m. m(key \<mapsto> cstr t)) (kv_view k)"
    by blast
  from text_field.put_replace_abs [OF ok loc fits known k'(1)] obtain st' where
    st': "ts_replace (rid_index key) t (ab_text (fm_abs (kv_fm k)) (rid_partition key)) = (Inr (), st')"
      "fm_abs (kv_fm k') = ab_text_update (\<lambda>f. f(rid_partition key := st')) (fm_abs (kv_fm k))"
    by blast
  have "unat (ts_cur_offset st') \<le> unat (ts_cur_offset (ab_text (fm_abs (kv_fm k)) (rid_partition key))) + 540"
    using ts_replace_offset [OF _ st'(1)] fits l by (simp add: gfitsText_def)
  then have "text_space n k'"
    by (intro text_space_step [OF sp]) (simp add: st'(2))
  with k' show ?thesis by blast
qed

lemma scalar_space:
  assumes "ab_text (fm_abs (kv_fm k')) = ab_text (fm_abs (kv_fm k))" "text_space (Suc n) k"
  shows "text_space n k'"
  by (rule text_space_step [OF assms(2)]) (simp add: assms(1))

lemma putInt_in_fm: "\<not> islocal key \<Longrightarrow> putInt key v False p = in_fm (fm_replaceInt key v)"
  and putFloat_in_fm: "\<not> islocal key \<Longrightarrow> putFloat key w False p = in_fm (fm_replaceFloat key w)"
  and putText_in_fm: "\<not> islocal key \<Longrightarrow> putText key t False p = in_fm (fm_replaceString key t)"
  and putTimestamp_in_fm: "\<not> islocal key \<Longrightarrow> putTimestamp key x False p = in_fm (fm_replaceTimestamp key x)"
  by (auto simp: putInt_def putFloat_def putText_def putTimestamp_def)

lemma store_value_ok:
  assumes ok: "kv_ok k" and sp: "text_space (Suc n) k" and known: "wal_known (kv_view k) kv"
    and val: "value_ok (snd kv)"
  shows "\<exists>k'. in_fm (store_value (fst kv) (snd kv)) k = (Inr (), k') \<and> kv_ok k' \<and> text_space n k'
    \<and> kv_view k' = wal_apply kv (kv_view k)"
proof -
  obtain key v where kv: "kv = (key, v)" by force
  with known have loc: "\<not> islocal key" by (simp add: wal_known_def)
  show ?thesis
  proof (cases v)
    case (WInt x)
    with known obtain w where w: "int_of (kv_view k) key = Some w"
      by (auto simp: kv wal_known_def)
    with int_field.replace_spec [OF ok loc _ w, of x 0] int_field.put_replace_abs [OF ok loc _ w, of x 0]
      scalar_space [OF _ sp] show ?thesis
      by (fastforce simp: kv WInt gfitsInt_def in_fm_bind wal_apply_def putInt_in_fm [OF loc])
  next
    case (WFloat x)
    with known obtain w where w: "float_of (kv_view k) key = Some w"
      by (auto simp: kv wal_known_def)
    with float_field.replace_spec [OF ok loc _ w, of x 0] float_field.put_replace_abs [OF ok loc _ w, of x 0]
      scalar_space [OF _ sp] show ?thesis
      by (fastforce simp: kv WFloat gfitsFloat_def in_fm_bind wal_apply_def putFloat_in_fm [OF loc])
  next
    case (WTime x)
    with known obtain w where w: "time_of (kv_view k) key = Some w"
      by (auto simp: kv wal_known_def)
    with time_field.replace_spec [OF ok loc _ w, of x 0] time_field.put_replace_abs [OF ok loc _ w, of x 0]
      scalar_space [OF _ sp] show ?thesis
      by (fastforce simp: kv WTime gfitsTimestamp_def in_fm_bind wal_apply_def putTimestamp_in_fm [OF loc])
  next
    case (WText t)
    with known obtain w where w: "text_of (kv_view k) key = Some w"
      by (auto simp: kv wal_known_def)
    with store_text_ok [OF ok sp loc w, of "take 539 t"] val show ?thesis
      by (auto simp: kv WText in_fm_bind wal_apply_def STRING_LENGTH_def putText_in_fm [OF loc])
  qed
qed

lemma wal_known_apply: "wal_known f kv \<Longrightarrow> wal_known (wal_apply kv' f) kv"
  by (auto simp: wal_known_def wal_apply_def split: wal_value.splits)

lemma store_all_ok:
  assumes "kv_ok k" "text_space (length kvs) k" "list_all (wal_known (kv_view k)) kvs" "list_all value_ok (map snd kvs)"
  shows "\<exists>k'. in_fm (store_all kvs) k = (Inr (), k') \<and> kv_ok k' \<and> kv_view k' = fold wal_apply kvs (kv_view k)"
  using assms
proof (induction kvs arbitrary: k)
  case Nil
  then show ?case by (simp add: zoom_def)
next
  case (Cons kv kvs)
  from store_value_ok [of k "length kvs" kv] Cons.prems obtain k1 where
    k1: "in_fm (store_value (fst kv) (snd kv)) k = (Inr (), k1)" "kv_ok k1" "text_space (length kvs) k1"
      "kv_view k1 = wal_apply kv (kv_view k)"
    by auto
  have "list_all (wal_known (kv_view k1)) kvs"
    using Cons.prems(3) by (auto simp: k1(4) list_all_iff wal_known_apply)
  from Cons.IH [OF k1(2,3) this] Cons.prems(4) k1 show ?case
    by (auto simp: in_fm_bind)
qed
lemma wal_has_value_ok: "wal_has (kv_view k) it v \<Longrightarrow> value_ok v"
  by (cases v) (auto simp: wal_has_def kv_view_def view_of_def field_val_def ts_val_def
      split: if_splits dest: read_cstr_text)

lemma gcm_pair:
  assumes "gcm_correct lib" "crypto_ok s"
  obtains out s1 where "gcm_encrypt lib pt s = ((0, out), s1)" "length out = length pt + 28"
    "\<And>s'. cr_key s' = cr_key s \<Longrightarrow> length pt < 2 ^ 32 \<Longrightarrow>
      \<exists>n. gcm_decrypt lib out s' = (0, pt, n) \<and> unat n = length pt"
proof -
  from encrypt_bytes_ok [OF assms, of pt] obtain ct s1 where
    ct: "encrypt_bytes lib pt (length pt + 28) s = (Inr ct, s1)" "length ct = length pt + 28"
      "\<And>s'. cr_key s' = cr_key s \<Longrightarrow> length pt < 2 ^ 32 \<Longrightarrow> decrypt_bytes lib ct (length pt) s' = (Inr pt, s')"
    by blast
  from ct(1) have "gcm_encrypt lib pt s = ((0, ct), s1)"
    by (auto simp: encrypt_bytes_def split: prod.splits if_splits)
  moreover have "\<exists>n. gcm_decrypt lib ct s' = (0, pt, n) \<and> unat n = length pt"
    if "cr_key s' = cr_key s" "length pt < 2 ^ 32" for s'
    using ct(3) [OF that] by (auto simp: decrypt_bytes_def split: prod.splits if_splits)
  ultimately show thesis
    using that ct(2) by blast
qed

lemma on_fm_run: "in_fm m (ws_kv s) = (r, k) \<Longrightarrow> on_fm m s = (r, s\<lparr>ws_kv := k\<rparr>)"
  by (simp add: on_fm_def on_kv_def zoom_def split: prod.splits)

abbreviation wal_records :: "wal_item list \<Rightarrow> wal_value list \<Rightarrow> byte list" where
  "wal_records items vs \<equiv> payload_header (length items) @ concat (map record_bytes (zip (map it_rid items) vs))"

lemma materializeBatch_ok:
  assumes "gcm_correct lib" "crypto_ok (ws_crypto s)" "kv_ok (ws_kv s)"
    "list_all2 (wal_has (kv_view (ws_kv s))) items vs" "items \<noteq> []" "length items \<le> 3000"
    "length (wal_records items vs) + 28 \<le> cap"
  shows "\<exists>k s1. materializeBatch lib items cap s = (Inr (snd (fst (gcm_encrypt lib (wal_records items vs) (ws_crypto s)))), s1)
    \<and> ws_kv s1 = k \<and> kv_eqv (ws_kv s) k \<and> kv_ok k"
proof -
  from materialize_records_ok [OF assms(3,4), of "payload_header (length items)"] obtain k where
    k: "in_fm (materialize_records items (payload_header (length items))) (ws_kv s) = (Inr (wal_records items vs), k)"
      "kv_eqv (ws_kv s) k" "kv_ok k"
    by blast
  have "in_fm (materialize_payload items) (ws_kv s) = (Inr (wal_records items vs), k)"
    using k(1) assms(6) by (simp add: materialize_payload_def kvdb_check_ret)
  note run = on_fm_run [OF this]
  obtain out c where enc: "gcm_encrypt lib (wal_records items vs) (ws_crypto s) = ((0, out), c)"
    using gcm_pair [OF assms(1,2)] by blast
  with run k assms list_all2_types [OF assms(4)] show ?thesis
    by (simp add: materializeBatch_def WAL_MATERIALIZE_RID_BATCH_SIZE_def kvdb_check_ret IV_SIZE_def TAG_SIZE_def
        on_crypto_def zoom_def bindE_def)
qed

lemma replayPayload_ok:
  assumes "gcm_correct lib" "crypto_ok c" "cr_key (ws_crypto t) = cr_key c"
    "length (wal_records items vs) < 2 ^ 32" "length vs = length items" "length items \<le> 65535"
    "list_all value_ok vs" "kv_ok (ws_kv t)" "text_space (length items) (ws_kv t)"
    "list_all (wal_known (kv_view (ws_kv t))) (zip (map it_rid items) vs)"
  shows "\<exists>t'. replayPayload lib (snd (fst (gcm_encrypt lib (wal_records items vs) c))) t = (Inr (), t')
    \<and> kv_ok (ws_kv t') \<and> kv_view (ws_kv t') = fold wal_apply (zip (map it_rid items) vs) (kv_view (ws_kv t))"
proof -
  let ?kvs = "zip (map it_rid items) vs" and ?bs = "wal_records items vs"
  obtain out c1 where enc: "gcm_encrypt lib ?bs c = ((0, out), c1)" "length out = length ?bs + 28"
    and dec: "\<And>s'. cr_key s' = cr_key c \<Longrightarrow> length ?bs < 2 ^ 32 \<Longrightarrow>
      \<exists>n. gcm_decrypt lib out s' = (0, ?bs, n) \<and> unat n = length ?bs"
    using gcm_pair [OF assms(1,2)] by blast
  from dec [OF assms(3,4)] obtain n where n: "gcm_decrypt lib out (ws_crypto t) = (0, ?bs, n)" "unat n = length ?bs"
    by blast
  have "replay_payload ?bs = store_all ?kvs"
    using replay_payload_run [of ?kvs] assms(5-7) by (intro ext) simp
  moreover from store_all_ok [of "ws_kv t" ?kvs] assms(5,7-10) obtain k' where
    k': "in_fm (store_all ?kvs) (ws_kv t) = (Inr (), k')" "kv_ok k'" "kv_view k' = fold wal_apply ?kvs (kv_view (ws_kv t))"
    by auto
  ultimately have "on_fm (replay_payload ?bs) t = (Inr (), t\<lparr>ws_kv := k'\<rparr>)"
    by (simp add: on_fm_run)
  moreover have "out \<noteq> []" "28 \<le> length out"
    using enc(2) by auto
  ultimately have "replayPayload lib out t = (Inr (), t\<lparr>ws_kv := k'\<rparr>)"
    using n enc(2) by (simp add: replayPayload_def on_crypto_def zoom_def bindE_def IV_SIZE_def TAG_SIZE_def)
  with enc(1) k' show ?thesis by simp
qed
section \<open>Properties\<close>



text \<open>
  C38. A payload is accepted only whole: if a payload replays, then neither a longer payload that
  starts with it nor a proper prefix of it replays in the same state.
\<close>

theorem wal_payload_not_truncatable:
  assumes "replay_payload xs s = (Inr (), s1)" "ys \<noteq> []"
  shows "(\<forall>s2. replay_payload (xs @ ys) s \<noteq> (Inr (), s2))
    \<and> (\<forall>us vs s2. xs = us @ vs \<longrightarrow> vs \<noteq> [] \<longrightarrow> replay_payload us s \<noteq> (Inr (), s2))"
  using assms replay_payload_prefix_free by blast

theorem wal_payload_not_truncatable_witness:
  "\<forall>s2. replay_payload (payload_header 0 @ [1]) (kv_fm (kv_init (\<lambda>_. True))) \<noteq> (Inr (), s2)"
proof -
  have "replay_payload (payload_header 0) (kv_fm (kv_init (\<lambda>_. True))) = (Inr (), kv_fm (kv_init (\<lambda>_. True)))"
    using replay_payload_run [of "[]"] by simp
  from conjunct1 [OF wal_payload_not_truncatable [OF this, of "[1]"]] show ?thesis by simp
qed

text \<open>
  The size of a batch is checked against 3000 identifiers, but the request buffer holds fewer
  long texts: a batch of 1816 to 3000 texts of 539 bytes or more passes the check and then fails
  for lack of space, which aborts the worker.
\<close>

theorem wal_long_texts_overflow:
  assumes "kv_ok (ws_kv s)" "list_all2 (wal_has (kv_view (ws_kv s))) items vs"
    "list_all (\<lambda>v. \<exists>t. v = WText t \<and> 539 \<le> length t) vs" "1816 \<le> length items" "length items \<le> 3000"
  shows "\<exists>s1. materializeBatch lib items (2 ^ 20 - 48024) s = (Inl (Fatal WalPayloadCapacity), s1)"
proof -
  from materialize_records_ok [OF assms(1,2), of "payload_header (length items)"] obtain k where
    "in_fm (materialize_records items (payload_header (length items))) (ws_kv s) = (Inr (wal_records items vs), k)"
    by blast
  then have "in_fm (materialize_payload items) (ws_kv s) = (Inr (wal_records items vs), k)"
    using assms(5) by (simp add: materialize_payload_def kvdb_check_ret)
  note run = on_fm_run [OF this]
  have len: "length vs = length items"
    using assms(2) by (simp add: list_all2_lengthD)
  have "length (concat (map record_bytes (zip (map it_rid items) vs))) = 551 * length items"
    using length_text_records [of "zip (map it_rid items) vs"] assms(3) len
    by (simp add: list_all_length)
  then have "\<not> length (wal_records items vs) + 28 \<le> 2 ^ 20 - 48024"
    using assms(4) by simp
  moreover have "items \<noteq> []"
    using assms(4) by auto
  ultimately show ?thesis
    using run assms(5) list_all2_types [OF assms(2)]
    by (simp add: materializeBatch_def WAL_MATERIALIZE_RID_BATCH_SIZE_def kvdb_check_ret IV_SIZE_def TAG_SIZE_def bindE_def)
qed

theorem wal_long_texts_overflow_witness:
  "\<exists>key k s1. text_of (kv_view k) key = Some (replicate 539 97)
    \<and> materializeBatch plain_gcm (replicate 1816 \<lparr>it_type = 2, it_rid = key\<rparr>) (2 ^ 20 - 48024) (worker_of k)
      = (Inl (Fatal WalPayloadCapacity), s1)"
proof -
  let ?t = "replicate 539 (97 :: byte)"
  have t: "is_text ?t" "cstr ?t = ?t"
    by (simp_all add: is_text_def)
  have "kv_usable (kv_init (\<lambda>_. True)) 7" "groomText ?t 7 (kv_init (\<lambda>_. True))"
    by (simp_all add: kv_init_usable kv_init_groomText RID_LOCAL_PARTITION_val t text_store_sizes)
  from text_field.put_global_spec [OF kv_ok_init this] obtain key k where
    k: "kv_ok k" "\<not> islocal key" "kv_view k = text_of_update (\<lambda>m. m(key \<mapsto> cstr ?t)) (kv_view (kv_init (\<lambda>_. True)))"
    by blast
  then have val: "text_of (kv_view k) key = Some ?t"
    by (simp add: t)
  let ?items = "replicate 1816 \<lparr>it_type = 2, it_rid = key\<rparr>" and ?vs = "replicate 1816 (WText ?t)"
  have "list_all2 (wal_has (kv_view (ws_kv (worker_of k)))) ?items ?vs"
    using val k(2) by (simp add: list_all2_conv_all_nth wal_has_def worker_of_def)
  moreover have "list_all (\<lambda>v. \<exists>t. v = WText t \<and> 539 \<le> length t) ?vs"
    by (simp add: list_all_length)
  moreover have "kv_ok (ws_kv (worker_of k))"
    using k(1) by (simp add: worker_of_def)
  ultimately show ?thesis
    using wal_long_texts_overflow [of "worker_of k" ?items ?vs plain_gcm] val by auto
qed

text \<open>
  Replay restores values but not the allocation counter of the mapping: after the record of
  an identifier that the counter has not passed is replayed, the next put in that partition
  hands out the same identifier and overwrites the recovered value.
\<close>

theorem replayed_identifier_is_reused:
  fixes k :: kv_state and p :: rid
  defines "key \<equiv> make_partitioned_rid p (fs_cur_rid (ab_int (fm_abs (kv_fm k)) p))"
  assumes "kv_ok k" "kv_usable k p" "groomInt 0 p k"
  shows "\<exists>k1 k2 k3 k4. in_fm (replay_value 0 key (le_bytes 4 v)) k = (Inr (), k1)
    \<and> getInt key k1 = (Inr v, k2)
    \<and> putInt INVALID_RID w False p k2 = (Inr key, k3) \<and> getInt key k3 = (Inr w, k4)"
proof -
  let ?a = "fm_abs (kv_fm k)"
  define i where "i = fs_cur_rid (ab_int ?a p)"
  from assms(3) have p: "p < 2 ^ 16" "ab_usable ?a p" "p \<noteq> RID_LOCAL_PARTITION"
    by (auto simp: kv_usable_def dest: ab_usable_not_local)
  from assms(4) have room: "unat i < MAX_ARRAY_ELE_NUM 4"
    by (simp add: groomInt_def fs_room_def i_def)
  have i: "idx_ok i" "i \<le> RID_MASK"
    using fs_put_ok(4) [of 4 0 "ab_int ?a p"] assms(4) by (simp_all add: groomInt_def i_def flip: idx_ok_mask)
  have key: "rid_partition key = p" "rid_index key = i" "\<not> islocal key" "key = make_partitioned_rid p i"
    using p i islocal_make [OF p(1)] by (simp_all add: key_def i_def [symmetric] rid_partition_make)
  let ?st1 = "(ab_int ?a p)\<lparr>fs_store := (fs_store (ab_int ?a p))(unat i := v)\<rparr>"
  have "fs_replace 4 i v (ab_int ?a p) = (Inr (), ?st1)"
    using room by (simp add: fs_replace_def)
  from int_kind.part_replace_abs [of "kv_fm k" key "\<lambda>i. fs_replace 4 i v", unfolded key(1,2), OF _ p(2) this] assms(2)
  obtain fm1 where fm1: "fm_replaceInt key v (kv_fm k) = (Inr key, fm1)"
      "fm_abs fm1 = ab_int_update (\<lambda>f. f(p := ?st1)) ?a" "fm_ok fm1"
    by (auto simp: kv_ok_def fm_replaceInt_def)
  have us1: "ab_usable (fm_abs fm1) p"
    using p(2) by (simp add: fm1(2))
  have "fs_get 4 i (ab_int (fm_abs fm1) p) = (Inr v, ab_int (fm_abs fm1) p)"
    using room by (simp add: fm1(2) fs_get_def)
  from int_kind.part_get_abs [of fm1 key "fs_get 4", unfolded key(1,2), OF fm1(3) us1 this] obtain fm2 where
    fm2: "fm_getInt key fm1 = (Inr v, fm2)" "fm_abs fm2 = fm_abs fm1" "fm_ok fm2"
    by (auto simp: fm_getInt_def)
  let ?st3 = "?st1\<lparr>fs_cur_rid := i + 1, fs_store := (fs_store ?st1)(unat i := w)\<rparr>"
  have "fs_put 4 w (ab_int (fm_abs fm2) p) = (Inr i, ?st3)"
    using room by (simp add: fm2(2) fm1(2) fs_put_def Let_def flip: i_def)
  from int_kind.part_put_abs [of fm2 p "fs_put 4 w", OF fm2(3) _ this i(2)] us1 obtain fm3 where
    fm3: "fm_putInt w p fm2 = (Inr key, fm3)" "ab_int (fm_abs fm3) p = ?st3" "ab_usable (fm_abs fm3) p" "fm_ok fm3"
    by (auto simp: fm_putInt_def fm2(2) key(4))
  have "fs_get 4 i (ab_int (fm_abs fm3) p) = (Inr w, ab_int (fm_abs fm3) p)"
    using room by (simp add: fm3(2) fs_get_def)
  from int_kind.part_get_abs [of fm3 key "fs_get 4", unfolded key(1,2), OF fm3(4,3) this] obtain fm4 where
    "fm_getInt key fm3 = (Inr w, fm4)"
    by (auto simp: fm_getInt_def)
  with fm1(1) fm2(1) fm3(1) key(3) show ?thesis
    by (auto simp: replay_value_def in_fm_bind getInt_def putInt_def zoom_def bindE_def)
qed

theorem replayed_identifier_is_reused_witness:
  "\<exists>k key k1 k2 k3 k4. in_fm (replay_value 0 key (le_bytes 4 (11 :: i32))) k = (Inr (), k1)
    \<and> getInt key k1 = (Inr 11, k2) \<and> putInt INVALID_RID 12 False 7 k2 = (Inr key, k3) \<and> getInt key k3 = (Inr 12, k4)"
proof -
  have "kv_usable (kv_init (\<lambda>_. True)) 7"
    by (simp add: kv_init_usable RID_LOCAL_PARTITION_val)
  from replayed_identifier_is_reused [OF kv_ok_init this kv_init_room(5), of 11 12] show ?thesis
    by blast
qed

end
