(* ===== verification/Zeno_Like.thy ===== *)
theory Zeno_Like
  imports Zeno_Prelude
begin

text \<open>
  The pattern matcher behind the SQL operator \<^verbatim>\<open>LIKE\<close> (\<^verbatim>\<open>MatchText\<close> of
  \<^verbatim>\<open>src/src/privacy_zone/tee.cpp\<close>). A pair of a pointer and a length is a list of bytes. The
  outer loop of \<^verbatim>\<open>MatchText\<close> is \<open>match_loop\<close>, its wildcard-skipping loop \<open>skip_wild\<close>, its search
  loop \<open>match_scan\<close>, its closing loop the \<open>dropWhile\<close> of \<open>match_end\<close>. The reference is the
  language of a pattern, \<open>like_lang\<close>; the matcher decides membership in it.
\<close>

section \<open>The matcher\<close>

definition PERCENT :: byte where "PERCENT = 37"
definition UNDERSCORE :: byte where "UNDERSCORE = 95"
definition BACKSLASH :: byte where "BACKSLASH = 92"

definition LIKE_TRUE :: int where "LIKE_TRUE = 1"
definition LIKE_FALSE :: int where "LIKE_FALSE = 0"
definition LIKE_ABORT :: int where "LIKE_ABORT = 0"

fun skip_wild :: "byte list \<Rightarrow> byte list \<Rightarrow> (byte list \<times> byte list) option" where
  "skip_wild t [] = Some (t, [])"
| "skip_wild t (c # p) =
     (if c = PERCENT then skip_wild t p
      else if c = UNDERSCORE then (case t of [] \<Rightarrow> None | _ # t' \<Rightarrow> skip_wild t' p)
      else Some (t, c # p))"

definition match_end :: "byte list \<Rightarrow> byte list \<Rightarrow> int" where
  "match_end t p =
     (if t \<noteq> [] then LIKE_FALSE
      else if dropWhile (\<lambda>c. c = PERCENT) p = [] then LIKE_TRUE
      else LIKE_ABORT)"

lemma skip_wild_length: "skip_wild t p = Some (t', p') \<Longrightarrow> length p' \<le> length p"
  by (induction t p rule: skip_wild.induct) (auto split: if_splits list.splits)

function (sequential) MatchText :: "byte list \<Rightarrow> byte list \<Rightarrow> int"
  and match_loop :: "byte list \<Rightarrow> byte list \<Rightarrow> int"
  and match_scan :: "byte \<Rightarrow> byte list \<Rightarrow> byte list \<Rightarrow> int" where
  "MatchText t p = (if p = [PERCENT] then LIKE_TRUE else match_loop t p)"
| "match_loop (a # t) (c # p) =
     (if c = BACKSLASH then
        (case p of
          [] \<Rightarrow> LIKE_ABORT
        | e # p' \<Rightarrow> if e \<noteq> a then LIKE_FALSE else match_loop t p')
      else if c = PERCENT then
        (case skip_wild (a # t) p of
          None \<Rightarrow> LIKE_ABORT
        | Some (t', []) \<Rightarrow> LIKE_TRUE
        | Some (t', f # p') \<Rightarrow>
            if f = BACKSLASH then
              (case p' of
                [] \<Rightarrow> LIKE_ABORT
              | e # _ \<Rightarrow> match_scan e t' (f # p'))
            else match_scan f t' (f # p'))
      else if c = UNDERSCORE then match_loop t p
      else if c \<noteq> a then LIKE_FALSE
      else match_loop t p)"
| "match_loop t p = match_end t p"
| "match_scan firstpat [] p = LIKE_ABORT"
| "match_scan firstpat (a # t) p =
     (if a = firstpat \<and> MatchText (a # t) p \<noteq> LIKE_FALSE then MatchText (a # t) p
      else match_scan firstpat t p)"
  by pat_completeness auto
termination
  by (relation "inv_image (less_than <*lex*> less_than <*lex*> less_than) (\<lambda>x. case x of
      Inl (t, p) \<Rightarrow> (length p, length t, 1)
    | Inr (Inl (t, p)) \<Rightarrow> (length p, length t, 0)
    | Inr (Inr (c, t, p)) \<Rightarrow> (length p, length t, 2 :: nat))")
    (auto dest: skip_wild_length)

section \<open>The language of a pattern\<close>

datatype like_tok = AnyString | AnyChar | Literal byte

fun like_toks :: "byte list \<Rightarrow> like_tok list option" where
  "like_toks [] = Some []"
| "like_toks (c # p) =
     (if c = BACKSLASH then
        (case p of [] \<Rightarrow> None | e # p' \<Rightarrow> map_option (Cons (Literal e)) (like_toks p'))
      else map_option (Cons (if c = PERCENT then AnyString
        else if c = UNDERSCORE then AnyChar else Literal c)) (like_toks p))"

primrec tok_lang :: "like_tok \<Rightarrow> byte list set" where
  "tok_lang AnyString = UNIV"
| "tok_lang AnyChar = {[c] | c. True}"
| "tok_lang (Literal c) = {[c]}"

primrec like_lang :: "like_tok list \<Rightarrow> byte list set" where
  "like_lang [] = {[]}"
| "like_lang (k # ks) = {u @ v | u v. u \<in> tok_lang k \<and> v \<in> like_lang ks}"

definition like_spec :: "byte list \<Rightarrow> byte list \<Rightarrow> bool" where
  "like_spec t p \<longleftrightarrow> (case like_toks p of None \<Rightarrow> False | Some ks \<Rightarrow> t \<in> like_lang ks)"

section \<open>The matcher decides the language\<close>

lemmas like_results = LIKE_TRUE_def LIKE_FALSE_def LIKE_ABORT_def

lemma wild_distinct [simp]:
  "PERCENT \<noteq> UNDERSCORE" "UNDERSCORE \<noteq> PERCENT" "PERCENT \<noteq> BACKSLASH" "BACKSLASH \<noteq> PERCENT"
  "UNDERSCORE \<noteq> BACKSLASH" "BACKSLASH \<noteq> UNDERSCORE"
  by (simp_all add: PERCENT_def UNDERSCORE_def BACKSLASH_def)

lemma like_spec_Nil [simp]: "like_spec t [] \<longleftrightarrow> t = []"
  by (simp add: like_spec_def)

lemma like_spec_percent: "like_spec t (PERCENT # p) \<longleftrightarrow> (\<exists>u v. t = u @ v \<and> like_spec v p)"
  by (auto simp: like_spec_def split: option.splits)

lemma like_spec_underscore [simp]:
  "like_spec t (UNDERSCORE # p) \<longleftrightarrow> (\<exists>c v. t = c # v \<and> like_spec v p)"
  by (auto simp: like_spec_def split: option.splits) (metis append_Cons append_Nil)

lemma like_spec_escape [simp]:
  "\<not> like_spec t [BACKSLASH]"
  "like_spec t (BACKSLASH # e # p) \<longleftrightarrow> (\<exists>v. t = e # v \<and> like_spec v p)"
  by (auto simp: like_spec_def split: option.splits)

lemma like_spec_literal:
  "c \<noteq> BACKSLASH \<Longrightarrow> c \<noteq> PERCENT \<Longrightarrow> c \<noteq> UNDERSCORE \<Longrightarrow>
    like_spec t (c # p) \<longleftrightarrow> (\<exists>v. t = c # v \<and> like_spec v p)"
  by (auto simp: like_spec_def split: option.splits)

lemma like_spec_percent_Nil: "like_spec [] (PERCENT # p) \<longleftrightarrow> like_spec [] p"
  by (simp add: like_spec_percent)

lemma like_spec_percent_Cons:
  "like_spec (a # t) (PERCENT # p) \<longleftrightarrow> like_spec (a # t) p \<or> like_spec t (PERCENT # p)"
  unfolding like_spec_percent by (metis append_Cons append_Nil append_eq_Cons_conv)

lemma like_spec_percent_percent [simp]:
  "like_spec t (PERCENT # PERCENT # p) \<longleftrightarrow> like_spec t (PERCENT # p)"
  unfolding like_spec_percent by (metis append.assoc append_Nil)

lemma like_spec_percent_underscore:
  "like_spec t (PERCENT # UNDERSCORE # p) \<longleftrightarrow> (\<exists>c v. t = c # v \<and> like_spec v (PERCENT # p))"
proof (induction t)
  case (Cons a t)
  then show ?case
    by (cases t) (auto simp: like_spec_percent_Cons like_spec_percent_Nil)
qed (simp add: like_spec_percent_Nil)

lemma skip_wild_spec:
  "like_spec t (PERCENT # p) \<longleftrightarrow>
    (case skip_wild t p of None \<Rightarrow> False | Some (t', p') \<Rightarrow> like_spec t' (PERCENT # p'))"
  by (induction t p rule: skip_wild.induct)
    (auto simp: like_spec_percent_underscore split: list.splits)

lemma skip_wild_literal:
  "skip_wild t p = Some (t', f # p') \<Longrightarrow> f \<noteq> PERCENT \<and> f \<noteq> UNDERSCORE"
  by (induction t p rule: skip_wild.induct) (auto split: if_splits list.splits)

lemma like_spec_percent_all [simp]: "like_spec t [PERCENT]"
  by (simp add: like_spec_percent)

lemma like_spec_empty_text: "like_spec [] p \<longleftrightarrow> dropWhile (\<lambda>c. c = PERCENT) p = []"
proof (induction p)
  case (Cons c p)
  show ?case
  proof (cases "c = BACKSLASH")
    case True
    then show ?thesis by (cases p) auto
  next
    case False
    with Cons show ?thesis
      by (cases "c = UNDERSCORE") (auto simp: like_spec_percent_Nil like_spec_literal)
  qed
qed simp

text \<open>The first byte the search compares with is the first byte of every match.\<close>

definition first_literal :: "byte \<Rightarrow> byte list \<Rightarrow> bool" where
  "first_literal c p \<longleftrightarrow> (\<exists>p'. p = BACKSLASH # c # p') \<or>
     (\<exists>p'. p = c # p' \<and> c \<noteq> BACKSLASH \<and> c \<noteq> PERCENT \<and> c \<noteq> UNDERSCORE)"

lemma first_literal_spec: "first_literal c p \<Longrightarrow> like_spec t p \<Longrightarrow> \<exists>v. t = c # v"
  by (auto simp: first_literal_def like_spec_literal)

definition decides :: "int \<Rightarrow> bool \<Rightarrow> bool" where
  "decides r b \<longleftrightarrow> r = (if b then LIKE_TRUE else LIKE_FALSE)"

lemma match_end_correct:
  "decides (match_end [] p) (like_spec [] p)"
  "decides (match_end t []) (like_spec t [])"
  by (cases p; auto simp: decides_def match_end_def like_spec_empty_text like_results)+

lemma match_correct:
  "decides (MatchText t p) (like_spec t p)"
  "decides (match_loop t p) (like_spec t p)"
  "first_literal c p \<Longrightarrow> decides (match_scan c t p) (like_spec t (PERCENT # p))"
proof (induction t p and t p and c t p rule: MatchText_match_loop_match_scan.induct)
  case (1 t p)
  then show ?case by (auto simp: decides_def)
next
  case (2 a t c p)
  consider (esc) "c = BACKSLASH" | (pct) "c = PERCENT" | (other) "c \<noteq> BACKSLASH" "c \<noteq> PERCENT"
    by blast
  then show ?case
  proof cases
    case esc
    with 2(1) show ?thesis
      by (cases p) (auto simp: decides_def like_results)
  next
    case pct
    show ?thesis
    proof (cases "skip_wild (a # t) p")
      case None
      with pct skip_wild_spec [of "a # t" p] show ?thesis
        by (simp add: decides_def like_results)
    next
      case (Some tp)
      obtain t' p' where tp: "tp = (t', p')" by force
      with Some skip_wild_spec [of "a # t" p]
      have sp: "like_spec (a # t) (PERCENT # p) \<longleftrightarrow> like_spec t' (PERCENT # p')" by simp
      show ?thesis
      proof (cases p')
        case Nil
        with pct Some tp sp show ?thesis by (simp add: decides_def)
      next
        case (Cons f q)
        with Some tp have "f \<noteq> PERCENT" "f \<noteq> UNDERSCORE"
          using skip_wild_literal by blast+
        with pct Some tp sp Cons 2(2) [OF _ pct Some tp [symmetric] Cons] 2(3) [OF _ pct Some tp [symmetric] Cons] show ?thesis
          by (cases q) (auto simp: decides_def first_literal_def like_results like_spec_percent)
      qed
    qed
  next
    case other
    with 2(4,5) show ?thesis
      by (cases "c = UNDERSCORE") (auto simp: decides_def like_spec_literal like_results)
  qed
next
  case "3_1"
  then show ?case by (simp add: match_end_correct)
next
  case "3_2"
  then show ?case using match_end_correct(2) by simp
next
  case (4 c p)
  then show ?case
    using first_literal_spec [of c p "[]"] by (auto simp: decides_def like_spec_percent_Nil like_results)
next
  case (5 c a t p)
  then show ?case
    using first_literal_spec [of c p "a # t"]
    by (auto simp: decides_def like_spec_percent_Cons like_results)
qed

section \<open>Properties\<close>

text \<open>
  C4. \<^verbatim>\<open>MatchText\<close> decides \<^verbatim>\<open>LIKE\<close>: it answers \<^verbatim>\<open>LIKE_TRUE\<close> exactly when the text is in the
  language of the pattern (percent for any string, underscore for any byte, backslash for the
  byte after it, a trailing backslash for nothing), for all texts and patterns.
\<close>

theorem MatchText_decides_like:
  "MatchText t p = (if like_spec t p then LIKE_TRUE else LIKE_FALSE)"
  using match_correct(1) [of t p] by (simp add: decides_def)

end
