(* ===== verification/Zeno_Float.thy ===== *)
theory Zeno_Float
  imports Zeno_Prelude
begin

text \<open>
  The binary floating point arithmetic that the float operators of
  \<^verbatim>\<open>src/src/privacy_zone/tee.cpp\<close> take from C++: IEEE 754 \<^verbatim>\<open>float\<close> and \<^verbatim>\<open>double\<close> on bit
  patterns, rounding to nearest, ties to even. A pattern is read as a natural number; \<open>fp_mag\<close>
  is the magnitude of a finite value in units of the least subnormal number, so that every
  exact sum, product and quotient is a fraction of naturals which \<open>fp_round\<close> brings back to
  the format. IEEE 754 leaves the payload of a NaN result open; the model returns the quiet NaN
  with an empty payload.
\<close>

section \<open>Formats\<close>

record fp_format =
  mbits :: nat
  ebits :: nat

definition binary32 :: fp_format where "binary32 = \<lparr>mbits = 23, ebits = 8\<rparr>"
definition binary64 :: fp_format where "binary64 = \<lparr>mbits = 52, ebits = 11\<rparr>"

definition fp_sign :: "fp_format \<Rightarrow> nat \<Rightarrow> bool" where
  "fp_sign F b \<longleftrightarrow> odd (b div 2 ^ (mbits F + ebits F))"

definition fp_abs :: "fp_format \<Rightarrow> nat \<Rightarrow> nat" where
  "fp_abs F b = b mod 2 ^ (mbits F + ebits F)"

definition fp_pack :: "fp_format \<Rightarrow> bool \<Rightarrow> nat \<Rightarrow> nat" where
  "fp_pack F s b = (if s then 2 ^ (mbits F + ebits F) + b else b)"

definition fp_inf :: "fp_format \<Rightarrow> nat" where
  "fp_inf F = (2 ^ ebits F - 1) * 2 ^ mbits F"

definition fp_nan :: "fp_format \<Rightarrow> nat" where
  "fp_nan F = fp_inf F + 2 ^ (mbits F - 1)"

definition is_nan :: "fp_format \<Rightarrow> nat \<Rightarrow> bool" where
  "is_nan F b \<longleftrightarrow> fp_inf F < fp_abs F b"

definition is_inf :: "fp_format \<Rightarrow> nat \<Rightarrow> bool" where
  "is_inf F b \<longleftrightarrow> fp_abs F b = fp_inf F"

definition is_fin :: "fp_format \<Rightarrow> nat \<Rightarrow> bool" where
  "is_fin F b \<longleftrightarrow> fp_abs F b < fp_inf F"

text \<open>The exponent of the least subnormal: 149 for \<^verbatim>\<open>float\<close>, 1074 for \<^verbatim>\<open>double\<close>.\<close>

definition fp_unit :: "fp_format \<Rightarrow> nat" where
  "fp_unit F = 2 ^ (ebits F - 1) - 2 + mbits F"

definition mag_of :: "fp_format \<Rightarrow> nat \<Rightarrow> nat" where
  "mag_of F a =
     (if a div 2 ^ mbits F = 0 then a
      else (2 ^ mbits F + a mod 2 ^ mbits F) * 2 ^ (a div 2 ^ mbits F - 1))"

definition fp_mag :: "fp_format \<Rightarrow> nat \<Rightarrow> nat" where
  "fp_mag F b = mag_of F (fp_abs F b)"

definition fp_val :: "fp_format \<Rightarrow> nat \<Rightarrow> int" where
  "fp_val F b = (if fp_sign F b then - int (fp_mag F b) else int (fp_mag F b))"

section \<open>Rounding\<close>

fun bit_length :: "nat \<Rightarrow> nat" where
  "bit_length n = (if n = 0 then 0 else Suc (bit_length (n div 2)))"

definition round_half_even :: "nat \<Rightarrow> nat \<Rightarrow> nat" where
  "round_half_even n d =
     (let q = n div d; r = n mod d
      in if 2 * r < d \<or> 2 * r = d \<and> even q then q else Suc q)"

definition fp_round_abs :: "fp_format \<Rightarrow> nat \<Rightarrow> nat \<Rightarrow> nat" where
  "fp_round_abs F n d =
     (let k = bit_length (n div d) - Suc (mbits F)
      in min (fp_inf F) (k * 2 ^ mbits F + round_half_even n (d * 2 ^ k)))"

definition fp_round :: "fp_format \<Rightarrow> bool \<Rightarrow> nat \<Rightarrow> nat \<Rightarrow> nat" where
  "fp_round F s n d = fp_pack F s (fp_round_abs F n d)"

section \<open>Operations\<close>

definition fp_neg :: "fp_format \<Rightarrow> nat \<Rightarrow> nat" where
  "fp_neg F b = fp_pack F (\<not> fp_sign F b) (fp_abs F b)"

definition fp_add :: "fp_format \<Rightarrow> nat \<Rightarrow> nat \<Rightarrow> nat" where
  "fp_add F a b =
     (if is_nan F a \<or> is_nan F b then fp_nan F
      else if is_inf F a then
        (if is_inf F b \<and> fp_sign F a \<noteq> fp_sign F b then fp_nan F else a)
      else if is_inf F b then b
      else let v = fp_val F a + fp_val F b
           in if v = 0 then fp_pack F (fp_sign F a \<and> fp_sign F b) 0
              else fp_round F (v < 0) (nat \<bar>v\<bar>) 1)"

definition fp_sub :: "fp_format \<Rightarrow> nat \<Rightarrow> nat \<Rightarrow> nat" where
  "fp_sub F a b = (if is_nan F b then fp_nan F else fp_add F a (fp_neg F b))"

definition fp_mult :: "fp_format \<Rightarrow> nat \<Rightarrow> nat \<Rightarrow> nat" where
  "fp_mult F a b =
     (let s = (fp_sign F a \<noteq> fp_sign F b)
      in if is_nan F a \<or> is_nan F b then fp_nan F
         else if is_inf F a \<or> is_inf F b then
           (if fp_mag F a = 0 \<or> fp_mag F b = 0 then fp_nan F else fp_pack F s (fp_inf F))
         else fp_round F s (fp_mag F a * fp_mag F b) (2 ^ fp_unit F))"

definition fp_div :: "fp_format \<Rightarrow> nat \<Rightarrow> nat \<Rightarrow> nat" where
  "fp_div F a b =
     (let s = (fp_sign F a \<noteq> fp_sign F b)
      in if is_nan F a \<or> is_nan F b then fp_nan F
         else if is_inf F a then (if is_inf F b then fp_nan F else fp_pack F s (fp_inf F))
         else if is_inf F b then fp_pack F s 0
         else if fp_mag F b = 0 then
           (if fp_mag F a = 0 then fp_nan F else fp_pack F s (fp_inf F))
         else fp_round F s (fp_mag F a * 2 ^ fp_unit F) (fp_mag F b))"

text \<open>\<^verbatim>\<open>fmod\<close>: the exact remainder of the truncated quotient, with the sign of the dividend.\<close>

definition fp_fmod :: "fp_format \<Rightarrow> nat \<Rightarrow> nat \<Rightarrow> nat" where
  "fp_fmod F a b =
     (if is_nan F a \<or> is_nan F b \<or> is_inf F a \<or> fp_mag F b = 0 then fp_nan F
      else if is_inf F b then a
      else fp_round F (fp_sign F a) (fp_mag F a mod fp_mag F b) 1)"

definition fp_less :: "fp_format \<Rightarrow> nat \<Rightarrow> nat \<Rightarrow> bool" where
  "fp_less F a b \<longleftrightarrow> \<not> is_nan F a \<and> \<not> is_nan F b \<and> fp_val F a < fp_val F b"

text \<open>Conversions between the formats, from and to \<^verbatim>\<open>int\<close>.\<close>

definition fp_convert :: "fp_format \<Rightarrow> fp_format \<Rightarrow> nat \<Rightarrow> nat" where
  "fp_convert F G b =
     (if is_nan F b then fp_nan G
      else if is_inf F b then fp_pack G (fp_sign F b) (fp_inf G)
      else fp_round G (fp_sign F b) (fp_mag F b * 2 ^ fp_unit G) (2 ^ fp_unit F))"

definition fp_of_int :: "fp_format \<Rightarrow> int \<Rightarrow> nat" where
  "fp_of_int F i = (if i = 0 then 0 else fp_round F (i < 0) (nat \<bar>i\<bar> * 2 ^ fp_unit F) 1)"

definition fp_to_int :: "fp_format \<Rightarrow> nat \<Rightarrow> kvdb_error + i32" where
  "fp_to_int F b =
     (if is_nan F b \<or> is_inf F b then Inl (Undefined FloatToInt)
      else let i = fp_val F b sdiv 2 ^ fp_unit F
           in if in_int i then Inr (word_of_int i) else Inl (Undefined FloatToInt))"

section \<open>Words\<close>

type_synonym f32 = "32 word"
type_synonym f64 = "64 word"

definition f32_op :: "(fp_format \<Rightarrow> nat \<Rightarrow> nat \<Rightarrow> nat) \<Rightarrow> f32 \<Rightarrow> f32 \<Rightarrow> f32" where
  "f32_op f a b = of_nat (f binary32 (unat a) (unat b))"

abbreviation "f32_add \<equiv> f32_op fp_add"
abbreviation "f32_sub \<equiv> f32_op fp_sub"
abbreviation "f32_mult \<equiv> f32_op fp_mult"
abbreviation "f32_div \<equiv> f32_op fp_div"
abbreviation "f32_fmod \<equiv> f32_op fp_fmod"

definition f32_less :: "f32 \<Rightarrow> f32 \<Rightarrow> bool" where
  "f32_less a b \<longleftrightarrow> fp_less binary32 (unat a) (unat b)"

definition f64_add :: "f64 \<Rightarrow> f64 \<Rightarrow> f64" where
  "f64_add a b = of_nat (fp_add binary64 (unat a) (unat b))"

definition f64_of_f32 :: "f32 \<Rightarrow> f64" where
  "f64_of_f32 a = of_nat (fp_convert binary32 binary64 (unat a))"

definition f32_of_f64 :: "f64 \<Rightarrow> f32" where
  "f32_of_f64 a = of_nat (fp_convert binary64 binary32 (unat a))"

definition f32_neg :: "f32 \<Rightarrow> f32" where
  "f32_neg a = of_nat (fp_neg binary32 (unat a))"

definition f32_of_int :: "i32 \<Rightarrow> f32" where
  "f32_of_int i = of_nat (fp_of_int binary32 (sint i))"

definition f64_of_int :: "i32 \<Rightarrow> f64" where
  "f64_of_int i = of_nat (fp_of_int binary64 (sint i))"

definition int_of_f64 :: "f64 \<Rightarrow> kvdb_error + i32" where
  "int_of_f64 a = fp_to_int binary64 (unat a)"

section \<open>Rounding is exact on the format and nearest elsewhere\<close>

declare bit_length.simps [simp del]

lemma bit_length_0 [simp]: "bit_length 0 = 0"
  by (simp add: bit_length.simps)

lemma bit_length_le: "bit_length n \<le> k \<longleftrightarrow> n < 2 ^ k"
proof (induction k arbitrary: n)
  case 0
  then show ?case by (auto simp: bit_length.simps [of n])
next
  case (Suc k)
  show ?case
  proof (cases "n = 0")
    case False
    then have "bit_length n = Suc (bit_length (n div 2))"
      by (simp add: bit_length.simps [of n])
    with Suc [of "n div 2"] show ?thesis by auto
  qed simp
qed

lemma bit_length_eq: "2 ^ j \<le> n \<Longrightarrow> n < 2 ^ Suc j \<Longrightarrow> bit_length n = Suc j"
  using bit_length_le [of n j] bit_length_le [of n "Suc j"] by linarith

lemma round_half_even_exact: "0 < d \<Longrightarrow> round_half_even (m * d) d = m"
  by (simp add: round_half_even_def)

lemma round_half_even_bounds: "n div d \<le> round_half_even n d" "round_half_even n d \<le> Suc (n div d)"
  by (simp_all add: round_half_even_def Let_def)

lemma round_half_even_close:
  assumes "0 < d"
  shows "2 * \<bar>int (round_half_even n d) * int d - int n\<bar> \<le> int d"
proof -
  have n: "int n = int (n div d) * int d + int (n mod d)"
    by (metis div_mult_mod_eq of_nat_add of_nat_mult)
  have "n mod d < d"
    using assms by simp
  with n show ?thesis
    by (auto simp: round_half_even_def Let_def algebra_simps)
qed

lemma nearest_multiple:
  fixes m d n j :: int
  assumes "2 * \<bar>m * d - n\<bar> \<le> d"
  shows "\<bar>m * d - n\<bar> \<le> \<bar>j * d - n\<bar>"
proof (cases "j = m")
  case False
  have "0 \<le> 2 * \<bar>m * d - n\<bar>"
    by simp
  then have "d \<ge> 0"
    using assms by (rule order_trans)
  moreover have "1 \<le> \<bar>j - m\<bar>"
    using False by linarith
  ultimately have "d \<le> \<bar>j - m\<bar> * d"
    using mult_right_mono [of 1 "\<bar>j - m\<bar>" d] by simp
  also have "\<dots> = \<bar>(j * d - n) - (m * d - n)\<bar>"
    using \<open>d \<ge> 0\<close> by (simp add: abs_mult left_diff_distrib [symmetric])
  finally have far: "d \<le> \<bar>(j * d - n) - (m * d - n)\<bar>" .
  have "d \<le> \<bar>x - y\<bar> \<Longrightarrow> 2 * \<bar>y\<bar> \<le> d \<Longrightarrow> \<bar>y\<bar> \<le> \<bar>x\<bar>" for x y :: int
    by linarith
  from this [OF far assms] show ?thesis .
qed simp

text \<open>A pattern without sign is a scale \<open>k\<close> and a significand \<open>m\<close>.\<close>

definition canonical :: "fp_format \<Rightarrow> nat \<Rightarrow> nat \<Rightarrow> bool" where
  "canonical F k m \<longleftrightarrow> k = 0 \<or> 2 ^ mbits F \<le> m"

lemma mag_of_scaled:
  assumes "canonical F k m" "m \<le> 2 ^ Suc (mbits F)"
  shows "mag_of F (k * 2 ^ mbits F + m) = m * 2 ^ k"
proof -
  let ?B = "2 ^ mbits F :: nat"
  consider "m < ?B" "k = 0" | "?B \<le> m" "m < 2 * ?B" | "m = 2 * ?B"
    using assms by (cases "m < ?B"; cases "m = 2 * ?B") (auto simp: canonical_def)
  then show ?thesis
  proof cases
    case 2
    then have "m = ?B + (m - ?B)" "m - ?B < ?B" by auto
    then obtain f where m: "m = ?B + f" "f < ?B" by blast
    then have "k * ?B + m = Suc k * ?B + f"
      by simp
    with m(2) have "(k * ?B + m) div ?B = Suc k" "(k * ?B + m) mod ?B = f"
      by (simp_all only: div_mult_self3 mod_mult_self3) simp_all
    with m show ?thesis by (simp add: mag_of_def)
  next
    case 3
    then have "(k * ?B + m) div ?B = Suc (Suc k)" "(k * ?B + m) mod ?B = 0"
      by (simp_all add: div_mult_self1 [of ?B "2 * ?B" k] add.commute)
    with 3 show ?thesis by (simp add: mag_of_def)
  qed (simp add: mag_of_def)
qed

lemma pattern_scaled:
  obtains k m where "a = k * 2 ^ mbits F + m" "canonical F k m" "m < 2 ^ Suc (mbits F)"
proof -
  let ?B = "2 ^ mbits F :: nat"
  have a: "a = a div ?B * ?B + a mod ?B" by presburger
  have lt: "a mod ?B < ?B" by simp
  show thesis
  proof (cases "a div ?B")
    case 0
    with lt that [of 0 a] show ?thesis by (auto simp: canonical_def div_eq_0_iff)
  next
    case (Suc k)
    with a lt that [of k "?B + a mod ?B"] show ?thesis by (auto simp: canonical_def)
  qed
qed

lemma fp_round_abs_exact: "a < fp_inf F \<Longrightarrow> fp_round_abs F (mag_of F a) 1 = a"
proof -
  assume fin: "a < fp_inf F"
  let ?B = "2 ^ mbits F :: nat"
  obtain k m where a: "a = k * ?B + m" and can: "canonical F k m" and m: "m < 2 ^ Suc (mbits F)"
    by (rule pattern_scaled)
  then have mag: "mag_of F a = m * 2 ^ k"
    using mag_of_scaled [OF can] by simp
  have "bit_length (m * 2 ^ k) - Suc (mbits F) = k"
  proof (cases k)
    case 0
    with m bit_length_le [of m "Suc (mbits F)"] show ?thesis by simp
  next
    case (Suc j)
    with can have "?B \<le> m" by (simp add: canonical_def)
    then have "2 ^ (mbits F + k) \<le> m * 2 ^ k" "m * 2 ^ k < 2 ^ Suc (mbits F + k)"
      using m by (simp_all add: power_add)
    then show ?thesis
      using bit_length_eq by fastforce
  qed
  with a mag fin show ?thesis
    by (simp add: fp_round_abs_def round_half_even_exact)
qed

lemma fp_round_abs_scaled:
  fixes n d :: nat
  assumes "0 < d" "fp_round_abs F n d < fp_inf F"
  defines "k \<equiv> bit_length (n div d) - Suc (mbits F)"
  shows "mag_of F (fp_round_abs F n d) = round_half_even n (d * 2 ^ k) * 2 ^ k"
    and "k \<noteq> 0 \<Longrightarrow> 2 ^ (mbits F + k) * d \<le> n"
proof -
  let ?q = "n div d" and ?u = "d * 2 ^ k"
  have "bit_length ?q \<le> Suc (mbits F) + k"
    by (simp add: k_def)
  then have "?q < 2 ^ (Suc (mbits F) + k)"
    by (simp add: bit_length_le)
  then have "?q div 2 ^ k < 2 ^ Suc (mbits F)"
    by (simp add: less_mult_imp_div_less power_add)
  then have up: "round_half_even n ?u \<le> 2 ^ Suc (mbits F)"
    using round_half_even_bounds(2) [of n ?u] by (simp add: div_mult2_eq)
  have low: "2 ^ (mbits F + k) \<le> ?q" if "k \<noteq> 0"
    using that bit_length_le [of ?q "mbits F + k"] by (auto simp: k_def)
  then show "2 ^ (mbits F + k) * d \<le> n" if "k \<noteq> 0"
    using that assms(1) by (simp add: less_eq_div_iff_mult_less_eq)
  have "2 ^ mbits F \<le> ?q div 2 ^ k" if "k \<noteq> 0"
    using low [OF that] by (simp add: less_eq_div_iff_mult_less_eq power_add)
  then have "canonical F k (round_half_even n ?u)"
    using round_half_even_bounds(1) [of n ?u] order_trans
    unfolding canonical_def div_mult2_eq by blast
  from mag_of_scaled [OF this up] assms(2)
  show "mag_of F (fp_round_abs F n d) = round_half_even n (d * 2 ^ k) * 2 ^ k"
    by (auto simp: fp_round_abs_def Let_def k_def [symmetric] min_def split: if_splits)
qed

lemma fp_round_abs_nearest:
  assumes "0 < d" "fp_round_abs F n d < fp_inf F"
  shows "\<bar>int (mag_of F (fp_round_abs F n d)) * int d - int n\<bar> \<le> \<bar>int (mag_of F c) * int d - int n\<bar>"
proof -
  define k where "k = bit_length (n div d) - Suc (mbits F)"
  let ?u = "int (d * 2 ^ k)" and ?m = "int (round_half_even n (d * 2 ^ k))"
  note sc = fp_round_abs_scaled [OF assms, folded k_def]
  have "2 * \<bar>?m * ?u - int n\<bar> \<le> ?u"
    using assms(1) by (intro round_half_even_close) simp
  note near = nearest_multiple [OF this]
  have lhs: "int (mag_of F (fp_round_abs F n d)) * int d = ?m * ?u"
    by (simp add: sc(1) algebra_simps)
  obtain j m where c: "c = j * 2 ^ mbits F + m" "canonical F j m" "m < 2 ^ Suc (mbits F)"
    by (rule pattern_scaled)
  then have mag: "mag_of F c = m * 2 ^ j"
    using mag_of_scaled by simp
  show ?thesis
  proof (cases "k \<le> j")
    case True
    then have "mag_of F c * d = m * 2 ^ (j - k) * (d * 2 ^ k)"
      by (simp add: mag power_add [symmetric])
    then have "int (mag_of F c) * int d = int (m * 2 ^ (j - k)) * ?u"
      by (metis of_nat_mult)
    with near [of "int (m * 2 ^ (j - k))"] lhs show ?thesis by presburger
  next
    case False
    have "m * 2 ^ j \<le> 2 ^ Suc (mbits F) * 2 ^ j"
      using c(3) by simp
    also have "\<dots> \<le> 2 ^ (mbits F + k)"
      using False by (simp add: power_add [symmetric] power_increasing del: power_Suc)
    finally have "mag_of F c * d \<le> 2 ^ (mbits F + k) * d"
      by (simp add: mag)
    moreover have "2 ^ (mbits F + k) * d \<le> n"
      using False by (intro sc(2)) simp
    moreover have "int (2 ^ mbits F) * ?u = int (2 ^ (mbits F + k) * d)"
      by (simp add: power_add)
    ultimately have "\<bar>?m * ?u - int n\<bar> \<le> \<bar>int (mag_of F c * d) - int n\<bar>"
      using near [of "int (2 ^ mbits F)"] by linarith
    with lhs show ?thesis by (simp only: of_nat_mult)
  qed
qed

section \<open>Signed values\<close>

definition signed_int :: "bool \<Rightarrow> int \<Rightarrow> int" where
  "signed_int s x = (if s then - x else x)"

lemma fp_inf_less: "fp_inf F < 2 ^ (mbits F + ebits F)"
proof -
  have "(2 ^ ebits F - 1) * 2 ^ mbits F < 2 ^ ebits F * (2 ^ mbits F :: nat)"
    by (rule mult_strict_right_mono) simp_all
  then show ?thesis
    by (simp add: fp_inf_def power_add mult.commute)
qed

lemma fp_abs_pack [simp]: "b < 2 ^ (mbits F + ebits F) \<Longrightarrow> fp_abs F (fp_pack F s b) = b"
  by (simp add: fp_abs_def fp_pack_def)

lemma fp_sign_pack [simp]: "b < 2 ^ (mbits F + ebits F) \<Longrightarrow> fp_sign F (fp_pack F s b) = s"
  by (simp add: fp_sign_def fp_pack_def div_add_self1)

lemma fp_pack_less: "b < 2 ^ (mbits F + ebits F) \<Longrightarrow> fp_pack F s b < 2 ^ Suc (mbits F + ebits F)"
  by (simp add: fp_pack_def)

lemma fp_round_abs_le: "fp_round_abs F n d \<le> fp_inf F"
  by (simp add: fp_round_abs_def Let_def)

lemma fp_round_abs_less: "fp_round_abs F n d < 2 ^ (mbits F + ebits F)"
  using fp_round_abs_le [of F n d] fp_inf_less [of F] by simp

lemma fp_val_pack: "b < 2 ^ (mbits F + ebits F) \<Longrightarrow> fp_val F (fp_pack F s b) = signed_int s (int (mag_of F b))"
  by (simp add: fp_val_def fp_mag_def signed_int_def)

lemma fp_val_signed: "fp_val F b = signed_int (fp_sign F b) (int (fp_mag F b))"
  by (simp add: fp_val_def signed_int_def)

lemma signed_dist:
  "\<bar>signed_int s x * d - signed_int s y\<bar> = \<bar>x * d - y\<bar>"
  "0 \<le> x \<Longrightarrow> 0 \<le> y \<Longrightarrow> 0 \<le> d \<Longrightarrow> \<bar>x * d - y\<bar> \<le> \<bar>signed_int t x * d - signed_int s y\<bar>"
proof -
  show "\<bar>signed_int s x * d - signed_int s y\<bar> = \<bar>x * d - y\<bar>"
    by (simp add: signed_int_def abs_minus_commute)
  assume "0 \<le> x" "0 \<le> y" "0 \<le> d"
  then have "0 \<le> x * d"
    by simp
  with \<open>0 \<le> y\<close> show "\<bar>x * d - y\<bar> \<le> \<bar>signed_int t x * d - signed_int s y\<bar>"
    by (auto simp: signed_int_def)
qed

text \<open>
  Correct rounding: unless the result overflows to infinity, no value of the format is closer
  to the exact fraction.
\<close>

lemma fp_round_nearest:
  assumes "0 < d" "\<not> is_inf F (fp_round F s n d)"
  shows "\<bar>fp_val F (fp_round F s n d) * int d - signed_int s (int n)\<bar>
    \<le> \<bar>fp_val F c * int d - signed_int s (int n)\<bar>"
proof -
  let ?r = "fp_round_abs F n d"
  have "?r < fp_inf F"
    using assms(2) fp_round_abs_le [of F n d] fp_round_abs_less [of F n d]
    by (auto simp: is_inf_def fp_round_def)
  note near = fp_round_abs_nearest [OF assms(1) this, of "fp_abs F c"]
  have "\<bar>fp_val F (fp_round F s n d) * int d - signed_int s (int n)\<bar>
      = \<bar>int (mag_of F ?r) * int d - int n\<bar>"
    by (simp add: fp_round_def fp_val_pack fp_round_abs_less signed_dist(1))
  also have "\<dots> \<le> \<bar>int (fp_mag F c) * int d - int n\<bar>"
    using near by (simp add: fp_mag_def)
  also have "\<dots> \<le> \<bar>fp_val F c * int d - signed_int s (int n)\<bar>"
    unfolding fp_val_signed by (rule signed_dist(2)) simp_all
  finally show ?thesis .
qed

end
