(* ===== verification/Zeno_Timestamp.thy ===== *)
theory Zeno_Timestamp
  imports Zeno_Prelude
begin

text \<open>
  Year extraction (\<^verbatim>\<open>timestamp_extract_year\<close> of \<^verbatim>\<open>src/src/privacy_zone/tee.cpp\<close>): a PostgreSQL
  timestamp counts microseconds from 2000-01-01. The 64-bit locals never leave the range of
  \<^verbatim>\<open>int64_t\<close> and are integers; the two \<^verbatim>\<open>unsigned int\<close> locals \<open>quad\<close> and \<open>extra\<close> and the
  result are words. The reference is the proleptic Gregorian calendar: \<open>year_start y\<close> is the
  Julian day number of the first of January, and successive years are 365 or 366 days apart by
  the leap year rule.
\<close>

section \<open>The code\<close>

definition USECS_PER_DAY :: int where "USECS_PER_DAY = 86400000000"
definition POSTGRES_EPOCH_JDATE :: int where "POSTGRES_EPOCH_JDATE = 2451545"

definition TMODULO :: "int \<Rightarrow> int \<Rightarrow> int \<times> int" where
  "TMODULO t u = (let q = t sdiv u in (if q \<noteq> 0 then t - q * u else t, q))"

definition j2year :: "int \<Rightarrow> i32" where
  "j2year jd =
     (let date = jd + 32044;
          quad = word_of_int (date sdiv 146097) :: u32;
          extra = word_of_int ((date - uint (quad * 146097)) * 4 + 3) :: u32;
          date = date + uint (60 + quad * 3 + extra div 146097);
          quad = word_of_int (date sdiv 1461) :: u32;
          date = date - uint (quad * 1461);
          year = word_of_int (date * 4 sdiv 1461) :: i32;
          year = year + quad * 4
      in year - 4800)"

definition timestamp_extract_year :: "i64 \<Rightarrow> i32" where
  "timestamp_extract_year timestamp =
     (let (t, date) = TMODULO (sint timestamp) USECS_PER_DAY;
          date = (if t < 0 then date - 1 else date) + POSTGRES_EPOCH_JDATE
      in if date < 0 \<or> 2147483647 < date then - 1 else j2year date)"

section \<open>The Gregorian calendar\<close>

definition leap_year :: "int \<Rightarrow> bool" where
  "leap_year y \<longleftrightarrow> 4 dvd y \<and> (\<not> 100 dvd y \<or> 400 dvd y)"

definition ceil_div :: "int \<Rightarrow> int \<Rightarrow> int" where
  "ceil_div y k = (y + (k - 1)) div k"

definition year_start :: "int \<Rightarrow> int" where
  "year_start y = 1721060 + 365 * y + ceil_div y 4 - ceil_div y 100 + ceil_div y 400"

lemma ceil_div_mult_add:
  fixes q r k :: int
  assumes "0 \<le> r" "r \<le> k" "0 < k"
  shows "ceil_div (q * k + r) k = q + (if r = 0 then 0 else 1)"
proof -
  have "ceil_div (q * k + r) k = (r + (k - 1) + q * k) div k"
    by (simp add: ceil_div_def algebra_simps)
  also have "\<dots> = q + (r + (k - 1)) div k"
    by (rule div_mult_self1) (use assms in simp)
  also have "(r + (k - 1)) div k = (if r = 0 then 0 else 1)"
    using assms by (auto intro: div_pos_pos_trivial int_div_pos_eq [of _ _ _ "r - 1"])
  finally show ?thesis .
qed

lemma ceil_div_step:
  fixes y k :: int
  assumes "0 < k"
  shows "ceil_div (y + 1) k = ceil_div y k + (if k dvd y then 1 else 0)"
proof -
  have y: "y div k * k + y mod k = y" "y div k * k + (y mod k + 1) = y + 1"
    and r: "0 \<le> y mod k" "y mod k + 1 \<le> k"
    using assms by (simp_all add: zless_imp_add1_zle)
  moreover have "y mod k + 1 \<noteq> 0"
    using r(1) by linarith
  ultimately have "ceil_div y k = y div k + (if y mod k = 0 then 0 else 1)"
    "ceil_div (y + 1) k = y div k + 1"
    using ceil_div_mult_add [of "y mod k" k "y div k"]
      ceil_div_mult_add [of "y mod k + 1" k "y div k"] assms by simp_all
  then show ?thesis
    by (simp add: dvd_eq_mod_eq_0)
qed

text \<open>The closed form is the calendar: years follow each other by the leap year rule.\<close>

lemma year_start_step: "year_start (y + 1) = year_start y + (if leap_year y then 366 else 365)"
proof -
  define d4 d100 d400 where "d4 \<longleftrightarrow> 4 dvd y" and "d100 \<longleftrightarrow> 100 dvd y" and "d400 \<longleftrightarrow> 400 dvd y"
  have "d400 \<Longrightarrow> d100"
    unfolding d400_def d100_def using dvd_mult_left [of 100 4 y] by simp
  moreover have "d100 \<Longrightarrow> d4"
    unfolding d100_def d4_def using dvd_mult_left [of 4 25 y] by simp
  moreover have "leap_year y \<longleftrightarrow> d4 \<and> (\<not> d100 \<or> d400)"
    by (simp add: leap_year_def d4_def d100_def d400_def)
  ultimately show ?thesis
    using ceil_div_step [of 4 y, folded d4_def] ceil_div_step [of 100 y, folded d100_def]
      ceil_div_step [of 400 y, folded d400_def]
    unfolding year_start_def by (cases d4; cases d100; cases d400) simp_all
qed

lemma year_start_2000: "year_start 2000 = POSTGRES_EPOCH_JDATE"
  by (simp add: year_start_def ceil_div_def POSTGRES_EPOCH_JDATE_def)

section \<open>The division cascade\<close>

text \<open>The code without wrap-around.\<close>

definition cascade :: "int \<Rightarrow> int" where
  "cascade n =
     (let q = n div 146097;
          m = n + 60 + 3 * q + (4 * (n mod 146097) + 3) div 146097
      in m div 1461 * 4 + 4 * (m mod 1461) div 1461)"

lemma sdiv_pos: "0 \<le> a \<Longrightarrow> 0 < b \<Longrightarrow> a sdiv b = a div (b :: int)"
  by (simp add: signed_divide_int_def sgn_if)

lemma uint_small: "0 \<le> x \<Longrightarrow> x < 2 ^ 32 \<Longrightarrow> uint (word_of_int x :: u32) = x"
  by (simp add: uint_word_of_int_eq take_bit_int_eq_self)

definition julian_start :: "int \<Rightarrow> int" where
  "julian_start y = 365 * y + ceil_div y 4"

lemma julian_start_4: "0 \<le> t \<Longrightarrow> t \<le> 4 \<Longrightarrow> julian_start (q * 4 + t) = 1461 * q + 365 * t + (if t = 0 then 0 else 1)"
  by (simp add: julian_start_def ceil_div_mult_add)

lemma julian_start_mono: "x \<le> y \<Longrightarrow> julian_start x \<le> julian_start y"
  unfolding julian_start_def ceil_div_def by (intro add_mono zdiv_mono1) simp_all

lemma div_bounds:
  fixes x k :: int
  assumes "0 < k"
  shows "k * (x div k) \<le> x" "x < k * (x div k) + k"
proof -
  have "k * (x div k) + x mod k = x" "0 \<le> x mod k" "x mod k < k"
    using assms by simp_all
  then show "k * (x div k) \<le> x" "x < k * (x div k) + k"
    by linarith+
qed

lemma four_cases: "0 \<le> t \<Longrightarrow> t \<le> 3 \<Longrightarrow> t \<in> {0, 1, 2, 3 :: int}"
  by auto

lemma julian_year:
  fixes m :: int
  defines "y \<equiv> m div 1461 * 4 + 4 * (m mod 1461) div 1461"
  shows "julian_start y \<le> m" "m < julian_start (y + 1)"
proof -
  define q d t where "q = m div 1461" and "d = m mod 1461" and "t = 4 * d div 1461"
  have m: "m = 1461 * q + d" and d: "0 \<le> d" "d < 1461"
    by (simp_all add: q_def d_def)
  have t: "1461 * t \<le> 4 * d" "4 * d < 1461 * t + 1461"
    unfolding t_def by (rule div_bounds; simp)+
  from t d have t_range: "0 \<le> t" "t \<le> 3"
    by linarith+
  then have t03: "t \<in> {0, 1, 2, 3}"
    by (rule four_cases)
  have y: "y = q * 4 + t" "y + 1 = q * 4 + (t + 1)"
    by (simp_all add: y_def q_def d_def t_def)
  have "julian_start y = 1461 * q + 365 * t + (if t = 0 then 0 else 1)"
    "julian_start (y + 1) = 1461 * q + 365 * (t + 1) + 1"
    using julian_start_4 [of t q, folded y(1)] julian_start_4 [of "t + 1" q, folded y(2)] t_range
    by simp_all
  then show "julian_start y \<le> m" "m < julian_start (y + 1)"
    using t m t03 by auto
qed

text \<open>The centuries: \<open>c\<close> of the 400-year cycle \<open>q\<close>, and the day in the century.\<close>

lemma century:
  fixes n :: int
  defines "q \<equiv> n div 146097" and "c \<equiv> (4 * (n mod 146097) + 3) div 146097"
  obtains e where "n + 60 + 3 * q + c = 36525 * (4 * q + c) + e" "0 \<le> c" "c \<le> 3" "60 \<le> e" "e \<le> 36584"
proof -
  define r where "r = n mod 146097"
  have n: "n = 146097 * q + r" and r: "0 \<le> r" "r < 146097"
    by (simp_all add: q_def r_def)
  have c: "146097 * c \<le> 4 * r + 3" "4 * r + 3 < 146097 * c + 146097"
    unfolding c_def r_def [symmetric] by (rule div_bounds; simp)+
  from c r have c03: "0 \<le> c" "c \<le> 3"
    by linarith+
  then have "c \<in> {0, 1, 2, 3}"
    by (rule four_cases)
  then have "36524 * c \<le> r" "r \<le> 36524 * c + 36524"
    using r c by auto
  with c03 n that [of "r - 36524 * c + 60"] show thesis
    by simp
qed

lemma ceil_div_shift: "0 < k \<Longrightarrow> ceil_div (y - j * k) k = ceil_div y k - j"
  unfolding ceil_div_def using div_mult_self1 [of k "y + (k - 1)" "- j"] by (simp add: algebra_simps)

lemma year_start_shift:
  "year_start (y - 4800) = julian_start y - ceil_div y 100 + ceil_div y 400 - 32104"
  using ceil_div_shift [of 4 y 1200] ceil_div_shift [of 100 y 48] ceil_div_shift [of 400 y 12]
  by (simp add: year_start_def julian_start_def)

lemma shifted_start:
  assumes "0 \<le> c" "c \<le> 3" "0 \<le> k" "k \<le> 100"
  shows "year_start (100 * (4 * q + c) + k - 4800) = julian_start (100 * (4 * q + c) + k) - (4 * q + c) + q
      - (if k = 0 then 0 else 1) + (if c = 0 \<and> k = 0 then 0 else 1) - 32104"
    and "year_start (100 * (4 * q + c) + k - 4800 + 1) = julian_start (100 * (4 * q + c) + k + 1) - (4 * q + c) + q
      - (if k = 100 \<and> c \<noteq> 3 then 1 else 0) - 32104"
proof -
  let ?y = "100 * (4 * q + c) + k"
  have "ceil_div ?y 100 = 4 * q + c + (if k = 0 then 0 else 1)"
    using ceil_div_mult_add [of k 100 "4 * q + c"] assms by (simp add: algebra_simps)
  moreover have "ceil_div ?y 400 = q + (if c = 0 \<and> k = 0 then 0 else 1)"
    using ceil_div_mult_add [of "100 * c + k" 400 q] assms by (auto simp: algebra_simps)
  ultimately show "year_start (?y - 4800) = julian_start ?y - (4 * q + c) + q
      - (if k = 0 then 0 else 1) + (if c = 0 \<and> k = 0 then 0 else 1) - 32104"
    by (simp add: year_start_shift)
  have "ceil_div (?y + 1) 100 = 4 * q + c + (if k = 100 then 2 else 1)"
    using ceil_div_mult_add [of "k + 1" 100 "4 * q + c"] ceil_div_mult_add [of 1 100 "4 * q + c + 1"] assms
    by (auto simp: algebra_simps)
  moreover have "ceil_div (?y + 1) 400 = q + (if k = 100 \<and> c = 3 then 2 else 1)"
    using ceil_div_mult_add [of "100 * c + k + 1" 400 q] ceil_div_mult_add [of 1 400 "q + 1"] assms
    by (auto simp: algebra_simps)
  moreover show "year_start (?y - 4800 + 1) = julian_start (?y + 1) - (4 * q + c) + q
      - (if k = 100 \<and> c \<noteq> 3 then 1 else 0) - 32104"
  proof -
    have "?y - 4800 + 1 = ?y + 1 - 4800"
      by simp
    then show ?thesis
      using calculation by (simp only: year_start_shift) auto
  qed
qed

lemma cascade_correct:
  fixes n :: int
  shows "year_start (cascade n - 4800) \<le> n - 32044" "n - 32044 < year_start (cascade n - 4800 + 1)"
proof -
  define q c where "q = n div 146097" and "c = (4 * (n mod 146097) + 3) div 146097"
  let ?C = "4 * q + c" and ?y = "cascade n"
  obtain e where e: "n + 60 + 3 * q + c = 36525 * ?C + e" "60 \<le> e" "e \<le> 36584" and c: "0 \<le> c" "c \<le> 3"
    unfolding q_def c_def by (rule century)
  define m where "m = n + 60 + 3 * q + c"
  have y: "?y = m div 1461 * 4 + 4 * (m mod 1461) div 1461"
    by (simp add: cascade_def m_def q_def c_def Let_def)
  note jul = julian_year [of m, folded y]
  define k where "k = ?y - 100 * ?C"
  have yk: "?y = 100 * ?C + k" by (simp add: k_def)
  have J: "julian_start (100 * ?C) = 36525 * ?C" "julian_start (100 * ?C + 101) = 36525 * ?C + 36891"
    using julian_start_4 [of 0 "25 * ?C"] julian_start_4 [of 1 "25 * ?C + 25"] by (simp_all add: add.commute)
  have k: "0 \<le> k" "k \<le> 100"
  proof -
    show "0 \<le> k"
    proof (rule ccontr)
      assume "\<not> 0 \<le> k"
      then show False
        using julian_start_mono [of "?y + 1" "100 * ?C"] jul(2) J(1) e by (simp add: m_def yk)
    qed
    show "k \<le> 100"
    proof (rule ccontr)
      assume "\<not> k \<le> 100"
      then show False
        using julian_start_mono [of "100 * ?C + 101" ?y] jul(1) J(2) e by (simp add: m_def yk)
    qed
  qed
  have n: "n + 60 = m - ?C + q"
    by (simp add: m_def)
  note G = shifted_start [OF c k, of q, folded yk]
  have "julian_start ?y + 1 \<le> m" if "k = 0"
    using that J(1) e by (simp add: m_def yk)
  moreover have "m + 1 < julian_start (?y + 1)" if "k = 100"
    using that J(2) e by (simp add: m_def yk add.commute)
  ultimately show "year_start (?y - 4800) \<le> n - 32044" "n - 32044 < year_start (?y - 4800 + 1)"
    using G n jul c by (auto split: if_splits)
qed

section \<open>Words\<close>

lemma uint_mult_small:
  "0 \<le> x \<Longrightarrow> x * k < 2 ^ 32 \<Longrightarrow> 0 < k \<Longrightarrow> uint (word_of_int x * word_of_int k :: u32) = x * k"
  by (subst wi_hom_mult) (rule uint_small; simp)

lemma j2year_cascade:
  assumes "0 \<le> jd" "jd \<le> 2147483647"
  shows "j2year jd = word_of_int (cascade (jd + 32044) - 4800)"
proof -
  define n q c where "n = jd + 32044" and "q = n div 146097" and "c = (4 * (n mod 146097) + 3) div 146097"
  define m where "m = n + 60 + 3 * q + c"
  have n: "0 \<le> n" "n \<le> 2147515691"
    using assms by (simp_all add: n_def)
  have q: "0 \<le> q" "146097 * q \<le> n"
    using n div_bounds(1) [of 146097 n] by (simp_all add: q_def pos_imp_zdiv_nonneg_iff)
  have r: "0 \<le> n mod 146097" "n mod 146097 < 146097" "n - 146097 * q = n mod 146097"
    by (simp_all add: q_def minus_mult_div_eq_mod)
  obtain e where c: "0 \<le> c" "c \<le> 3"
    unfolding c_def by (rule century)
  have m: "0 \<le> m" "m < 2147600000"
    using n q c by (simp_all add: m_def)
  have p: "0 \<le> m div 1461" "1461 * (m div 1461) \<le> m"
    using m div_bounds(1) [of 1461 m] by (simp_all add: pos_imp_zdiv_nonneg_iff)
  have 1: "uint (word_of_int q * 146097 :: u32) = q * 146097"
    using uint_mult_small [of q 146097] q n by simp
  define x where "x = (n - q * 146097) * 4 + 3"
  have x: "0 \<le> x" "x < 2 ^ 32" "x div 146097 = c"
    using r by (simp_all add: x_def c_def mult.commute)
  have "word_of_int x div 146097 = (word_of_int c :: u32)"
    using uint_small [OF x(1,2)] x(3) by (simp add: word_div_def)
  then have sum: "60 + word_of_int q * 3 + word_of_int x div 146097 = (word_of_int (60 + 3 * q + c) :: u32)"
    by simp
  have 2: "uint (60 + word_of_int q * 3 + word_of_int x div 146097 :: u32) = 60 + 3 * q + c"
    unfolding sum by (rule uint_small) (use q n c in simp_all)
  have 3: "uint (word_of_int (m div 1461) * 1461 :: u32) = m div 1461 * 1461"
    using uint_mult_small [of "m div 1461" 1461] p m by simp
  have date: "n + (60 + 3 * q + c) = m"
    by (simp add: m_def)
  have rest: "m - m div 1461 * 1461 = m mod 1461"
    by (simp add: minus_div_mult_eq_mod)
  have sd: "n sdiv 146097 = q" "m sdiv 1461 = m div 1461" "m mod 1461 * 4 sdiv 1461 = m mod 1461 * 4 div 1461"
    using n m by (simp_all add: sdiv_pos q_def)
  have "j2year jd = word_of_int (m mod 1461 * 4 div 1461) + word_of_int (m div 1461) * 4 - 4800"
    unfolding j2year_def Let_def n_def [symmetric] sd 1 x_def [symmetric] 2 date 3 rest ..
  also have "\<dots> = word_of_int (cascade n - 4800)"
    unfolding cascade_def Let_def q_def [symmetric] c_def [symmetric] m_def [symmetric]
    by (simp add: mult.commute add.commute)
  finally show ?thesis
    by (simp add: n_def)
qed

lemma TMODULO_floor:
  assumes "TMODULO x u = (t, q)" "0 < u"
  shows "(if t < 0 then q - 1 else q) = x div u"
proof (cases "0 \<le> x")
  case True
  with assms have "q = x div u" "t = x - q * u"
    by (auto simp: TMODULO_def sdiv_pos Let_def)
  with assms(2) show ?thesis
    by (simp add: minus_div_mult_eq_mod not_less)
next
  case False
  let ?p = "(- x) div u"
  from False assms have "q = - ?p" "t = x + ?p * u"
    by (auto simp: TMODULO_def signed_divide_int_def sgn_if Let_def)
  moreover have "- x = ?p * u + (- x) mod u" "0 \<le> (- x) mod u" "(- x) mod u < u"
    using assms(2) by simp_all
  ultimately have "t < 0 \<longleftrightarrow> (- x) mod u \<noteq> 0"
    by linarith
  moreover have "x div u = - ?p - (if (- x) mod u = 0 then 0 else 1)"
    using zdiv_zminus1_eq_if [of u "- x"] assms(2) by simp
  ultimately show ?thesis
    using \<open>q = - ?p\<close> by simp
qed

lemma cascade_range:
  assumes "0 \<le> n" "n \<le> 2147515691"
  shows "0 \<le> cascade n" "cascade n \<le> 5900000"
proof -
  define q c where "q = n div 146097" and "c = (4 * (n mod 146097) + 3) div 146097"
  define m where "m = n + 60 + 3 * q + c"
  have "146097 * q \<le> n" "0 \<le> q"
    using assms(1) div_bounds(1) [of 146097 n] by (simp_all add: q_def pos_imp_zdiv_nonneg_iff)
  moreover obtain e where "0 \<le> c" "c \<le> 3"
    unfolding c_def by (rule century)
  ultimately have m: "0 \<le> m" "m < 2147600000"
    using assms by (simp_all add: m_def)
  have t: "0 \<le> 4 * (m mod 1461) div 1461" "4 * (m mod 1461) div 1461 \<le> 3"
    using div_bounds [of 1461 "4 * (m mod 1461)"] pos_mod_bound [of 1461 m] pos_mod_sign [of 1461 m]
    by linarith+
  have p: "0 \<le> m div 1461" "1461 * (m div 1461) \<le> m"
    using m div_bounds(1) [of 1461 m] by (simp_all add: pos_imp_zdiv_nonneg_iff)
  have "cascade n = m div 1461 * 4 + 4 * (m mod 1461) div 1461"
    by (simp add: cascade_def m_def q_def c_def Let_def)
  with m t p show "0 \<le> cascade n" "cascade n \<le> 5900000"
    by linarith+
qed

lemma extract_year_in_range:
  fixes ts :: i64
  defines "jd \<equiv> sint ts div USECS_PER_DAY + POSTGRES_EPOCH_JDATE"
  assumes "0 \<le> jd"
  shows "sint (timestamp_extract_year ts) = cascade (jd + 32044) - 4800"
proof -
  obtain t q where tq: "TMODULO (sint ts) USECS_PER_DAY = (t, q)"
    by force
  then have jd: "(if t < 0 then q - 1 else q) + POSTGRES_EPOCH_JDATE = jd"
    using TMODULO_floor [OF tq] by (simp add: jd_def USECS_PER_DAY_def)
  have "sint ts < 2 ^ 63"
    using sint_less [of ts] by simp
  then have "sint ts div USECS_PER_DAY \<le> 2 ^ 63 div USECS_PER_DAY"
    by (intro zdiv_mono1) (simp_all add: USECS_PER_DAY_def)
  then have up: "jd \<le> 2147483647"
    by (simp add: jd_def USECS_PER_DAY_def POSTGRES_EPOCH_JDATE_def)
  then have "timestamp_extract_year ts = word_of_int (cascade (jd + 32044) - 4800)"
    using tq jd assms(2) by (simp add: timestamp_extract_year_def Let_def j2year_cascade)
  moreover have "in_int (cascade (jd + 32044) - 4800)"
    using cascade_range [of "jd + 32044"] assms(2) up by (simp add: in_int_def)
  ultimately show ?thesis
    by (simp only: sint_word_of_int_in)
qed

section \<open>Properties\<close>

text \<open>
  C29. \<^verbatim>\<open>timestamp_extract_year\<close> is the Gregorian calendar: for every timestamp from Julian day 0
  on, the day it lies in is on or after the first day of the year returned and before the first
  day of the next, where a year has 366 days exactly when it is a leap year and 2000 starts at
  the PostgreSQL epoch.
\<close>

theorem extract_year_gregorian:
  fixes ts :: i64
  defines "jd \<equiv> sint ts div USECS_PER_DAY + POSTGRES_EPOCH_JDATE"
    and "y \<equiv> sint (timestamp_extract_year ts)"
  assumes "0 \<le> jd"
  shows "year_start y \<le> jd \<and> jd < year_start (y + 1) \<and> year_start 2000 = POSTGRES_EPOCH_JDATE
    \<and> year_start (z + 1) - year_start z = (if leap_year z then 366 else 365)"
proof -
  have "y = cascade (jd + 32044) - 4800"
    unfolding y_def jd_def using assms(3) by (intro extract_year_in_range) (simp add: jd_def)
  then show ?thesis
    using cascade_correct [of "jd + 32044"] by (simp add: year_start_step year_start_2000)
qed

theorem extract_year_gregorian_witness:
  "year_start (sint (timestamp_extract_year (- 1))) \<le> 2451544
    \<and> 2451544 < year_start (sint (timestamp_extract_year (- 1)) + 1)
    \<and> timestamp_extract_year (- 1) = 1999"
proof -
  have jd: "sint (- 1 :: i64) div USECS_PER_DAY + POSTGRES_EPOCH_JDATE = 2451544"
    by (simp add: USECS_PER_DAY_def POSTGRES_EPOCH_JDATE_def)
  have "timestamp_extract_year (- 1) = 1999"
    by code_simp
  with extract_year_gregorian [of "- 1" 0] jd show ?thesis
    by simp
qed

end
