(* ===== verification/Zeno_Tee_Ops.thy ===== *)
theory Zeno_Tee_Ops
  imports Zeno_Kv Zeno_Like Zeno_Float Zeno_Timestamp
begin

text \<open>
  The operators of the privacy zone (\<^verbatim>\<open>src/src/privacy_zone/tee.cpp\<close>): each reads its operands
  from the field store, computes on plaintext and stores the result as a temporary. Integer
  arithmetic is that of C++, so an operation that overflows is \<open>Undefined\<close>; float arithmetic
  is that of \<^verbatim>\<open>Zeno_Float\<close>. The two power functions of the C mathematical library have no
  specified accuracy and are an argument, the record \<open>libm\<close>.
\<close>

section \<open>Integers\<close>

record libm =
  libm_pow :: "f64 \<Rightarrow> f64 \<Rightarrow> f64"
  libm_powf :: "f32 \<Rightarrow> f32 \<Rightarrow> f32"

definition kv_int_add :: "rid \<Rightarrow> rid \<Rightarrow> (kv_state, rid) kvm" where
  "kv_int_add left right =
     bindE (getInt left) (\<lambda>l. bindE (getInt right) (\<lambda>r.
       bindE (lift_sum (c_add l r))
         (\<lambda>v. putInt INVALID_RID v True RID_DEFAULT_PARTITION)))"

definition kv_int_sub :: "rid \<Rightarrow> rid \<Rightarrow> (kv_state, rid) kvm" where
  "kv_int_sub left right =
     bindE (getInt left) (\<lambda>l. bindE (getInt right) (\<lambda>r.
       bindE (lift_sum (c_sub l r))
         (\<lambda>v. putInt INVALID_RID v True RID_DEFAULT_PARTITION)))"

definition kv_int_mult :: "rid \<Rightarrow> rid \<Rightarrow> (kv_state, rid) kvm" where
  "kv_int_mult left right =
     bindE (getInt left) (\<lambda>l. bindE (getInt right) (\<lambda>r.
       bindE (lift_sum (c_mult l r))
         (\<lambda>v. putInt INVALID_RID v True RID_DEFAULT_PARTITION)))"

definition kv_int_div :: "rid \<Rightarrow> rid \<Rightarrow> (kv_state, rid) kvm" where
  "kv_int_div left right =
     bindE (getInt left) (\<lambda>l. bindE (getInt right) (\<lambda>r.
       bindE (lift_sum (c_div l r))
         (\<lambda>v. putInt INVALID_RID v True RID_DEFAULT_PARTITION)))"

definition c_pow :: "libm \<Rightarrow> i32 \<Rightarrow> i32 \<Rightarrow> kvdb_error + i32" where
  "c_pow m l r = int_of_f64 (libm_pow m (f64_of_int l) (f64_of_int r))"

definition kv_int_pow :: "libm \<Rightarrow> rid \<Rightarrow> rid \<Rightarrow> (kv_state, rid) kvm" where
  "kv_int_pow m left right =
     bindE (getInt left) (\<lambda>l. bindE (getInt right) (\<lambda>r.
       bindE (lift_sum (c_pow m l r))
         (\<lambda>v. putInt INVALID_RID v True RID_DEFAULT_PARTITION)))"

definition kv_int_mod :: "rid \<Rightarrow> rid \<Rightarrow> (kv_state, rid) kvm" where
  "kv_int_mod left right =
     bindE (getInt left) (\<lambda>l. bindE (getInt right) (\<lambda>r.
       bindE (lift_sum (c_mod l r))
         (\<lambda>v. putInt INVALID_RID v True RID_DEFAULT_PARTITION)))"

text \<open>\<^verbatim>\<open>l > r ? 1 : (l < r ? -1 : 0)\<close>\<close>

definition cmp3 :: "bool \<Rightarrow> bool \<Rightarrow> i32" where
  "cmp3 gt lt = (if gt then 1 else if lt then - 1 else 0)"

definition kv_int_cmp :: "rid \<Rightarrow> rid \<Rightarrow> (kv_state, i32) kvm" where
  "kv_int_cmp left right =
     bindE (getInt left) (\<lambda>l. bindE (getInt right) (\<lambda>r.
       ret (cmp3 (sint l > sint r) (sint l < sint r))))"

primrec int_sum_loop :: "rid list \<Rightarrow> i32 \<Rightarrow> (kv_state, i32) kvm" where
  "int_sum_loop [] acc = ret acc"
| "int_sum_loop (k # ks) acc =
     bindE (getInt k) (\<lambda>v. bindE (lift_sum (c_add acc v)) (\<lambda>acc. int_sum_loop ks acc))"

primrec free_loop :: "(rid \<Rightarrow> (kv_state, unit) kvm) \<Rightarrow> rid list \<Rightarrow> (kv_state, unit) kvm" where
  "free_loop free [] = ret ()"
| "free_loop free (k # ks) = bindE (free k) (\<lambda>_. free_loop free ks)"

definition kv_int_sum_bulk :: "rid list \<Rightarrow> (kv_state, rid) kvm" where
  "kv_int_sum_bulk bulk_data =
     bindE (int_sum_loop bulk_data 0) (\<lambda>acc.
     bindE (putInt INVALID_RID acc True RID_DEFAULT_PARTITION) (\<lambda>key.
     bindE (free_loop freeLocalInt bulk_data) (\<lambda>_. ret key)))"

section \<open>Floats\<close>

definition kv_float_add :: "rid \<Rightarrow> rid \<Rightarrow> (kv_state, rid) kvm" where
  "kv_float_add left right =
     bindE (getFloat left) (\<lambda>l. bindE (getFloat right) (\<lambda>r.
       bindE (lift_sum (Inr (f32_add l r)))
         (\<lambda>v. putFloat INVALID_RID v True RID_DEFAULT_PARTITION)))"

definition kv_float_sub :: "rid \<Rightarrow> rid \<Rightarrow> (kv_state, rid) kvm" where
  "kv_float_sub left right =
     bindE (getFloat left) (\<lambda>l. bindE (getFloat right) (\<lambda>r.
       bindE (lift_sum (Inr (f32_sub l r)))
         (\<lambda>v. putFloat INVALID_RID v True RID_DEFAULT_PARTITION)))"

definition kv_float_mult :: "rid \<Rightarrow> rid \<Rightarrow> (kv_state, rid) kvm" where
  "kv_float_mult left right =
     bindE (getFloat left) (\<lambda>l. bindE (getFloat right) (\<lambda>r.
       bindE (lift_sum (Inr (f32_mult l r)))
         (\<lambda>v. putFloat INVALID_RID v True RID_DEFAULT_PARTITION)))"

definition kv_float_div :: "rid \<Rightarrow> rid \<Rightarrow> (kv_state, rid) kvm" where
  "kv_float_div left right =
     bindE (getFloat left) (\<lambda>l. bindE (getFloat right) (\<lambda>r.
       bindE (lift_sum (Inr (f32_div l r)))
         (\<lambda>v. putFloat INVALID_RID v True RID_DEFAULT_PARTITION)))"

definition kv_float_pow :: "libm \<Rightarrow> rid \<Rightarrow> rid \<Rightarrow> (kv_state, rid) kvm" where
  "kv_float_pow m left right =
     bindE (getFloat left) (\<lambda>l. bindE (getFloat right) (\<lambda>r.
       bindE (lift_sum (Inr (libm_powf m l r)))
         (\<lambda>v. putFloat INVALID_RID v True RID_DEFAULT_PARTITION)))"

definition kv_float_mod :: "rid \<Rightarrow> rid \<Rightarrow> (kv_state, rid) kvm" where
  "kv_float_mod left right =
     bindE (getFloat left) (\<lambda>l. bindE (getFloat right) (\<lambda>r.
       bindE (lift_sum (Inr (f32_fmod l r)))
         (\<lambda>v. putFloat INVALID_RID v True RID_DEFAULT_PARTITION)))"

definition kv_float_cmp :: "rid \<Rightarrow> rid \<Rightarrow> (kv_state, i32) kvm" where
  "kv_float_cmp left right =
     bindE (getFloat left) (\<lambda>l. bindE (getFloat right) (\<lambda>r.
       ret (cmp3 (f32_less r l) (f32_less l r))))"

primrec float_sum_loop :: "rid list \<Rightarrow> f64 \<Rightarrow> (kv_state, f64) kvm" where
  "float_sum_loop [] acc = ret acc"
| "float_sum_loop (k # ks) acc =
     bindE (getFloat k) (\<lambda>v. float_sum_loop ks (f64_add acc (f64_of_f32 v)))"

definition kv_float_sum_bulk :: "rid list \<Rightarrow> (kv_state, rid) kvm" where
  "kv_float_sum_bulk bulk_data =
     bindE (float_sum_loop bulk_data 0) (\<lambda>acc.
     bindE (putFloat INVALID_RID (f32_of_f64 acc) True RID_DEFAULT_PARTITION) (\<lambda>key.
     bindE (free_loop freeLocalFloat bulk_data) (\<lambda>_. ret key)))"

section \<open>Timestamps\<close>

definition kv_timestamp_extract_year :: "rid \<Rightarrow> (kv_state, rid) kvm" where
  "kv_timestamp_extract_year timestamp =
     bindE (getTimestamp timestamp) (\<lambda>t.
       putInt INVALID_RID (timestamp_extract_year t) True RID_DEFAULT_PARTITION)"

definition kv_timestamp_cmp :: "rid \<Rightarrow> rid \<Rightarrow> (kv_state, i32) kvm" where
  "kv_timestamp_cmp left right =
     bindE (getTimestamp left) (\<lambda>l. bindE (getTimestamp right) (\<lambda>r.
       ret (cmp3 (sint l > sint r) (sint l < sint r))))"

section \<open>Texts\<close>

text \<open>\<^verbatim>\<open>strcmp\<close> compares \<^verbatim>\<open>unsigned char\<close>s; only the sign of its result is specified.\<close>

fun strcmp :: "byte list \<Rightarrow> byte list \<Rightarrow> i32" where
  "strcmp [] [] = 0"
| "strcmp [] (b # bs) = - 1"
| "strcmp (a # as) [] = 1"
| "strcmp (a # as) (b # bs) = (if a = b then strcmp as bs else cmp3 (b < a) (a < b))"

definition kv_text_cmp :: "rid \<Rightarrow> rid \<Rightarrow> (kv_state, i32) kvm" where
  "kv_text_cmp left right =
     bindE (getText left) (\<lambda>l. bindE (getText right) (\<lambda>r. ret (strcmp l r)))"

definition kv_text_concat :: "rid \<Rightarrow> rid \<Rightarrow> (kv_state, rid) kvm" where
  "kv_text_concat left right =
     bindE (getText left) (\<lambda>l. bindE (getText right) (\<lambda>r.
       bindE (lift_sum (Inr (l @ r)))
         (\<lambda>v. putText INVALID_RID v True RID_DEFAULT_PARTITION)))"

text \<open>
  \<^verbatim>\<open>malloc(l + 1)\<close>, \<^verbatim>\<open>strncpy(res, t + s, l)\<close>, \<^verbatim>\<open>res[l] = 0\<close>: defined when \<open>l\<close> is not negative
  and \<open>t + s\<close> points into the string.
\<close>

definition substr_copy :: "byte list \<Rightarrow> i32 \<Rightarrow> i32 \<Rightarrow> kvdb_error + byte list" where
  "substr_copy t s l =
     (if sint l < 0 then Inl (Undefined NegativeSize)
      else if \<not> in_int (sint l + 1) then Inl (Undefined SignedOverflow)
      else if sint s < 0 \<or> int (length t) < sint s then Inl (Undefined OverRead)
      else Inr (take (nat (sint l)) (drop (nat (sint s)) t)))"

definition kv_text_substr :: "rid \<Rightarrow> rid \<Rightarrow> rid \<Rightarrow> (kv_state, rid) kvm" where
  "kv_text_substr txt start len =
     bindE (getText txt) (\<lambda>t.
     bindE (getInt start) (\<lambda>s0.
     bindE (lift_sum (c_sub s0 1)) (\<lambda>s.
     bindE (getInt len) (\<lambda>l.
     bindE (lift_sum (substr_copy t s l)) (\<lambda>res.
       putText INVALID_RID res True RID_DEFAULT_PARTITION)))))"

text \<open>The conversion of \<^verbatim>\<open>strlen\<close> to \<^verbatim>\<open>int\<close>: a text is seen up to the wrapped length.\<close>

definition int_prefix :: "byte list \<Rightarrow> byte list" where
  "int_prefix t = take (nat (sint (of_nat (length t) :: i32))) t"

definition kv_text_like :: "rid \<Rightarrow> rid \<Rightarrow> (kv_state, i32) kvm" where
  "kv_text_like txt pattern =
     bindE (getText txt) (\<lambda>t. bindE (getText pattern) (\<lambda>p.
       ret (word_of_int (MatchText (int_prefix t) (int_prefix p)))))"

section \<open>Bulk aggregation\<close>

definition free_set :: "rid set \<Rightarrow> (rid \<Rightarrow> 'v option) \<Rightarrow> rid \<Rightarrow> 'v option" where
  "free_set ks m = (\<lambda>k. if k \<in> ks \<and> islocal k then None else m k)"

lemma free_set_empty [simp]: "free_set {} m = m"
  by (simp add: free_set_def)

lemma free_set_insert: "free_set ks (m(k := None)) = free_set (insert k ks) m" if "islocal k"
  using that by (auto simp: free_set_def fun_eq_iff)

lemma free_set_insert_global: "\<not> islocal k \<Longrightarrow> free_set (insert k ks) = free_set ks"
  by (auto simp: free_set_def fun_eq_iff)

context field_store
begin

lemma free_all:
  "kv_ok s \<Longrightarrow> \<exists>s'. free_loop free ks s = (Inr (), s')
    \<and> kv_view s' = fupd (free_set (set ks)) (kv_view s) \<and> kv_ok s' \<and> kv_fm s' = kv_fm s"
proof (induction ks arbitrary: s)
  case Nil
  then show ?case by (simp add: fupd_same)
next
  case (Cons k ks)
  from free_spec [OF Cons.prems, of k] obtain s1 where
    s1: "free k s = (Inr (), s1)" "kv_ok s1" "kv_fm s1 = kv_fm s"
      "kv_view s1 = (if islocal k then fupd (\<lambda>m. m(k := None)) (kv_view s) else kv_view s)"
    by blast
  from Cons.IH [OF s1(2)] obtain s2 where
    s2: "free_loop free ks s1 = (Inr (), s2)" "kv_view s2 = fupd (free_set (set ks)) (kv_view s1)"
      "kv_ok s2" "kv_fm s2 = kv_fm s1"
    by blast
  have "kv_view s2 = fupd (free_set (set (k # ks))) (kv_view s)"
    using s1(4) s2(2) by (auto simp: fupd_fupd free_set_insert free_set_insert_global)
  with s1 s2 show ?case by simp
qed

lemma put_then_free:
  assumes "kv_ok s" "room s" "\<forall>k \<in> set ks. fsel (kv_view s) k \<noteq> None"
  shows "\<exists>key s'. bindE (put INVALID_RID v True RID_DEFAULT_PARTITION) (\<lambda>key.
      bindE (free_loop free ks) (\<lambda>_. ret key)) s = (Inr key, s')
    \<and> islocal key \<and> fsel (kv_view s) key = None
    \<and> kv_view s' = fupd (\<lambda>m. (free_set (set ks) m)(key \<mapsto> stored v)) (kv_view s) \<and> kv_ok s'"
proof -
  from put_local_spec [OF assms(1,2), of INVALID_RID v RID_DEFAULT_PARTITION] obtain key s1 where
    s1: "put INVALID_RID v True RID_DEFAULT_PARTITION s = (Inr key, s1)" "islocal key"
      "fsel (kv_view s) key = None" "kv_view s1 = fupd (\<lambda>m. m(key \<mapsto> stored v)) (kv_view s)" "kv_ok s1"
    by blast
  from free_all [OF s1(5), of ks] obtain s2 where
    s2: "free_loop free ks s1 = (Inr (), s2)" "kv_view s2 = fupd (free_set (set ks)) (kv_view s1)" "kv_ok s2"
    by blast
  from assms(3) s1(3) have "key \<notin> set ks"
    by blast
  then have "free_set (set ks) (m(key \<mapsto> stored v)) = (free_set (set ks) m)(key \<mapsto> stored v)" for m
    by (auto simp: free_set_def)
  with s1 s2 show ?thesis
    by (auto simp: fupd_fupd)
qed

end

lemma int_sum_loop_ok:
  assumes "kv_ok s" "list_all2 (\<lambda>k v. int_of (kv_view s) k = Some v) ks vs"
    "\<forall>n \<le> length vs. in_int (sint acc + (\<Sum>v\<leftarrow>take n vs. sint v))"
  shows "\<exists>z s'. int_sum_loop ks acc s = (Inr z, s') \<and> sint z = sint acc + (\<Sum>v\<leftarrow>vs. sint v)
    \<and> kv_eqv s s' \<and> kv_ok s'"
  using assms
proof (induction ks arbitrary: vs s acc)
  case Nil
  then show ?case by simp
next
  case (Cons k ks us)
  then obtain v vs where us: "us = v # vs" and hd: "int_of (kv_view s) k = Some v"
    and tl: "list_all2 (\<lambda>k v. int_of (kv_view s) k = Some v) ks vs"
    by (auto simp: list_all2_Cons1)
  from int_field.get_spec [OF Cons.prems(1) hd] obtain s1 where
    s1: "getInt k s = (Inr v, s1)" "kv_eqv s s1" "kv_ok s1"
    by blast
  have rng: "in_int (sint acc + sint v)"
    using Cons.prems(3) [rule_format, of 1] by (simp add: us)
  define z where "z = (word_of_int (sint acc + sint v) :: i32)"
  have z: "c_add acc v = Inr z" "sint z = sint acc + sint v"
    using rng by (simp_all only: c_add_def c_int_def z_def sint_word_of_int_in if_True)
  have "\<forall>n \<le> length vs. in_int (sint z + (\<Sum>v\<leftarrow>take n vs. sint v))"
    using Cons.prems(3) [rule_format, of "Suc _"] by (auto simp: z(2) us add.assoc)
  moreover have "list_all2 (\<lambda>k v. int_of (kv_view s1) k = Some v) ks vs"
    using tl s1(2) by (simp add: kv_eqv_view)
  ultimately obtain y s2 where "int_sum_loop ks z s1 = (Inr y, s2)"
    "sint y = sint z + (\<Sum>v\<leftarrow>vs. sint v)" "kv_eqv s1 s2" "kv_ok s2"
    using Cons.IH [of s1 vs z] s1(3) by auto
  with s1 z show ?case
    by (auto simp: us intro: kv_eqv_trans)
qed

lemma float_sum_loop_ok:
  assumes "kv_ok s" "list_all2 (\<lambda>k v. float_of (kv_view s) k = Some v) ks vs"
  shows "\<exists>s'. float_sum_loop ks acc s = (Inr (foldl (\<lambda>a v. f64_add a (f64_of_f32 v)) acc vs), s')
    \<and> kv_eqv s s' \<and> kv_ok s'"
  using assms
proof (induction ks arbitrary: vs s acc)
  case Nil
  then show ?case by simp
next
  case (Cons k ks us)
  then obtain v vs where us: "us = v # vs" and hd: "float_of (kv_view s) k = Some v"
    and tl: "list_all2 (\<lambda>k v. float_of (kv_view s) k = Some v) ks vs"
    by (auto simp: list_all2_Cons1)
  from float_field.get_spec [OF Cons.prems(1) hd] obtain s1 where
    s1: "getFloat k s = (Inr v, s1)" "kv_eqv s s1" "kv_ok s1"
    by blast
  with Cons.IH [of s1 vs "f64_add acc (f64_of_f32 v)"] tl show ?case
    by (auto simp: us kv_eqv_view [OF s1(2)] intro: kv_eqv_trans)
qed

section \<open>Properties\<close>

text \<open>What an operator promises that stores a computed temporary.\<close>

definition stores_int :: "kv_state \<Rightarrow> (kv_state, rid) kvm \<Rightarrow> int \<Rightarrow> bool" where
  "stores_int s m x \<longleftrightarrow> (\<exists>key s' w. m s = (Inr key, s') \<and> sint w = x \<and> islocal key
     \<and> int_of (kv_view s) key = None
     \<and> kv_view s' = (kv_view s)\<lparr>int_of := (int_of (kv_view s))(key \<mapsto> w)\<rparr> \<and> kv_ok s')"

definition fails_clean :: "kv_state \<Rightarrow> (kv_state, rid) kvm \<Rightarrow> ub \<Rightarrow> bool" where
  "fails_clean s m e \<longleftrightarrow> (\<exists>s'. m s = (Inl (Undefined e), s') \<and> kv_view s' = kv_view s)"

abbreviation int_calc :: "(i32 \<Rightarrow> i32 \<Rightarrow> kvdb_error + i32) \<Rightarrow> rid \<Rightarrow> rid \<Rightarrow> (kv_state, rid) kvm" where
  "int_calc op l r \<equiv> bindE (getInt l) (\<lambda>x. bindE (getInt r) (\<lambda>y. bindE (lift_sum (op x y))
      (\<lambda>z. putInt INVALID_RID z True RID_DEFAULT_PARTITION)))"

lemma int_calc_stores:
  assumes "kv_ok s" "roomInt s" "int_of (kv_view s) l = Some a" "int_of (kv_view s) r = Some b" "op a b = Inr w"
  shows "stores_int s (int_calc op l r) (sint w)"
  using int_field.calc [where op = op, OF assms] by (fastforce simp: stores_int_def)

lemma int_calc_fails:
  assumes "kv_ok s" "int_of (kv_view s) l = Some a" "int_of (kv_view s) r = Some b" "op a b = Inl (Undefined e)"
  shows "fails_clean s (int_calc op l r) e"
  using int_field.calc_error [where op = op, OF assms] by (auto simp: fails_clean_def kv_eqv_view)

lemma int_calc_c_int:
  assumes "kv_ok s" "roomInt s" "int_of (kv_view s) l = Some a" "int_of (kv_view s) r = Some b" "op a b = c_int x"
  shows "if in_int x then stores_int s (int_calc op l r) x else fails_clean s (int_calc op l r) SignedOverflow"
proof (cases "in_int x")
  case True
  with assms(5) have "op a b = Inr (word_of_int x)"
    by (simp only: c_int_def if_True)
  from int_calc_stores [where op = op, OF assms(1-4) this] True show ?thesis
    by (simp only: sint_word_of_int_in if_True)
next
  case False
  with assms(5) int_calc_fails [where op = op, OF assms(1,3,4)] show ?thesis
    by (simp add: c_int_def)
qed

text \<open>
  C18. Addition, subtraction and multiplication of integer fields are exact: the result is a new
  temporary that holds the mathematical result and no other field changes, unless the result
  leaves the range of \<^verbatim>\<open>int\<close>, where the code overflows a signed integer.
\<close>

theorem int_ring_ops_exact:
  assumes "kv_ok s" "roomInt s" "int_of (kv_view s) l = Some a" "int_of (kv_view s) r = Some b"
    "(f, g) \<in> {(kv_int_add, (+)), (kv_int_sub, (-)), (kv_int_mult, (*))}"
  shows "if in_int (g (sint a) (sint b)) then stores_int s (f l r) (g (sint a) (sint b))
    else fails_clean s (f l r) SignedOverflow"
  using assms(5) int_calc_c_int [where op = c_add, OF assms(1-4) c_add_def] int_calc_c_int [where op = c_sub, OF assms(1-4) c_sub_def]
    int_calc_c_int [where op = c_mult, OF assms(1-4) c_mult_def]
  by (auto simp: kv_int_add_def kv_int_sub_def kv_int_mult_def)

text \<open>A worker with the temporaries 7 and -2.\<close>

definition tee_sample :: kv_state where
  "tee_sample = snd (putInt 0 (- 2) True 0 (snd (putInt 0 7 True 0 (kv_init (\<lambda>_. True)))))"

lemma putInt_temporary:
  assumes "kv_ok s" "roomInt s"
  shows "kv_ok (snd (putInt k v True p s))"
    "ls_free (lk_int (kv_local s)) = [] \<Longrightarrow>
      int_of (kv_view (snd (putInt k v True p s))) = (int_of (kv_view s))(idx2local (of_nat (length (ls_store (lk_int (kv_local s))))) \<mapsto> v)"
  using int_field.put_local_spec [OF assms, of k v p]
  by (auto simp: putInt_def lk_putInt_def ls_put_def zoom_def bindE_def)

lemma tee_sample_facts:
  "kv_ok tee_sample" "roomInt tee_sample" "int_of (kv_view tee_sample) (idx2local 0) = Some 7"
  "int_of (kv_view tee_sample) (idx2local 1) = Some (- 2)"
proof -
  let ?s1 = "snd (putInt 0 7 True 0 (kv_init (\<lambda>_. True)))"
  have "idx2local 0 \<noteq> idx2local 1"
    by (simp add: idx2local_inj idx_ok_def)
  moreover have s1: "roomInt ?s1" "ls_free (lk_int (kv_local ?s1)) = []" "length (ls_store (lk_int (kv_local ?s1))) = 1"
    by (simp_all add: roomInt_def putInt_def kv_init_def lk_empty_def lk_putInt_def ls_put_def ls_empty_def
        zoom_def bindE_def ls_room_def)
  moreover have "kv_ok ?s1" "int_of (kv_view ?s1) = [idx2local 0 \<mapsto> 7]"
    using putInt_temporary [of "kv_init (\<lambda>_. True)" 0 7 0]
    by (simp_all add: kv_view_init, simp add: kv_init_def lk_empty_def ls_empty_def)
  ultimately show "kv_ok tee_sample" "int_of (kv_view tee_sample) (idx2local 0) = Some 7"
    "int_of (kv_view tee_sample) (idx2local 1) = Some (- 2)"
    using putInt_temporary [of ?s1 0 "- 2" 0] by (simp_all add: tee_sample_def)
  show "roomInt tee_sample"
    by (simp add: tee_sample_def roomInt_def putInt_def kv_init_def lk_empty_def lk_putInt_def ls_put_def ls_empty_def
        zoom_def bindE_def ls_room_def)
qed

theorem int_ring_ops_exact_witness:
  "stores_int tee_sample (kv_int_mult (idx2local 0) (idx2local 1)) (- 14)"
  using int_ring_ops_exact [OF tee_sample_facts, of kv_int_mult "(*)"] by (simp add: in_int_def)

text \<open>
  C34. Division and modulus of integer fields truncate towards zero, as C++ does; a zero divisor
  is a division by zero, and the most negative integer by minus one overflows, in the modulus as
  well.
\<close>

theorem int_division_truncates:
  assumes "kv_ok s" "roomInt s" "int_of (kv_view s) l = Some a" "int_of (kv_view s) r = Some b"
  shows "if b = 0 then fails_clean s (kv_int_div l r) DivideByZero \<and> fails_clean s (kv_int_mod l r) DivideByZero
    else if sint a = - (2 ^ 31) \<and> b = - 1
    then fails_clean s (kv_int_div l r) SignedOverflow \<and> fails_clean s (kv_int_mod l r) SignedOverflow
    else stores_int s (kv_int_div l r) (sint a sdiv sint b) \<and> stores_int s (kv_int_mod l r) (sint a smod sint b)"
proof -
  have "fails_clean s (int_calc c_div l r) DivideByZero" "fails_clean s (int_calc c_mod l r) DivideByZero" if "b = 0"
    using that by (auto intro!: int_calc_fails [OF assms(1,3,4)] simp: c_div_def c_mod_def)
  moreover have "fails_clean s (int_calc c_div l r) SignedOverflow" "fails_clean s (int_calc c_mod l r) SignedOverflow"
    if "b \<noteq> 0" "sint a = - (2 ^ 31)" "b = - 1"
    using that sdiv_in_int [OF that(1), of a]
    by (auto intro!: int_calc_fails [OF assms(1,3,4)] simp: c_div_def c_mod_def c_int_def)
  moreover have "stores_int s (int_calc c_div l r) (sint a sdiv sint b)"
    "stores_int s (int_calc c_mod l r) (sint a smod sint b)" if "b \<noteq> 0" "\<not> (sint a = - (2 ^ 31) \<and> b = - 1)"
    using that sdiv_in_int [OF that(1), of a] smod_in_int [OF that(1), of a]
      int_calc_c_int [where op = c_div, OF assms, of "sint a sdiv sint b"]
      int_calc_c_int [where op = c_mod, OF assms, of "sint a smod sint b"]
    by (simp_all add: c_div_def c_mod_def)
  ultimately show ?thesis
    by (auto simp: kv_int_div_def kv_int_mod_def)
qed

theorem int_division_truncates_witness:
  "stores_int tee_sample (kv_int_div (idx2local 0) (idx2local 1)) (- 3)
    \<and> stores_int tee_sample (kv_int_mod (idx2local 0) (idx2local 1)) 1"
  using int_division_truncates [OF tee_sample_facts]
  by (simp add: signed_divide_int_def signed_modulo_int_def)

text \<open>How many slots the integer temporaries take.\<close>

definition int_slots :: "kv_state \<Rightarrow> nat" where
  "int_slots s = length (ls_store (lk_int (kv_local s)))"

lemma int_slots_getInt: "getInt k s = (r, s') \<Longrightarrow> int_slots s' = int_slots s"
  by (auto simp: getInt_def lk_getInt_def ls_get_def zoom_def int_slots_def split: if_splits prod.splits)

lemma int_slots_putInt: "putInt k v True p s = (r, s') \<Longrightarrow> int_slots s' \<le> Suc (int_slots s)"
  by (auto simp: putInt_def lk_putInt_def ls_put_def zoom_def bindE_def int_slots_def Let_def split: if_splits)

lemma int_slots_free: "freeLocalInt k s = (r, s') \<Longrightarrow> int_slots s' = int_slots s"
  by (auto simp: freeLocalInt_def lk_eraseInt_def ls_erase_def zoom_def int_slots_def Let_def split: if_splits)

lemma int_slots_free_loop: "free_loop freeLocalInt ks s = (Inr u, s') \<Longrightarrow> int_slots s' = int_slots s"
  by (induction ks arbitrary: s) (auto simp: bindE_eq_Inr dest!: int_slots_free)

lemma int_slots_sum_loop: "int_sum_loop ks acc s = (Inr z, s') \<Longrightarrow> int_slots s' = int_slots s"
  by (induction ks arbitrary: s acc) (auto simp: bindE_eq_Inr dest!: int_slots_getInt)

lemma int_slots_sum_bulk: "kv_int_sum_bulk ks s = (Inr key, s') \<Longrightarrow> int_slots s' \<le> Suc (int_slots s)"
  by (fastforce simp: kv_int_sum_bulk_def bindE_eq_Inr dest: int_slots_sum_loop int_slots_putInt int_slots_free_loop)

lemma int_sum_bulk_ok:
  assumes "kv_ok s" "roomInt s" "list_all2 (\<lambda>k v. int_of (kv_view s) k = Some v) ks vs"
    "\<forall>n \<le> length vs. in_int (\<Sum>v\<leftarrow>take n vs. sint v)"
  shows "\<exists>key s' w. kv_int_sum_bulk ks s = (Inr key, s') \<and> sint w = (\<Sum>v\<leftarrow>vs. sint v)
    \<and> islocal key \<and> int_of (kv_view s) key = None \<and> kv_ok s'
    \<and> kv_view s' = (kv_view s)\<lparr>int_of := (free_set (set ks) (int_of (kv_view s)))(key \<mapsto> w)\<rparr>"
proof -
  from int_sum_loop_ok [OF assms(1,3), of 0] assms(4) obtain w s1 where
    s1: "int_sum_loop ks 0 s = (Inr w, s1)" "sint w = (\<Sum>v\<leftarrow>vs. sint v)" "kv_eqv s s1" "kv_ok s1"
    by auto
  have live: "\<forall>k \<in> set ks. int_of (kv_view s1) k \<noteq> None"
    using assms(3) kv_eqv_view [OF s1(3)] by (auto simp: list_all2_conv_all_nth in_set_conv_nth)
  have "roomInt s1"
    using int_field.room_eqv [OF s1(3)] assms(2) by simp
  from int_field.put_then_free [OF s1(4) this live, of w] obtain key s' where
    "bindE (putInt INVALID_RID w True RID_DEFAULT_PARTITION) (\<lambda>key.
       bindE (free_loop freeLocalInt ks) (\<lambda>_. ret key)) s1 = (Inr key, s')"
    "islocal key" "int_of (kv_view s1) key = None" "kv_ok s'"
    "kv_view s' = int_of_update (\<lambda>m. (free_set (set ks) m)(key \<mapsto> w)) (kv_view s1)"
    by blast
  with s1 kv_eqv_view [OF s1(3)] show ?thesis
    by (auto simp: kv_int_sum_bulk_def)
qed

text \<open>
  \<^verbatim>\<open>kv_int_sum_bulk\<close> adds up the fields it is given when no partial sum leaves the range of
  \<^verbatim>\<open>int\<close>: the sum is a new temporary, the temporaries among the operands are freed, persistent
  operands and all other fields stay.
\<close>

theorem int_sum_bulk_exact:
  assumes "kv_ok s" "roomInt s" "list_all2 (\<lambda>k v. int_of (kv_view s) k = Some v) ks vs"
    "\<forall>n \<le> length vs. in_int (\<Sum>v\<leftarrow>take n vs. sint v)"
  shows "\<exists>key s' w. kv_int_sum_bulk ks s = (Inr key, s') \<and> sint w = (\<Sum>v\<leftarrow>vs. sint v)
    \<and> islocal key \<and> int_of (kv_view s) key = None \<and> kv_ok s'
    \<and> kv_view s' = (kv_view s)\<lparr>int_of := (free_set (set ks) (int_of (kv_view s)))(key \<mapsto> w)\<rparr>"
  by (rule int_sum_bulk_ok [OF assms])

theorem int_sum_bulk_exact_witness:
  "\<exists>key s' w. kv_int_sum_bulk [idx2local 0, idx2local 1, idx2local 0] tee_sample = (Inr key, s')
    \<and> sint w = 12 \<and> int_of (kv_view s') key = Some w
    \<and> (key \<noteq> idx2local 0 \<longrightarrow> int_of (kv_view s') (idx2local 0) = None)"
proof -
  have l: "list_all2 (\<lambda>k v. int_of (kv_view tee_sample) k = Some v)
      [idx2local 0, idx2local 1, idx2local 0] [7, - 2, 7]"
    by (simp add: tee_sample_facts)
  have p: "\<forall>n \<le> length [7, - 2, 7 :: i32]. in_int (\<Sum>v\<leftarrow>take n [7, - 2, 7 :: i32]. sint v)"
    by (simp add: in_int_def le_Suc_eq all_conj_distrib)
  from int_sum_bulk_exact [OF tee_sample_facts(1,2) l p] obtain key s' w where
    "kv_int_sum_bulk [idx2local 0, idx2local 1, idx2local 0] tee_sample = (Inr key, s')"
    "sint w = (\<Sum>v\<leftarrow>[7, - 2, 7 :: i32]. sint v)"
    "kv_view s' = (kv_view tee_sample)\<lparr>int_of := (free_set (set [idx2local 0, idx2local 1, idx2local 0])
      (int_of (kv_view tee_sample)))(key \<mapsto> w)\<rparr>"
    by blast
  then show ?thesis
    by (intro exI [of _ key] exI [of _ s'] exI [of _ w]) (simp add: free_set_def)
qed

context field_store
begin

lemma get2_ret:
  assumes "kv_ok s" "fsel (kv_view s) l = Some a" "fsel (kv_view s) r = Some b"
  shows "\<exists>s'. bindE (get l) (\<lambda>x. bindE (get r) (\<lambda>y. ret (f x y))) s = (Inr (f a b), s') \<and> kv_view s' = kv_view s"
  using get2 [OF assms, of "\<lambda>x y. ret (f x y)"] by (auto simp: kv_eqv_view)

text \<open>A temporary can be read where it was put.\<close>

lemma put_local_read:
  assumes "kv_ok s" "room s"
  shows "\<exists>key s'. put k v True p s = (Inr key, s') \<and> islocal key \<and> fsel (kv_view s') key = Some (stored v)
    \<and> kv_ok s' \<and> kv_fm s' = kv_fm s"
  using put_local_spec [OF assms, of k v p] by (auto simp: fsel_fupd)

end

lemma strcmp_lex:
  "sint (strcmp a b) = (if a = b then 0 else if (a, b) \<in> lexord {(x, y). x < y} then - 1 else 1)"
proof (induction a b rule: strcmp.induct)
  case (4 a as b bs)
  consider "a = b" | "a < b" "a \<noteq> b" "\<not> b < a" | "b < a" "a \<noteq> b" "\<not> a < b"
    by (metis linorder_neqE order.asym)
  then show ?case
  proof cases
    case 1
    then show ?thesis using 4 by simp
  next
    case 2
    then show ?thesis by (simp add: cmp3_def)
  next
    case 3
    then show ?thesis by (simp add: cmp3_def)
  qed
qed simp_all

lemma cmp3_sgn: "sint (cmp3 (y < x) (x < y)) = sgn (x - y :: int)"
  by (simp add: cmp3_def sgn_if)



text \<open>
  C35. \<^verbatim>\<open>LIKE\<close> on fields: for texts and patterns shorter than \<^verbatim>\<open>INT_MAX\<close> the answer is 1 or 0 by the
  language of the pattern, and no field changes.
\<close>

theorem text_like_decides:
  assumes "kv_ok s" "text_of (kv_view s) l = Some t" "text_of (kv_view s) r = Some p"
    "length t < 2 ^ 31" "length p < 2 ^ 31"
  shows "\<exists>s'. kv_text_like l r s = (Inr (if like_spec t p then 1 else 0), s') \<and> kv_view s' = kv_view s"
proof -
  have "int_prefix u = u" if "length u < 2 ^ 31" for u
  proof -
    have "in_int (int (length u))"
      using that by (simp add: in_int_def)
    then have "sint (of_nat (length u) :: i32) = int (length u)"
      using sint_word_of_int_in [of "int (length u)"] by simp
    then show ?thesis
      by (simp add: int_prefix_def)
  qed
  then show ?thesis
    using text_field.get2_ret [OF assms(1-3),
        of "\<lambda>t p. word_of_int (MatchText (int_prefix t) (int_prefix p))"] assms(4,5) match_correct(1) [of t p]
    by (auto simp: kv_text_like_def decides_def like_results simp del: MatchText.simps split: if_splits)
qed

lemma two_texts:
  assumes "is_text t" "is_text p" "length p < STORE_SIZE"
  shows "\<exists>s l r. kv_ok s \<and> text_of (kv_view s) l = Some t \<and> text_of (kv_view s) r = Some p"
proof -
  let ?s0 = "kv_init (\<lambda>_. True)"
  from text_field.put_local_read [OF kv_ok_init, of "\<lambda>_. True" INVALID_RID t 0] assms(1) obtain l s1 where
    s1: "islocal l" "text_of (kv_view s1) l = Some t" "kv_ok s1" "kv_fm s1 = kv_fm ?s0"
    by auto
  have "kv_usable ?s0 7" "groomText p 7 ?s0"
    using assms by (simp_all add: kv_init_usable kv_init_groomText RID_LOCAL_PARTITION_val)
  then have "kv_usable s1 7" "groomText p 7 s1"
    by (simp_all add: kv_usable_def groomText_def s1(4))
  from text_field.put_global_spec [OF s1(3) this] assms(2) obtain r s2 where
    "\<not> islocal r" "kv_view s2 = text_of_update (\<lambda>m. m(r \<mapsto> p)) (kv_view s1)" "kv_ok s2"
    by auto
  with s1 show ?thesis
    by (intro exI [of _ s2] exI [of _ l] exI [of _ r]) auto
qed

theorem text_like_decides_witness:
  "\<exists>s l r s'. text_of (kv_view s) l = Some [97, 98, 99] \<and> text_of (kv_view s) r = Some [97, 95, 37]
    \<and> kv_text_like l r s = (Inr 1, s')"
proof -
  obtain s l r where *: "kv_ok s" "text_of (kv_view s) l = Some [97, 98, 99]"
      "text_of (kv_view s) r = Some [97, 95, 37]"
    using two_texts [of "[97, 98, 99]" "[97, 95, 37]"] by (auto simp: is_text_def text_store_sizes)
  have "MatchText [97, 98, 99] [97, 95, 37] = LIKE_TRUE"
    by code_simp
  then have "like_spec [97, 98, 99] [97, 95, 37]"
    using match_correct(1) [of "[97, 98, 99]" "[97, 95, 37]"]
    by (auto simp: decides_def like_results simp del: MatchText.simps split: if_splits)
  with text_like_decides [OF *] * show ?thesis
    by auto
qed

text \<open>
  \<^verbatim>\<open>kv_float_cmp\<close> reports a NaN as equal to every float: the answer is 0 whenever an operand
  is a NaN.
\<close>

theorem float_cmp_nan_equal:
  assumes "kv_ok s" "float_of (kv_view s) l = Some a" "float_of (kv_view s) r = Some b"
    "is_nan binary32 (unat a) \<or> is_nan binary32 (unat b)"
  shows "\<exists>s'. kv_float_cmp l r s = (Inr 0, s') \<and> kv_view s' = kv_view s"
  using float_field.get2_ret [OF assms(1-3), of "\<lambda>l r. cmp3 (f32_less r l) (f32_less l r)"] assms(4)
  by (auto simp: kv_float_cmp_def cmp3_def f32_less_def fp_less_def)

theorem float_cmp_nan_equal_witness:
  "\<exists>s l s'. float_of (kv_view s) l = Some 0x7FC00000 \<and> kv_float_cmp l l s = (Inr 0, s')"
proof -
  from float_field.put_local_read [OF kv_ok_init, of "\<lambda>_. True" INVALID_RID "0x7FC00000" 0] obtain l s where
    s: "kv_ok s" "float_of (kv_view s) l = Some 0x7FC00000"
    by auto
  have "is_nan binary32 (unat (0x7FC00000 :: f32))"
    by (simp add: is_nan_def fp_abs_def fp_inf_def binary32_def)
  with float_cmp_nan_equal [OF s s(2)] s show ?thesis
    by blast
qed

end
