(* ===== verification/Zeno_Handler.thy ===== *)
theory Zeno_Handler
  imports Zeno_Tee_Ops Zeno_Wal
begin

text \<open>
  The request handler of a worker (\<^verbatim>\<open>handle_ops\<close> of \<^verbatim>\<open>src/src/privacy_zone/handler.cpp\<close>) on the
  bytes of a request region. A request is a structure of \<^verbatim>\<open>src/src/include/request_types.h\<close> at an
  address of the region; the offsets are those of the 64-bit ABI. The switch is split by kind
  of request, in the order of the source: \<open>handle_wal\<close>, \<open>calc_fun\<close>, \<open>cmp_fun\<close>, \<open>bulk_fun\<close>,
  \<open>handle_special\<close>, \<open>handle_put_enc\<close>, \<open>handle_put\<close>, \<open>handle_get_enc\<close>, \<open>handle_get\<close>,
  \<open>handle_batch\<close>, \<open>handle_crypt\<close>, \<open>handle_promote\<close>. A batch calls the handler again; the fuel
  bounds the nesting of batches.
\<close>

section \<open>Commands\<close>

named_theorems cmd_defs \<open>the numbers of the commands\<close>

definition CMD_INT_PUT :: i32 where [cmd_defs]: "CMD_INT_PUT = 1"
definition CMD_INT_GET :: i32 where [cmd_defs]: "CMD_INT_GET = 2"
definition CMD_FLOAT_PUT :: i32 where [cmd_defs]: "CMD_FLOAT_PUT = 3"
definition CMD_FLOAT_GET :: i32 where [cmd_defs]: "CMD_FLOAT_GET = 4"
definition CMD_TEXT_PUT :: i32 where [cmd_defs]: "CMD_TEXT_PUT = 5"
definition CMD_TEXT_GET :: i32 where [cmd_defs]: "CMD_TEXT_GET = 6"
definition CMD_TIMESTAMP_PUT :: i32 where [cmd_defs]: "CMD_TIMESTAMP_PUT = 7"
definition CMD_TIMESTAMP_GET :: i32 where [cmd_defs]: "CMD_TIMESTAMP_GET = 8"
definition CMD_BATCH_PUT :: i32 where [cmd_defs]: "CMD_BATCH_PUT = 9"
definition CMD_BATCH_GET :: i32 where [cmd_defs]: "CMD_BATCH_GET = 10"
definition CMD_INT_ENC :: i32 where [cmd_defs]: "CMD_INT_ENC = 11"
definition CMD_INT_DEC :: i32 where [cmd_defs]: "CMD_INT_DEC = 12"
definition CMD_FLOAT_ENC :: i32 where [cmd_defs]: "CMD_FLOAT_ENC = 13"
definition CMD_FLOAT_DEC :: i32 where [cmd_defs]: "CMD_FLOAT_DEC = 14"
definition CMD_STRING_ENC :: i32 where [cmd_defs]: "CMD_STRING_ENC = 15"
definition CMD_STRING_DEC :: i32 where [cmd_defs]: "CMD_STRING_DEC = 16"
definition CMD_TIMESTAMP_ENC :: i32 where [cmd_defs]: "CMD_TIMESTAMP_ENC = 17"
definition CMD_TIMESTAMP_DEC :: i32 where [cmd_defs]: "CMD_TIMESTAMP_DEC = 18"
definition CMD_INT_PUT_ENC :: i32 where [cmd_defs]: "CMD_INT_PUT_ENC = 19"
definition CMD_INT_GET_ENC :: i32 where [cmd_defs]: "CMD_INT_GET_ENC = 20"
definition CMD_FLOAT_PUT_ENC :: i32 where [cmd_defs]: "CMD_FLOAT_PUT_ENC = 21"
definition CMD_FLOAT_GET_ENC :: i32 where [cmd_defs]: "CMD_FLOAT_GET_ENC = 22"
definition CMD_STRING_PUT_ENC :: i32 where [cmd_defs]: "CMD_STRING_PUT_ENC = 23"
definition CMD_STRING_GET_ENC :: i32 where [cmd_defs]: "CMD_STRING_GET_ENC = 24"
definition CMD_TIMESTAMP_PUT_ENC :: i32 where [cmd_defs]: "CMD_TIMESTAMP_PUT_ENC = 25"
definition CMD_TIMESTAMP_GET_ENC :: i32 where [cmd_defs]: "CMD_TIMESTAMP_GET_ENC = 26"
definition CMD_INT_PLUS :: i32 where [cmd_defs]: "CMD_INT_PLUS = 27"
definition CMD_INT_MINUS :: i32 where [cmd_defs]: "CMD_INT_MINUS = 28"
definition CMD_INT_MULT :: i32 where [cmd_defs]: "CMD_INT_MULT = 29"
definition CMD_INT_DIV :: i32 where [cmd_defs]: "CMD_INT_DIV = 30"
definition CMD_INT_MOD :: i32 where [cmd_defs]: "CMD_INT_MOD = 31"
definition CMD_INT_POW :: i32 where [cmd_defs]: "CMD_INT_POW = 32"
definition CMD_INT_CMP :: i32 where [cmd_defs]: "CMD_INT_CMP = 33"
definition CMD_INT_SUM_BULK :: i32 where [cmd_defs]: "CMD_INT_SUM_BULK = 34"
definition CMD_FLOAT_PLUS :: i32 where [cmd_defs]: "CMD_FLOAT_PLUS = 35"
definition CMD_FLOAT_MINUS :: i32 where [cmd_defs]: "CMD_FLOAT_MINUS = 36"
definition CMD_FLOAT_MULT :: i32 where [cmd_defs]: "CMD_FLOAT_MULT = 37"
definition CMD_FLOAT_DIV :: i32 where [cmd_defs]: "CMD_FLOAT_DIV = 38"
definition CMD_FLOAT_MOD :: i32 where [cmd_defs]: "CMD_FLOAT_MOD = 39"
definition CMD_FLOAT_POW :: i32 where [cmd_defs]: "CMD_FLOAT_POW = 40"
definition CMD_FLOAT_CMP :: i32 where [cmd_defs]: "CMD_FLOAT_CMP = 41"
definition CMD_FLOAT_SUM_BULK :: i32 where [cmd_defs]: "CMD_FLOAT_SUM_BULK = 42"
definition CMD_TEXT_CMP :: i32 where [cmd_defs]: "CMD_TEXT_CMP = 43"
definition CMD_TEXT_SUBSTRING :: i32 where [cmd_defs]: "CMD_TEXT_SUBSTRING = 44"
definition CMD_TEXT_CONCAT :: i32 where [cmd_defs]: "CMD_TEXT_CONCAT = 45"
definition CMD_TEXT_LIKE :: i32 where [cmd_defs]: "CMD_TEXT_LIKE = 46"
definition CMD_TIMESTAMP_CMP :: i32 where [cmd_defs]: "CMD_TIMESTAMP_CMP = 47"
definition CMD_TIMESTAMP_EXTRACT_YEAR :: i32 where [cmd_defs]: "CMD_TIMESTAMP_EXTRACT_YEAR = 48"
definition CMD_PROMOTE_INT :: i32 where [cmd_defs]: "CMD_PROMOTE_INT = 49"
definition CMD_PROMOTE_FLOAT :: i32 where [cmd_defs]: "CMD_PROMOTE_FLOAT = 50"
definition CMD_PROMOTE_TEXT :: i32 where [cmd_defs]: "CMD_PROMOTE_TEXT = 51"
definition CMD_PROMOTE_TIMESTAMP :: i32 where [cmd_defs]: "CMD_PROMOTE_TIMESTAMP = 52"
definition CMD_LOCAL_CLEAR :: i32 where [cmd_defs]: "CMD_LOCAL_CLEAR = 53"
definition CMD_FLUSH :: i32 where [cmd_defs]: "CMD_FLUSH = 54"
definition CMD_TRUNCATE :: i32 where [cmd_defs]: "CMD_TRUNCATE = 55"
definition CMD_REPLAY :: i32 where [cmd_defs]: "CMD_REPLAY = 56"
definition CMD_WAL_APPEND_BATCH :: i32 where [cmd_defs]: "CMD_WAL_APPEND_BATCH = 57"
definition CMD_WAL_MATERIALIZE_BATCH :: i32 where [cmd_defs]: "CMD_WAL_MATERIALIZE_BATCH = 58"
definition CMD_WAL_REPLAY_PAYLOAD :: i32 where [cmd_defs]: "CMD_WAL_REPLAY_PAYLOAD = 59"
definition CMD_CKPT :: i32 where [cmd_defs]: "CMD_CKPT = 60"

definition commands :: "i32 list" where
  "commands = [CMD_INT_PUT, CMD_INT_GET, CMD_FLOAT_PUT, CMD_FLOAT_GET, CMD_TEXT_PUT, CMD_TEXT_GET,
     CMD_TIMESTAMP_PUT, CMD_TIMESTAMP_GET, CMD_BATCH_PUT, CMD_BATCH_GET, CMD_INT_ENC, CMD_INT_DEC,
     CMD_FLOAT_ENC, CMD_FLOAT_DEC, CMD_STRING_ENC, CMD_STRING_DEC, CMD_TIMESTAMP_ENC, CMD_TIMESTAMP_DEC,
     CMD_INT_PUT_ENC, CMD_INT_GET_ENC, CMD_FLOAT_PUT_ENC, CMD_FLOAT_GET_ENC, CMD_STRING_PUT_ENC,
     CMD_STRING_GET_ENC, CMD_TIMESTAMP_PUT_ENC, CMD_TIMESTAMP_GET_ENC, CMD_INT_PLUS, CMD_INT_MINUS,
     CMD_INT_MULT, CMD_INT_DIV, CMD_INT_MOD, CMD_INT_POW, CMD_INT_CMP, CMD_INT_SUM_BULK, CMD_FLOAT_PLUS,
     CMD_FLOAT_MINUS, CMD_FLOAT_MULT, CMD_FLOAT_DIV, CMD_FLOAT_MOD, CMD_FLOAT_POW, CMD_FLOAT_CMP,
     CMD_FLOAT_SUM_BULK, CMD_TEXT_CMP, CMD_TEXT_SUBSTRING, CMD_TEXT_CONCAT, CMD_TEXT_LIKE, CMD_TIMESTAMP_CMP,
     CMD_TIMESTAMP_EXTRACT_YEAR, CMD_PROMOTE_INT, CMD_PROMOTE_FLOAT, CMD_PROMOTE_TEXT, CMD_PROMOTE_TIMESTAMP,
     CMD_LOCAL_CLEAR, CMD_FLUSH, CMD_TRUNCATE, CMD_REPLAY, CMD_WAL_APPEND_BATCH, CMD_WAL_MATERIALIZE_BATCH,
     CMD_WAL_REPLAY_PAYLOAD, CMD_CKPT]"

lemma commands_distinct: "distinct commands" and commands_positive: "list_all (\<lambda>c. 0 < sint c) commands"
  by (simp_all add: commands_def cmd_defs)

section \<open>Memory\<close>

definition REQ_REGION_SIZE :: nat where "REQ_REGION_SIZE = 1048576"

definition ld :: "nat \<Rightarrow> nat \<Rightarrow> (worker_state, byte list) kvm" where
  "ld a n = (\<lambda>s. (Inr (rd_bytes (ws_mem s) a n), s))"

definition ld32 :: "nat \<Rightarrow> (worker_state, u32) kvm" where
  "ld32 a = (\<lambda>s. (Inr (rd32 (ws_mem s) a), s))"

definition ld64 :: "nat \<Rightarrow> (worker_state, u64) kvm" where
  "ld64 a = (\<lambda>s. (Inr (rd64 (ws_mem s) a), s))"

definition st :: "nat \<Rightarrow> byte list \<Rightarrow> (worker_state, unit) kvm" where
  "st a bs = (\<lambda>s. (Inr (), s\<lparr>ws_mem := wr_bytes (ws_mem s) a bs\<rparr>))"

abbreviation st32 :: "nat \<Rightarrow> u32 \<Rightarrow> (worker_state, unit) kvm" where
  "st32 a w \<equiv> st a (le_bytes 4 w)"

abbreviation st64 :: "nat \<Rightarrow> u64 \<Rightarrow> (worker_state, unit) kvm" where
  "st64 a w \<equiv> st a (le_bytes 8 w)"

definition ld_cstr :: "nat \<Rightarrow> (worker_state, byte list) kvm" where
  "ld_cstr a = (\<lambda>s. case read_cstr (ws_mem s) a REQ_REGION_SIZE of
       None \<Rightarrow> (Inl (Undefined OverRead), s)
     | Some t \<Rightarrow> (Inr t, s))"

section \<open>Log requests\<close>

definition ld_items :: "nat \<Rightarrow> nat \<Rightarrow> (worker_state, wal_item list) kvm" where
  "ld_items a n = (\<lambda>s. (Inr (map (\<lambda>i. \<lparr>it_type = rd32 (ws_mem s) (a + 16 * i),
     it_rid = rd64 (ws_mem s) (a + 16 * i + 8)\<rparr>) [0..<n]), s))"

definition WAL_RID_BATCH_SIZE :: int where "WAL_RID_BATCH_SIZE = 4096"

definition handle_append :: "nat \<Rightarrow> (worker_state, unit) kvm" where
  "handle_append a =
     bindE (ld32 (a + 12)) (\<lambda>nitems.
     bindE (kvdb_check (0 \<le> sint nitems \<and> sint nitems \<le> WAL_RID_BATCH_SIZE) WalBatchSize) (\<lambda>_.
     bindE (ld_items (a + 16) (nat (sint nitems))) (\<lambda>items.
     on_wal (appendBatch items))))"

definition handle_materialize :: "mbedtls \<Rightarrow> nat \<Rightarrow> (worker_state, unit) kvm" where
  "handle_materialize lib a =
     bindE (ld32 (a + 12)) (\<lambda>nitems.
     bindE (kvdb_check (0 \<le> sint nitems \<and> sint nitems \<le> int WAL_MATERIALIZE_RID_BATCH_SIZE) WalBatchSize) (\<lambda>_.
     bindE (ld_items (a + 24) (nat (sint nitems))) (\<lambda>items.
     bindE (materializeBatch lib items (REQ_REGION_SIZE - 48024)) (\<lambda>payload.
     bindE (st (a + 48024) payload) (\<lambda>_.
     st64 (a + 16) (of_nat (length payload)))))))"

definition handle_replay_payload :: "mbedtls \<Rightarrow> nat \<Rightarrow> (worker_state, unit) kvm" where
  "handle_replay_payload lib a =
     bindE (ld64 (a + 16)) (\<lambda>payload_len.
     bindE (kvdb_check (unat payload_len \<le> REQ_REGION_SIZE - 24) WalPayloadCapacity) (\<lambda>_.
     bindE (ld (a + 24) (unat payload_len)) (\<lambda>payload.
     replayPayload lib payload)))"

definition handle_wal :: "mbedtls \<Rightarrow> i32 \<Rightarrow> nat \<Rightarrow> (worker_state, unit) kvm option" where
  "handle_wal lib t a =
     (if t = CMD_LOCAL_CLEAR then Some (on_kv (zoom kv_local kv_local_update lk_clear))
      else if t = CMD_TRUNCATE then Some wal_truncate
      else if t = CMD_REPLAY then Some wal_replay
      else if t = CMD_FLUSH then Some wal_flush
      else if t = CMD_CKPT then Some (ret ())
      else if t = CMD_WAL_APPEND_BATCH then Some (handle_append a)
      else if t = CMD_WAL_MATERIALIZE_BATCH then Some (handle_materialize lib a)
      else if t = CMD_WAL_REPLAY_PAYLOAD then Some (handle_replay_payload lib a)
      else None)"

section \<open>Operators\<close>

definition calc_fun :: "libm \<Rightarrow> i32 \<Rightarrow> (rid \<Rightarrow> rid \<Rightarrow> (kv_state, rid) kvm) option" where
  "calc_fun m t =
     (if t = CMD_INT_PLUS then Some kv_int_add
      else if t = CMD_INT_MINUS then Some kv_int_sub
      else if t = CMD_INT_MULT then Some kv_int_mult
      else if t = CMD_INT_DIV then Some kv_int_div
      else if t = CMD_INT_POW then Some (kv_int_pow m)
      else if t = CMD_INT_MOD then Some kv_int_mod
      else if t = CMD_FLOAT_PLUS then Some kv_float_add
      else if t = CMD_FLOAT_MINUS then Some kv_float_sub
      else if t = CMD_FLOAT_MULT then Some kv_float_mult
      else if t = CMD_FLOAT_DIV then Some kv_float_div
      else if t = CMD_FLOAT_POW then Some (kv_float_pow m)
      else if t = CMD_FLOAT_MOD then Some kv_float_mod
      else if t = CMD_TEXT_CONCAT then Some kv_text_concat
      else None)"

definition handle_calc :: "(rid \<Rightarrow> rid \<Rightarrow> (kv_state, rid) kvm) \<Rightarrow> nat \<Rightarrow> (worker_state, unit) kvm" where
  "handle_calc f a =
     bindE (ld64 (a + 16)) (\<lambda>left. bindE (ld64 (a + 24)) (\<lambda>right.
     bindE (on_kv (f left right)) (\<lambda>res. st64 (a + 32) res)))"

definition cmp_fun :: "i32 \<Rightarrow> (rid \<Rightarrow> rid \<Rightarrow> (kv_state, i32) kvm) option" where
  "cmp_fun t =
     (if t = CMD_INT_CMP then Some kv_int_cmp
      else if t = CMD_FLOAT_CMP then Some kv_float_cmp
      else if t = CMD_TIMESTAMP_CMP then Some kv_timestamp_cmp
      else if t = CMD_TEXT_LIKE then Some kv_text_like
      else if t = CMD_TEXT_CMP then Some kv_text_cmp
      else None)"

definition handle_cmp :: "(rid \<Rightarrow> rid \<Rightarrow> (kv_state, i32) kvm) \<Rightarrow> nat \<Rightarrow> (worker_state, unit) kvm" where
  "handle_cmp f a =
     bindE (ld64 (a + 16)) (\<lambda>left. bindE (ld64 (a + 24)) (\<lambda>right.
     bindE (on_kv (f left right)) (\<lambda>cmp. st32 (a + 32) cmp)))"

definition BULK_SIZE :: nat where "BULK_SIZE = 256"

definition bulk_fun :: "i32 \<Rightarrow> (rid list \<Rightarrow> (kv_state, rid) kvm) option" where
  "bulk_fun t =
     (if t = CMD_INT_SUM_BULK then Some kv_int_sum_bulk
      else if t = CMD_FLOAT_SUM_BULK then Some kv_float_sum_bulk
      else None)"

definition handle_bulk :: "(rid list \<Rightarrow> (kv_state, rid) kvm) \<Rightarrow> nat \<Rightarrow> (worker_state, unit) kvm" where
  "handle_bulk f a =
     bindE (ld32 (a + 12)) (\<lambda>bulk_size s.
     if sint bulk_size < 0 \<or> int BULK_SIZE < sint bulk_size then (Inl (Undefined OverRead), s)
     else bindE (on_kv (f (map (\<lambda>i. rd64 (ws_mem s) (a + 16 + 8 * i)) [0..<nat (sint bulk_size)])))
       (\<lambda>res. st64 (a + 2064) res) s)"

definition handle_special :: "i32 \<Rightarrow> nat \<Rightarrow> (worker_state, unit) kvm option" where
  "handle_special t a =
     (if t = CMD_TIMESTAMP_EXTRACT_YEAR then Some (
        bindE (ld64 (a + 16)) (\<lambda>inp.
        bindE (on_kv (kv_timestamp_extract_year inp)) (\<lambda>res. st64 (a + 24) res)))
      else if t = CMD_TEXT_SUBSTRING then Some (
        bindE (ld64 (a + 16)) (\<lambda>str. bindE (ld64 (a + 24)) (\<lambda>start. bindE (ld64 (a + 32)) (\<lambda>len.
        bindE (on_kv (kv_text_substr str start len)) (\<lambda>res. st64 (a + 40) res)))))
      else None)"

section \<open>Fields in and out\<close>

text \<open>
  \<^verbatim>\<open>CMD_STRING_PUT_ENC\<close>: the length comes from the request; the plaintext buffer has
  540 bytes, and its terminating NUL is written after them.
\<close>

definition put_enc_text :: "mbedtls \<Rightarrow> nat \<Rightarrow> (worker_state, rid) kvm" where
  "put_enc_text lib a =
     bindE (ld32 (a + 24)) (\<lambda>len.
     let plen = unat (len - 28) in
     bindE (ld (a + 28) (unat len)) (\<lambda>src s.
     if IV_SIZE + TAG_SIZE \<le> unat len \<and> STRING_LENGTH < plen then (Inl (Undefined BufferOverflow), s)
     else bindE (on_crypto (decrypt_bytes lib src plen)) (\<lambda>pt s.
       if STRING_LENGTH \<le> plen then (Inl (Undefined BufferOverflow), s)
       else on_kv (putText INVALID_RID (pt @ [0]) True RID_DEFAULT_PARTITION) s) s))"

definition handle_put_enc :: "mbedtls \<Rightarrow> i32 \<Rightarrow> nat \<Rightarrow> (worker_state, unit) kvm option" where
  "handle_put_enc lib t a =
     (if t = CMD_INT_PUT_ENC then Some (
        bindE (ld (a + 24) 32) (\<lambda>src. bindE (on_crypto (decrypt_bytes lib src 4)) (\<lambda>pt.
        bindE (on_kv (putInt INVALID_RID (le_word pt) True RID_DEFAULT_PARTITION)) (\<lambda>res. st64 (a + 16) res))))
      else if t = CMD_FLOAT_PUT_ENC then Some (
        bindE (ld (a + 24) 32) (\<lambda>src. bindE (on_crypto (decrypt_bytes lib src 4)) (\<lambda>pt.
        bindE (on_kv (putFloat INVALID_RID (le_word pt) True RID_DEFAULT_PARTITION)) (\<lambda>res. st64 (a + 16) res))))
      else if t = CMD_TIMESTAMP_PUT_ENC then Some (
        bindE (ld (a + 24) 36) (\<lambda>src. bindE (on_crypto (decrypt_bytes lib src 8)) (\<lambda>pt.
        bindE (on_kv (putTimestamp INVALID_RID (le_word pt) True RID_DEFAULT_PARTITION)) (\<lambda>res. st64 (a + 16) res))))
      else if t = CMD_STRING_PUT_ENC then Some (
        bindE (put_enc_text lib a) (\<lambda>res. st64 (a + 16) res))
      else None)"

definition handle_put :: "i32 \<Rightarrow> nat \<Rightarrow> (worker_state, unit) kvm option" where
  "handle_put t a =
     (if t = CMD_INT_PUT then Some (
        bindE (ld32 (a + 32)) (\<lambda>v.
        bindE (on_kv (putInt INVALID_RID v False RID_DEFAULT_PARTITION)) (\<lambda>key. st64 (a + 24) key)))
      else if t = CMD_FLOAT_PUT then Some (
        bindE (ld32 (a + 32)) (\<lambda>v.
        bindE (on_kv (putFloat INVALID_RID v False RID_DEFAULT_PARTITION)) (\<lambda>key. st64 (a + 24) key)))
      else if t = CMD_TIMESTAMP_PUT then Some (
        bindE (ld64 (a + 32)) (\<lambda>v.
        bindE (on_kv (putTimestamp INVALID_RID v False RID_DEFAULT_PARTITION)) (\<lambda>key. st64 (a + 24) key)))
      else if t = CMD_TEXT_PUT then Some (
        bindE (ld_cstr (a + 32)) (\<lambda>v.
        bindE (on_kv (putText INVALID_RID v False RID_DEFAULT_PARTITION)) (\<lambda>key. st64 (a + 24) key)))
      else None)"

definition get_enc_text :: "mbedtls \<Rightarrow> nat \<Rightarrow> (worker_state, unit) kvm" where
  "get_enc_text lib a =
     bindE (ld64 (a + 584)) (\<lambda>dec.
     bindE (on_kv (getText dec)) (\<lambda>t s.
     if STRING_LENGTH < length t + 1 then (Inl (Undefined BufferOverflow), s)
     else bindE (st32 (a + 12) (of_nat (length t) + 28)) (\<lambda>_.
       bindE (on_crypto (encrypt_bytes lib t (length t + 28))) (\<lambda>ct. st (a + 16) ct)) s))"

definition handle_get_enc :: "mbedtls \<Rightarrow> i32 \<Rightarrow> nat \<Rightarrow> (worker_state, unit) kvm option" where
  "handle_get_enc lib t a =
     (if t = CMD_INT_GET_ENC then Some (
        bindE (ld64 (a + 48)) (\<lambda>dec. bindE (on_kv (getInt dec)) (\<lambda>v.
        bindE (on_crypto (encrypt_bytes lib (le_bytes 4 v) 32)) (\<lambda>ct. st (a + 12) ct))))
      else if t = CMD_FLOAT_GET_ENC then Some (
        bindE (ld64 (a + 48)) (\<lambda>dec. bindE (on_kv (getFloat dec)) (\<lambda>v.
        bindE (on_crypto (encrypt_bytes lib (le_bytes 4 v) 32)) (\<lambda>ct. st (a + 12) ct))))
      else if t = CMD_TIMESTAMP_GET_ENC then Some (
        bindE (ld64 (a + 48)) (\<lambda>dec. bindE (on_kv (getTimestamp dec)) (\<lambda>v.
        bindE (on_crypto (encrypt_bytes lib (le_bytes 8 v) 36)) (\<lambda>ct. st (a + 12) ct))))
      else if t = CMD_STRING_GET_ENC then Some (get_enc_text lib a)
      else None)"

text \<open>
  \<^verbatim>\<open>memcpy(value, getText(key), STRING_LENGTH)\<close>: a temporary is a \<^verbatim>\<open>std::string\<close> of its own
  length, so the copy may read past it.
\<close>

definition getText_raw :: "nat \<Rightarrow> rid \<Rightarrow> (kv_state, byte list) kvm" where
  "getText_raw n key =
     (if islocal key then
        bindE (zoom kv_local kv_local_update (lk_getString (local2idx key))) (\<lambda>t.
          if n \<le> length t + 1 then ret (take n (t @ [0])) else raise (Undefined OverRead))
      else zoom kv_fm kv_fm_update (fm_getString_raw n key))"

definition handle_get :: "i32 \<Rightarrow> nat \<Rightarrow> (worker_state, unit) kvm option" where
  "handle_get t a =
     (if t = CMD_INT_GET then Some (
        bindE (ld64 (a + 24)) (\<lambda>key. bindE (on_kv (getInt key)) (\<lambda>v. st32 (a + 32) v)))
      else if t = CMD_FLOAT_GET then Some (
        bindE (ld64 (a + 24)) (\<lambda>key. bindE (on_kv (getFloat key)) (\<lambda>v. st32 (a + 32) v)))
      else if t = CMD_TIMESTAMP_GET then Some (
        bindE (ld64 (a + 24)) (\<lambda>key. bindE (on_kv (getTimestamp key)) (\<lambda>v. st64 (a + 32) v)))
      else if t = CMD_TEXT_GET then Some (
        bindE (ld64 (a + 24)) (\<lambda>key. bindE (on_kv (getText_raw STRING_LENGTH key)) (\<lambda>bs. st (a + 32) bs)))
      else None)"

section \<open>Batches\<close>

text \<open>
  \<open>h\<close> is the handler itself. The size of a request is read before and after it is handled. A
  request outside the region is a read past it.
\<close>

primrec batch_loop :: "(nat \<Rightarrow> (worker_state, i32) kvm) \<Rightarrow> nat \<Rightarrow> nat \<Rightarrow> (worker_state, unit) kvm" where
  "batch_loop h 0 p = ret ()"
| "batch_loop h (Suc n) p =
     (if REQ_REGION_SIZE < p + 32 then raise (Undefined OverRead)
      else
       bindE (ld64 (p + 16)) (\<lambda>size.
       bindE (kvdb_check (size \<noteq> 0) EmptyBatchRequest) (\<lambda>_.
       bindE (h p) (\<lambda>_.
       bindE (ld64 (p + 16)) (\<lambda>size. batch_loop h n (p + unat size))))))"

definition handle_batch :: "(nat \<Rightarrow> (worker_state, i32) kvm) \<Rightarrow> i32 \<Rightarrow> nat \<Rightarrow> (worker_state, unit) kvm option" where
  "handle_batch h t a =
     (if t = CMD_BATCH_GET \<or> t = CMD_BATCH_PUT then Some (
        bindE (ld32 (a + 24)) (\<lambda>nreqs. batch_loop h (nat (sint nreqs)) (a + 28)))
      else None)"

section \<open>Encryption requests\<close>

definition enc_req :: "mbedtls \<Rightarrow> nat \<Rightarrow> nat \<Rightarrow> nat \<Rightarrow> (worker_state, unit) kvm" where
  "enc_req lib src n dst =
     bindE (ld src n) (\<lambda>pt. bindE (on_crypto (encrypt_bytes lib pt (n + 28))) (\<lambda>ct. st dst ct))"

definition dec_req :: "mbedtls \<Rightarrow> nat \<Rightarrow> nat \<Rightarrow> nat \<Rightarrow> (worker_state, unit) kvm" where
  "dec_req lib src n dst =
     bindE (ld src (n + 28)) (\<lambda>ct. bindE (on_crypto (decrypt_bytes lib ct n)) (\<lambda>pt. st dst pt))"

definition string_enc :: "mbedtls \<Rightarrow> nat \<Rightarrow> (worker_state, unit) kvm" where
  "string_enc lib a =
     bindE (ld32 (a + 12)) (\<lambda>len.
     bindE (kvdb_check (unat len < STRING_LENGTH) StringLength) (\<lambda>_.
     bindE (st32 (a + 556) (len + 28)) (\<lambda>_.
     enc_req lib (a + 16) (unat len) (a + 560))))"

definition string_dec :: "mbedtls \<Rightarrow> nat \<Rightarrow> (worker_state, unit) kvm" where
  "string_dec lib a =
     bindE (ld32 (a + 12)) (\<lambda>len.
     bindE (kvdb_check (IV_SIZE + TAG_SIZE \<le> unat len \<and> unat len < STRING_LENGTH + IV_SIZE + TAG_SIZE)
       StringLength) (\<lambda>_.
     bindE (st32 (a + 584) (len - 28)) (\<lambda>_.
     bindE (dec_req lib (a + 16) (unat len - 28) (a + 588)) (\<lambda>_.
     st (a + 588 + (unat len - 28)) [0]))))"

definition handle_crypt :: "mbedtls \<Rightarrow> i32 \<Rightarrow> nat \<Rightarrow> (worker_state, unit) kvm option" where
  "handle_crypt lib t a =
     (if t = CMD_INT_ENC then Some (enc_req lib (a + 12) 4 (a + 16))
      else if t = CMD_INT_DEC then Some (dec_req lib (a + 12) 4 (a + 44))
      else if t = CMD_FLOAT_ENC then Some (enc_req lib (a + 12) 4 (a + 16))
      else if t = CMD_FLOAT_DEC then Some (dec_req lib (a + 12) 4 (a + 44))
      else if t = CMD_TIMESTAMP_ENC then Some (enc_req lib (a + 16) 8 (a + 24))
      else if t = CMD_TIMESTAMP_DEC then Some (dec_req lib (a + 12) 8 (a + 48))
      else if t = CMD_STRING_ENC then Some (string_enc lib a)
      else if t = CMD_STRING_DEC then Some (string_dec lib a)
      else None)"

section \<open>Promotion\<close>

definition promote_field ::
  "(rid \<Rightarrow> 'v \<Rightarrow> bool \<Rightarrow> rid \<Rightarrow> (kv_state, rid) kvm) \<Rightarrow> (rid \<Rightarrow> (kv_state, 'v) kvm)
    \<Rightarrow> (rid \<Rightarrow> (kv_state, unit) kvm) \<Rightarrow> rid \<Rightarrow> rid \<Rightarrow> rid \<Rightarrow> (kv_state, rid) kvm" where
  "promote_field put get free loc target part =
     bindE (get loc) (\<lambda>v. bindE (put target v False part) (\<lambda>global.
     bindE (free loc) (\<lambda>_. ret global)))"

definition promote_fun :: "i32 \<Rightarrow> (rid \<Rightarrow> rid \<Rightarrow> rid \<Rightarrow> (kv_state, rid) kvm) option" where
  "promote_fun t =
     (if t = CMD_PROMOTE_INT then Some (promote_field putInt getInt freeLocalInt)
      else if t = CMD_PROMOTE_FLOAT then Some (promote_field putFloat getFloat freeLocalFloat)
      else if t = CMD_PROMOTE_TEXT then Some (promote_field putText getText freeLocalText)
      else if t = CMD_PROMOTE_TIMESTAMP then Some (promote_field putTimestamp getTimestamp freeLocalTimestamp)
      else None)"

definition handle_promote :: "(rid \<Rightarrow> rid \<Rightarrow> rid \<Rightarrow> (kv_state, rid) kvm) \<Rightarrow> nat \<Rightarrow> (worker_state, unit) kvm" where
  "handle_promote f a =
     bindE (ld64 (a + 16)) (\<lambda>loc. bindE (ld64 (a + 24)) (\<lambda>target. bindE (ld64 (a + 32)) (\<lambda>part.
     bindE (on_kv (f loc target part)) (\<lambda>global. st64 (a + 40) global))))"

section \<open>The switch\<close>

text \<open>The first group that knows the command handles it; an unknown command does nothing.\<close>

primrec first_some :: "'a option list \<Rightarrow> 'a option" where
  "first_some [] = None"
| "first_some (x # xs) = (case x of None \<Rightarrow> first_some xs | Some y \<Rightarrow> Some y)"

definition dispatch ::
  "libm \<Rightarrow> mbedtls \<Rightarrow> (nat \<Rightarrow> (worker_state, i32) kvm) \<Rightarrow> i32 \<Rightarrow> nat \<Rightarrow> (worker_state, unit) kvm" where
  "dispatch m lib h t a =
     (case first_some
        [handle_wal lib t a,
         map_option (\<lambda>f. handle_calc f a) (calc_fun m t),
         map_option (\<lambda>f. handle_cmp f a) (cmp_fun t),
         map_option (\<lambda>f. handle_bulk f a) (bulk_fun t),
         handle_special t a,
         handle_put_enc lib t a,
         handle_put t a,
         handle_get_enc lib t a,
         handle_get t a,
         handle_batch h t a,
         handle_crypt lib t a,
         map_option (\<lambda>f. handle_promote f a) (promote_fun t)] of
       None \<Rightarrow> ret ()
     | Some c \<Rightarrow> c)"

primrec handle_ops :: "libm \<Rightarrow> mbedtls \<Rightarrow> nat \<Rightarrow> nat \<Rightarrow> (worker_state, i32) kvm" where
  "handle_ops m lib 0 a = raise (Undefined FuelExhausted)"
| "handle_ops m lib (Suc fuel) a =
     bindE (ld32 (a + 4)) (\<lambda>t.
     bindE (dispatch m lib (handle_ops m lib fuel) t a) (\<lambda>_.
     bindE (st32 (a + 8) 0) (\<lambda>_. ret 0)))"

section \<open>Running a request\<close>

lemma ld_run [simp]: "ld a n s = (Inr (rd_bytes (ws_mem s) a n), s)"
  by (simp add: ld_def)

lemma ld32_run [simp]: "ld32 a s = (Inr (rd32 (ws_mem s) a), s)"
  by (simp add: ld32_def)

lemma ld64_run [simp]: "ld64 a s = (Inr (rd64 (ws_mem s) a), s)"
  by (simp add: ld64_def)

lemma st_run [simp]: "st a bs s = (Inr (), s\<lparr>ws_mem := wr_bytes (ws_mem s) a bs\<rparr>)"
  by (simp add: st_def)

lemma on_kv_run: "m (ws_kv s) = (r, k) \<Longrightarrow> on_kv m s = (r, s\<lparr>ws_kv := k\<rparr>)"
  by (simp add: on_kv_def zoom_def)

lemma on_crypto_run: "m (ws_crypto s) = (r, k) \<Longrightarrow> on_crypto m s = (r, s\<lparr>ws_crypto := k\<rparr>)"
  by (simp add: on_crypto_def zoom_def)

lemma dispatch_wal: "handle_wal lib t a = Some c \<Longrightarrow> dispatch m lib h t a = c"
  by (simp add: dispatch_def)

lemma calc_fun_cases:
  "calc_fun m t = Some f \<Longrightarrow> t \<in> {CMD_INT_PLUS, CMD_INT_MINUS, CMD_INT_MULT, CMD_INT_DIV, CMD_INT_POW,
    CMD_INT_MOD, CMD_FLOAT_PLUS, CMD_FLOAT_MINUS, CMD_FLOAT_MULT, CMD_FLOAT_DIV, CMD_FLOAT_POW,
    CMD_FLOAT_MOD, CMD_TEXT_CONCAT}"
  by (simp add: calc_fun_def split: if_splits)

lemma dispatch_calc: "calc_fun m t = Some f \<Longrightarrow> dispatch m lib h t a = handle_calc f a"
proof -
  assume f: "calc_fun m t = Some f"
  then have "handle_wal lib t a = None"
    using calc_fun_cases [OF f] by (auto simp: handle_wal_def cmd_defs)
  with f show ?thesis by (simp add: dispatch_def)
qed

lemma cmp_fun_cases:
  "cmp_fun t = Some f \<Longrightarrow> t \<in> {CMD_INT_CMP, CMD_FLOAT_CMP, CMD_TIMESTAMP_CMP, CMD_TEXT_LIKE, CMD_TEXT_CMP}"
  by (simp add: cmp_fun_def split: if_splits)

lemma dispatch_cmp: "cmp_fun t = Some f \<Longrightarrow> dispatch m lib h t a = handle_cmp f a"
proof -
  assume f: "cmp_fun t = Some f"
  then have "handle_wal lib t a = None" "calc_fun m t = None"
    using cmp_fun_cases [OF f] by (auto simp: handle_wal_def calc_fun_def cmd_defs)
  with f show ?thesis by (simp add: dispatch_def)
qed

lemma bulk_fun_cases: "bulk_fun t = Some f \<Longrightarrow> t \<in> {CMD_INT_SUM_BULK, CMD_FLOAT_SUM_BULK}"
  by (simp add: bulk_fun_def split: if_splits)

lemma dispatch_bulk: "bulk_fun t = Some f \<Longrightarrow> dispatch m lib h t a = handle_bulk f a"
proof -
  assume f: "bulk_fun t = Some f"
  then have "handle_wal lib t a = None" "calc_fun m t = None" "cmp_fun t = None"
    using bulk_fun_cases [OF f] by (auto simp: handle_wal_def calc_fun_def cmp_fun_def cmd_defs)
  with f show ?thesis by (simp add: dispatch_def)
qed

lemma promote_fun_cases: "promote_fun t = Some f \<Longrightarrow>
    t \<in> {CMD_PROMOTE_INT, CMD_PROMOTE_FLOAT, CMD_PROMOTE_TEXT, CMD_PROMOTE_TIMESTAMP}"
  by (simp add: promote_fun_def split: if_splits)

lemma dispatch_promote: "promote_fun t = Some f \<Longrightarrow> dispatch m lib h t a = handle_promote f a"
proof -
  assume f: "promote_fun t = Some f"
  note t = promote_fun_cases [OF f]
  have "handle_wal lib t a = None" "calc_fun m t = None" "cmp_fun t = None" "bulk_fun t = None"
    "handle_special t a = None" "handle_put t a = None" "handle_get t a = None"
    "handle_batch h t a = None"
    using t by (auto simp: handle_wal_def calc_fun_def cmp_fun_def bulk_fun_def handle_special_def
        handle_put_def handle_get_def handle_batch_def cmd_defs)
  moreover have "handle_put_enc lib t a = None" "handle_get_enc lib t a = None" "handle_crypt lib t a = None"
    using t by (auto simp: handle_put_enc_def handle_get_enc_def handle_crypt_def cmd_defs)
  ultimately show ?thesis
    using f by (simp add: dispatch_def)
qed

lemma handle_ops_done:
  assumes "dispatch m lib (handle_ops m lib fuel) (rd32 (ws_mem s) (a + 4)) a s = (Inr (), s')"
  shows "handle_ops m lib (Suc fuel) a s = (Inr 0, s'\<lparr>ws_mem := wr32 (ws_mem s') (a + 8) 0\<rparr>)"
  using assms by simp

lemma handle_ops_calc:
  assumes "calc_fun m (rd32 (ws_mem s) (a + 4)) = Some f"
    "f (rd64 (ws_mem s) (a + 16)) (rd64 (ws_mem s) (a + 24)) (ws_kv s) = (Inr res, k)"
  shows "handle_ops m lib (Suc fuel) a s = (Inr 0, s\<lparr>ws_kv := k,
    ws_mem := wr32 (wr64 (ws_mem s) (a + 32) res) (a + 8) 0\<rparr>)"
  using handle_ops_done [of m lib fuel s a "s\<lparr>ws_kv := k, ws_mem := wr64 (ws_mem s) (a + 32) res\<rparr>"]
    dispatch_calc [OF assms(1)] assms(2)
  by (simp add: handle_calc_def on_kv_def zoom_def bindE_def)

lemma handle_ops_cmp:
  assumes "cmp_fun (rd32 (ws_mem s) (a + 4)) = Some f"
    "f (rd64 (ws_mem s) (a + 16)) (rd64 (ws_mem s) (a + 24)) (ws_kv s) = (Inr res, k)"
  shows "handle_ops m lib (Suc fuel) a s = (Inr 0, s\<lparr>ws_kv := k,
    ws_mem := wr32 (wr32 (ws_mem s) (a + 32) res) (a + 8) 0\<rparr>)"
  using handle_ops_done [of m lib fuel s a "s\<lparr>ws_kv := k, ws_mem := wr32 (ws_mem s) (a + 32) res\<rparr>"]
    dispatch_cmp [OF assms(1)] assms(2)
  by (simp add: handle_cmp_def on_kv_def zoom_def bindE_def)

lemma handle_ops_promote:
  assumes "promote_fun (rd32 (ws_mem s) (a + 4)) = Some f"
    "f (rd64 (ws_mem s) (a + 16)) (rd64 (ws_mem s) (a + 24)) (rd64 (ws_mem s) (a + 32)) (ws_kv s) = (Inr res, k)"
  shows "handle_ops m lib (Suc fuel) a s = (Inr 0, s\<lparr>ws_kv := k,
    ws_mem := wr32 (wr64 (ws_mem s) (a + 40) res) (a + 8) 0\<rparr>)"
  using handle_ops_done [of m lib fuel s a "s\<lparr>ws_kv := k, ws_mem := wr64 (ws_mem s) (a + 40) res\<rparr>"]
    dispatch_promote [OF assms(1)] assms(2)
  by (simp add: handle_promote_def on_kv_def zoom_def bindE_def)

section \<open>Promotion over the view\<close>

context field_store
begin

text \<open>Promotion moves a temporary into a partition: a new identifier, the temporary gone.\<close>

lemma promote_new:
  assumes "kv_ok s" "islocal loc" "fsel (kv_view s) loc = Some v" "kv_usable s part" "groom v part s"
  shows "\<exists>key s'. promote_field put get free loc INVALID_RID part s = (Inr key, s')
    \<and> \<not> islocal key \<and> rid_partition key = part \<and> fsel (kv_view s) key = None
    \<and> kv_view s' = fupd (\<lambda>m. m(loc := None, key \<mapsto> stored v)) (kv_view s) \<and> kv_ok s'"
proof -
  from get_spec [OF assms(1,3)] obtain s1 where s1: "get loc s = (Inr v, s1)" "kv_eqv s s1" "kv_ok s1"
    by blast
  have "kv_usable s1 part" "groom v part s1"
    using assms(4,5) kv_eqv_usable [OF s1(2)] groom_eqv [OF s1(2)] by simp_all
  from put_global_spec [OF s1(3) this] obtain key s2 where
    s2: "put INVALID_RID v False part s1 = (Inr key, s2)" "\<not> islocal key" "rid_partition key = part"
      "fsel (kv_view s1) key = None" "kv_view s2 = fupd (\<lambda>m. m(key \<mapsto> stored v)) (kv_view s1)" "kv_ok s2"
    by blast
  from free_spec [OF s2(6), of loc] assms(2) obtain s3 where
    s3: "free loc s2 = (Inr (), s3)" "kv_view s3 = fupd (\<lambda>m. m(loc := None)) (kv_view s2)" "kv_ok s3"
    by auto
  have "loc \<noteq> key"
    using assms(2) s2(2) by auto
  then have "kv_view s3 = fupd (\<lambda>m. m(loc := None, key \<mapsto> stored v)) (kv_view s)"
    using s3(2) s2(5) kv_eqv_view [OF s1(2)] by (simp add: fupd_fupd fun_upd_twist [of loc key])
  with s1 s2 s3 kv_eqv_view [OF s1(2)] show ?thesis
    by (simp add: promote_field_def)
qed

end

end
