(* ===== verification/Zeno_Request.thy ===== *)
theory Zeno_Request
  imports Zeno_Handler
begin

text \<open>
  The requests of a database backend (\<^verbatim>\<open>src/src/integrity_zone/include/request.hpp\<close>) and
  \<^verbatim>\<open>TEEInvoker::sendRequest\<close> (\<^verbatim>\<open>src/src/integrity_zone/client.cpp\<close>). A \<open>request\<close> is the abstract
  class \<^verbatim>\<open>Request\<close>: its three virtual functions, for the address of the request buffer. One
  definition per class builds it. \<open>sendRequest\<close> runs a request against the worker that serves the
  region: \<^verbatim>\<open>Zeno_Rpc\<close> shows that between \<^verbatim>\<open>SENT\<close> and \<^verbatim>\<open>DONE\<close> only that worker touches the region,
  so that the exchange is the sequence of serialisation, \<open>handle_request\<close> and result copy.
\<close>

section \<open>Requests\<close>

record 'r request =
  serializeTo :: "nat \<Rightarrow> (worker_state, unit) kvm"
  copyResultFrom :: "nat \<Rightarrow> (worker_state, 'r) kvm"
  getSize :: nat

text \<open>\<^verbatim>\<open>sizeof(BulkRequestData)\<close>, the default of \<^verbatim>\<open>Request::getSize\<close>.\<close>

definition DEFAULT_SIZE :: nat where "DEFAULT_SIZE = 2072"

definition CmpRequest :: "i32 \<Rightarrow> rid \<Rightarrow> rid \<Rightarrow> i32 request" where
  "CmpRequest reqType left right =
     \<lparr>serializeTo = (\<lambda>a. bindE (st32 (a + 4) reqType) (\<lambda>_. bindE (st64 (a + 16) left) (\<lambda>_. st64 (a + 24) right))),
      copyResultFrom = (\<lambda>a. ld32 (a + 32)),
      getSize = DEFAULT_SIZE\<rparr>"

definition CalcRequest :: "i32 \<Rightarrow> rid \<Rightarrow> rid \<Rightarrow> rid request" where
  "CalcRequest reqType left right =
     \<lparr>serializeTo = (\<lambda>a. bindE (st32 (a + 4) reqType) (\<lambda>_. bindE (st64 (a + 16) left) (\<lambda>_. st64 (a + 24) right))),
      copyResultFrom = (\<lambda>a. ld64 (a + 32)),
      getSize = DEFAULT_SIZE\<rparr>"

definition BulkRequest :: "i32 \<Rightarrow> rid list \<Rightarrow> rid request" where
  "BulkRequest bulkType keys =
     \<lparr>serializeTo = (\<lambda>a. bindE (st32 (a + 4) bulkType) (\<lambda>_.
        bindE (st32 (a + 12) (of_nat (length keys))) (\<lambda>_.
        if BULK_SIZE < length keys then raise (Undefined BufferOverflow)
        else st (a + 16) (concat (map (le_bytes 8) keys))))),
      copyResultFrom = (\<lambda>a. ld64 (a + 2064)),
      getSize = DEFAULT_SIZE\<rparr>"

text \<open>\<^verbatim>\<open>EncRequest\<close> and \<^verbatim>\<open>DecRequest\<close> for a scalar of \<open>n\<close> bytes, and for strings.\<close>

definition EncRequest :: "i32 \<Rightarrow> byte list \<Rightarrow> byte list request" where
  "EncRequest reqType plaintext =
     (let n = length plaintext; off = (if n = 8 then 16 else 12) in
      \<lparr>serializeTo = (\<lambda>a. bindE (st32 (a + 4) reqType) (\<lambda>_. st (a + off) plaintext)),
       copyResultFrom = (\<lambda>a. ld (a + off + n) (n + 28)),
       getSize = 12 + n + (n + 28)\<rparr>)"

definition DecRequest :: "i32 \<Rightarrow> byte list \<Rightarrow> byte list request" where
  "DecRequest reqType ciphertext =
     (let n = length ciphertext - 28 in
      \<lparr>serializeTo = (\<lambda>a. bindE (st32 (a + 4) reqType) (\<lambda>_. st (a + 12) ciphertext)),
       copyResultFrom = (\<lambda>a. ld (a + (if n = 8 then 48 else 44)) n),
       getSize = 12 + (n + 28) + n\<rparr>)"

text \<open>
  \<^verbatim>\<open>COPY_PLAIN\<close> and \<^verbatim>\<open>COPY_ENC\<close>: a length and as many bytes, between objects whose array has
  \<open>cap\<close> bytes. The length is not checked; more than \<open>cap\<close> bytes run past the array. \<^verbatim>\<open>getSize\<close>
  of a string request reads the length of the result object, here \<open>rlen\<close>.
\<close>

definition STR_CAP :: nat where "STR_CAP = STRING_LENGTH"
definition ENCSTR_CAP :: nat where "ENCSTR_CAP = STRING_LENGTH + IV_SIZE + TAG_SIZE"

definition put_str :: "nat \<Rightarrow> nat \<Rightarrow> byte list \<Rightarrow> (worker_state, unit) kvm" where
  "put_str cap a bs =
     bindE (st32 a (of_nat (length bs))) (\<lambda>_.
     if cap < length bs then raise (Undefined BufferOverflow) else st (a + 4) bs)"

definition get_str :: "nat \<Rightarrow> nat \<Rightarrow> (worker_state, byte list) kvm" where
  "get_str cap a =
     bindE (ld32 a) (\<lambda>len.
     if cap < unat len then raise (Undefined BufferOverflow) else ld (a + 4) (unat len))"

definition StrEncRequest :: "byte list \<Rightarrow> nat \<Rightarrow> byte list request" where
  "StrEncRequest plaintext rlen =
     \<lparr>serializeTo = (\<lambda>a. bindE (st32 (a + 4) CMD_STRING_ENC) (\<lambda>_. put_str STR_CAP (a + 12) plaintext)),
      copyResultFrom = (\<lambda>a. get_str ENCSTR_CAP (a + 556)),
      getSize = 12 + (4 + length plaintext) + (4 + rlen)\<rparr>"

definition StrDecRequest :: "byte list \<Rightarrow> nat \<Rightarrow> byte list request" where
  "StrDecRequest ciphertext rlen =
     \<lparr>serializeTo = (\<lambda>a. bindE (st32 (a + 4) CMD_STRING_DEC) (\<lambda>_. put_str ENCSTR_CAP (a + 12) ciphertext)),
      copyResultFrom = (\<lambda>a. get_str STR_CAP (a + 584)),
      getSize = 12 + (4 + length ciphertext) + (4 + rlen)\<rparr>"

definition PutEncIntoKVRequest :: "i32 \<Rightarrow> byte list \<Rightarrow> rid request" where
  "PutEncIntoKVRequest reqType enc =
     \<lparr>serializeTo = (\<lambda>a. bindE (st32 (a + 4) reqType) (\<lambda>_. st (a + 24) enc)),
      copyResultFrom = (\<lambda>a. ld64 (a + 16)),
      getSize = 12 + length enc + 8\<rparr>"

definition StrPutEncRequest :: "byte list \<Rightarrow> rid request" where
  "StrPutEncRequest enc =
     \<lparr>serializeTo = (\<lambda>a. bindE (st32 (a + 4) CMD_STRING_PUT_ENC) (\<lambda>_. put_str ENCSTR_CAP (a + 24) enc)),
      copyResultFrom = (\<lambda>a. ld64 (a + 16)),
      getSize = 12 + (4 + length enc) + 8\<rparr>"

definition GetEncFromKVRequest :: "i32 \<Rightarrow> rid \<Rightarrow> nat \<Rightarrow> byte list request" where
  "GetEncFromKVRequest reqType dec n =
     \<lparr>serializeTo = (\<lambda>a. bindE (st32 (a + 4) reqType) (\<lambda>_. st64 (a + 48) dec)),
      copyResultFrom = (\<lambda>a. ld (a + 12) n),
      getSize = 12 + n + 8\<rparr>"

definition StrGetEncRequest :: "rid \<Rightarrow> nat \<Rightarrow> byte list request" where
  "StrGetEncRequest dec rlen =
     \<lparr>serializeTo = (\<lambda>a. bindE (st32 (a + 4) CMD_STRING_GET_ENC) (\<lambda>_. st64 (a + 584) dec)),
      copyResultFrom = (\<lambda>a. get_str ENCSTR_CAP (a + 12)),
      getSize = 12 + (4 + rlen) + 8\<rparr>"

definition PromoteRequest :: "i32 \<Rightarrow> rid \<Rightarrow> rid \<Rightarrow> rid \<Rightarrow> rid request" where
  "PromoteRequest reqType loc target part =
     \<lparr>serializeTo = (\<lambda>a. bindE (st32 (a + 4) reqType) (\<lambda>_. bindE (st64 (a + 16) loc) (\<lambda>_.
        bindE (st64 (a + 24) target) (\<lambda>_. st64 (a + 32) part)))),
      copyResultFrom = (\<lambda>a. ld64 (a + 40)),
      getSize = 48\<rparr>"

text \<open>\<open>n\<close> bytes of value; the structure is padded to a multiple of eight.\<close>

definition kv_size :: "nat \<Rightarrow> nat" where
  "kv_size n = (32 + n + 7) div 8 * 8"

definition PutPlainIntoKVRequest :: "i32 \<Rightarrow> byte list \<Rightarrow> rid request" where
  "PutPlainIntoKVRequest reqType value =
     \<lparr>serializeTo = (\<lambda>a. bindE (st32 (a + 4) reqType) (\<lambda>_.
        bindE (st64 (a + 16) (of_nat (kv_size (length value)))) (\<lambda>_. st (a + 32) value))),
      copyResultFrom = (\<lambda>a. ld64 (a + 24)),
      getSize = kv_size (length value)\<rparr>"

definition GetPlainFromKVRequest :: "i32 \<Rightarrow> rid \<Rightarrow> nat \<Rightarrow> byte list request" where
  "GetPlainFromKVRequest reqType key n =
     \<lparr>serializeTo = (\<lambda>a. bindE (st32 (a + 4) reqType) (\<lambda>_.
        bindE (st64 (a + 24) key) (\<lambda>_. st64 (a + 16) (of_nat (kv_size n))))),
      copyResultFrom = (\<lambda>a. ld (a + 32) n),
      getSize = kv_size n\<rparr>"

text \<open>A batch that is serialised once: \<^verbatim>\<open>reqs_size\<close> is then the sum of the sizes of its requests.\<close>

primrec batch_serialize :: "'r request list \<Rightarrow> nat \<Rightarrow> (worker_state, unit) kvm" where
  "batch_serialize [] p = ret ()"
| "batch_serialize (q # qs) p =
     bindE (serializeTo q p) (\<lambda>_.
     bindE (kvdb_check (0 < getSize q) EmptyBatchRequest) (\<lambda>_. batch_serialize qs (p + getSize q)))"

primrec batch_results :: "'r request list \<Rightarrow> nat \<Rightarrow> (worker_state, 'r list) kvm" where
  "batch_results [] p = ret []"
| "batch_results (q # qs) p =
     bindE (copyResultFrom q p) (\<lambda>r. bindE (batch_results qs (p + getSize q)) (\<lambda>rs. ret (r # rs)))"

definition KVBatchRequest :: "i32 \<Rightarrow> 'r request list \<Rightarrow> 'r list request" where
  "KVBatchRequest reqType reqs =
     (let size = 32 + sum_list (map getSize reqs) in
      \<lparr>serializeTo = (\<lambda>a. bindE (st32 (a + 4) reqType) (\<lambda>_.
         bindE (st32 (a + 24) (of_nat (length reqs))) (\<lambda>_.
         bindE (batch_serialize reqs (a + 28)) (\<lambda>_. st64 (a + 16) (of_nat size))))),
       copyResultFrom = (\<lambda>a.
         bindE (ld32 (a + 4)) (\<lambda>t. bindE (kvdb_check (t = reqType) BatchMismatch) (\<lambda>_.
         bindE (ld32 (a + 24)) (\<lambda>n. bindE (kvdb_check (n = of_nat (length reqs)) BatchMismatch) (\<lambda>_.
         bindE (ld64 (a + 16)) (\<lambda>sz. bindE (kvdb_check (sz = of_nat size) BatchMismatch) (\<lambda>_.
         batch_results reqs (a + 28)))))))),
       getSize = size\<rparr>)"

definition TimestampExtractYearRequest :: "rid \<Rightarrow> rid request" where
  "TimestampExtractYearRequest inp =
     \<lparr>serializeTo = (\<lambda>a. bindE (st32 (a + 4) CMD_TIMESTAMP_EXTRACT_YEAR) (\<lambda>_. st64 (a + 16) inp)),
      copyResultFrom = (\<lambda>a. ld64 (a + 24)),
      getSize = DEFAULT_SIZE\<rparr>"

definition SubstringRequest :: "rid \<Rightarrow> rid \<Rightarrow> rid \<Rightarrow> rid request" where
  "SubstringRequest str start len =
     \<lparr>serializeTo = (\<lambda>a. bindE (st32 (a + 4) CMD_TEXT_SUBSTRING) (\<lambda>_. bindE (st64 (a + 16) str) (\<lambda>_.
        bindE (st64 (a + 24) start) (\<lambda>_. st64 (a + 32) len)))),
      copyResultFrom = (\<lambda>a. ld64 (a + 40)),
      getSize = DEFAULT_SIZE\<rparr>"

definition SingleArgRequest :: "i32 \<Rightarrow> unit request" where
  "SingleArgRequest reqType =
     \<lparr>serializeTo = (\<lambda>a. st32 (a + 4) reqType),
      copyResultFrom = (\<lambda>a. ret ()),
      getSize = DEFAULT_SIZE\<rparr>"

section \<open>The exchange\<close>

definition STATUS_NONE :: u32 where "STATUS_NONE = 0"
definition STATUS_SENT :: u32 where "STATUS_SENT = 1"
definition STATUS_DONE :: u32 where "STATUS_DONE = 2"

definition handle_request :: "libm \<Rightarrow> mbedtls \<Rightarrow> nat \<Rightarrow> nat \<Rightarrow> (worker_state, unit) kvm" where
  "handle_request m lib fuel a =
     bindE (ld32 (a + 4)) (\<lambda>reqType.
     bindE (if 0 < sint reqType then
              bindE (handle_ops m lib fuel a) (\<lambda>_.
              bindE (ld32 (a + 8)) (\<lambda>resp. kvdb_check (resp = 0) ResponseFailed))
            else ret ()) (\<lambda>_.
     st32 a STATUS_DONE))"

definition sendRequest :: "libm \<Rightarrow> mbedtls \<Rightarrow> nat \<Rightarrow> 'r request \<Rightarrow> (worker_state, i32 \<times> 'r) kvm" where
  "sendRequest m lib fuel req =
     bindE (serializeTo req 0) (\<lambda>_.
     bindE (st32 0 STATUS_SENT) (\<lambda>_.
     bindE (handle_request m lib fuel 0) (\<lambda>_.
     bindE (copyResultFrom req 0) (\<lambda>r.
     bindE (ld32 8) (\<lambda>resp.
     bindE (st32 0 STATUS_NONE) (\<lambda>_. ret (resp, r)))))))"

section \<open>Running a request\<close>

lemma handle_request_run:
  assumes "0 < sint (rd32 (ws_mem s) (a + 4))" "handle_ops m lib fuel a s = (Inr r, s')" "rd32 (ws_mem s') (a + 8) = 0"
  shows "handle_request m lib fuel a s = (Inr (), s'\<lparr>ws_mem := wr32 (ws_mem s') a STATUS_DONE\<rparr>)"
  using assms by (simp add: handle_request_def bindE_def)

lemma rd32_wr32: "rd32 (wr32 m a w) a = w"
  by (simp add: rd_wr_same)

lemma rd64_wr64: "rd64 (wr64 m a w) a = w"
  by (simp add: rd_wr_same)

lemmas rw = rd32_wr32 rd64_wr64 rd_wr_other

text \<open>What the commands reach, and one exchange for any request.\<close>

lemmas dispatch_defs = dispatch_def handle_wal_def calc_fun_def cmp_fun_def bulk_fun_def handle_special_def
  handle_put_enc_def handle_put_def handle_get_enc_def handle_get_def handle_batch_def handle_crypt_def
  promote_fun_def cmd_defs

lemma sendRequest_run:
  assumes "serializeTo req 0 s = (Inr (), s1)" "rd32 (ws_mem s1) 4 = t" "0 < sint t"
    "dispatch m lib (handle_ops m lib fuel) t 0 (s1\<lparr>ws_mem := wr32 (ws_mem s1) 0 STATUS_SENT\<rparr>) = (Inr (), s2)"
    "\<And>s3. ws_mem s3 = wr32 (wr32 (ws_mem s2) 8 0) 0 STATUS_DONE \<Longrightarrow> copyResultFrom req 0 s3 = (Inr r, s3)"
  shows "\<exists>s'. sendRequest m lib (Suc fuel) req s = (Inr (0, r), s') \<and> ws_kv s' = ws_kv s2
    \<and> ws_crypto s' = ws_crypto s2 \<and> ws_wal s' = ws_wal s2"
proof -
  let ?s1 = "s1\<lparr>ws_mem := wr32 (ws_mem s1) 0 STATUS_SENT\<rparr>"
  have t: "rd32 (ws_mem ?s1) 4 = t"
    using assms(2) by (simp add: rw)
  have "handle_ops m lib (Suc fuel) 0 ?s1 = (Inr 0, s2\<lparr>ws_mem := wr32 (ws_mem s2) 8 0\<rparr>)"
    using handle_ops_done [of m lib fuel ?s1 0 s2] assms(2,4) by (simp add: rw)
  from handle_request_run [of ?s1 0, OF _ this] t assms(3) have
    "handle_request m lib (Suc fuel) 0 ?s1 = (Inr (), s2\<lparr>ws_mem := wr32 (wr32 (ws_mem s2) 8 0) 0 STATUS_DONE\<rparr>)"
    by (simp add: rw)
  moreover have "copyResultFrom req 0 (s2\<lparr>ws_mem := wr32 (wr32 (ws_mem s2) 8 0) 0 STATUS_DONE\<rparr>) =
      (Inr r, s2\<lparr>ws_mem := wr32 (wr32 (ws_mem s2) 8 0) 0 STATUS_DONE\<rparr>)"
    by (rule assms(5)) simp
  ultimately show ?thesis
    using assms(1) by (simp add: sendRequest_def bindE_def rw)
qed

end
