(* ===== verification/Zeno_Format.thy ===== *)
theory Zeno_Format
  imports Zeno_Float
begin

text \<open>
  The functions of the C library with which the SQL functions of \<^verbatim>\<open>src/src/integrity_zone\<close>
  read and print numbers: \<^verbatim>\<open>atoi\<close> and the two formats of \<^verbatim>\<open>sprintf\<close> they use. \<open>atoi_dec_str\<close> is
  the round trip, \<open>length_digits\<close> and \<open>length_digits_ge\<close> bound the length of a number.
\<close>

section \<open>Decimal numbers\<close>

function digits :: "nat \<Rightarrow> byte list" where
  "digits n = (if n < 10 then [of_nat (48 + n)] else digits (n div 10) @ [of_nat (48 + n mod 10)])"
  by pat_completeness auto
termination
  by (relation "measure id") auto

declare digits.simps [simp del]

definition dec_str :: "int \<Rightarrow> byte list" where
  "dec_str i = (if i < 0 then 45 # digits (nat (- i)) else digits (nat i))"

definition c_isspace :: "byte \<Rightarrow> bool" where
  "c_isspace c \<longleftrightarrow> c = 32 \<or> 9 \<le> c \<and> c \<le> 13"

definition c_isdigit :: "byte \<Rightarrow> bool" where
  "c_isdigit c \<longleftrightarrow> 48 \<le> c \<and> c \<le> 57"

definition digits_val :: "byte list \<Rightarrow> nat" where
  "digits_val ds = foldl (\<lambda>n c. 10 * n + (unat c - 48)) 0 ds"

definition atoi :: "byte list \<Rightarrow> kvdb_error + i32" where
  "atoi str =
     (let t = dropWhile c_isspace str;
          sgn = (t \<noteq> [] \<and> hd t \<in> {43, 45});
          ds = takeWhile c_isdigit (if sgn then tl t else t);
          n = int (digits_val ds)
      in c_int (if sgn \<and> hd t = 45 then - n else n))"

text \<open>\<^verbatim>\<open>sprintf(buf, "%d", i)\<close> into a buffer of \<open>cap\<close> bytes.\<close>

definition sprintf_d :: "nat \<Rightarrow> i32 \<Rightarrow> kvdb_error + byte list" where
  "sprintf_d cap i =
     (let t = dec_str (sint i) in if cap < length t + 1 then Inl (Undefined BufferOverflow) else Inr t)"

text \<open>
  \<^verbatim>\<open>sprintf(buf, "%f", x)\<close> of a \<^verbatim>\<open>float\<close>: the exact value rounded to six decimals, ties to
  even, as glibc does it.
\<close>

definition fixed6 :: "f32 \<Rightarrow> byte list" where
  "fixed6 x =
     (let b = unat x; sgn = (if fp_sign binary32 b then [45] else []) in
      if is_nan binary32 b then sgn @ [110, 97, 110]
      else if is_inf binary32 b then sgn @ [105, 110, 102]
      else let n = round_half_even (fp_mag binary32 b * 10 ^ 6) (2 ^ fp_unit binary32);
               frac = digits (n mod 10 ^ 6)
           in sgn @ digits (n div 10 ^ 6) @ [46] @ replicate (6 - length frac) 48 @ frac)"

definition sprintf_f :: "nat \<Rightarrow> f32 \<Rightarrow> kvdb_error + byte list" where
  "sprintf_f cap x =
     (let t = fixed6 x in if cap < length t + 1 then Inl (Undefined BufferOverflow) else Inr t)"

section \<open>Reading back what was printed\<close>

lemma digits_val_append: "digits_val (xs @ [c]) = 10 * digits_val xs + (unat c - 48)"
  by (simp add: digits_val_def)

lemma unat_digit: "n < 10 \<Longrightarrow> unat (of_nat (48 + n) :: byte) = 48 + n"
  by (simp only: unat_of_nat) simp

lemma isdigit_digit: "n < 10 \<Longrightarrow> c_isdigit (of_nat (48 + n))"
  by (simp only: c_isdigit_def word_le_nat_alt unat_digit) simp

lemma digits_isdigit: "list_all c_isdigit (digits n)"
proof (induction n rule: digits.induct)
  case (1 n)
  then show ?case
    using isdigit_digit [of n] isdigit_digit [of "n mod 10"] by (simp add: digits.simps [of n])
qed

lemma digits_val_digits: "digits_val (digits n) = n"
proof (induction n rule: digits.induct)
  case (1 n)
  show ?case
  proof (cases "n < 10")
    case True
    then show ?thesis
      using unat_digit [of n] by (simp add: digits.simps [of n] digits_val_def)
  next
    case False
    with 1 show ?thesis
      using unat_digit [of "n mod 10"] by (simp add: digits.simps [of n] digits_val_append)
  qed
qed

lemma digits_not_Nil: "digits n \<noteq> []"
  by (simp add: digits.simps [of n])

lemma c_isdigitD: "c_isdigit c \<Longrightarrow> \<not> c_isspace c \<and> c \<notin> {43, 45}"
  by (auto simp: c_isdigit_def c_isspace_def word_le_nat_alt)

lemma hd_digits: "\<not> c_isspace (hd (digits n)) \<and> hd (digits n) \<notin> {43, 45}"
proof -
  have "c_isdigit (hd (digits n))"
    using digits_isdigit [of n] digits_not_Nil [of n] by (cases "digits n") auto
  then show ?thesis by (rule c_isdigitD)
qed

lemma takeWhile_digits: "takeWhile c_isdigit (digits n) = digits n"
  using digits_isdigit [of n] by (simp add: list_all_iff takeWhile_eq_all_conv)

lemma atoi_dec_str: "in_int i \<Longrightarrow> atoi (dec_str i) = Inr (word_of_int i)"
proof (cases "i < 0")
  case True
  moreover assume "in_int i"
  ultimately show ?thesis
    by (simp add: atoi_def dec_str_def c_isspace_def takeWhile_digits digits_val_digits c_int_def Let_def)
next
  case False
  moreover assume "in_int i"
  moreover have "dropWhile c_isspace (digits (nat i)) = digits (nat i)"
    using hd_digits [of "nat i"] digits_not_Nil by (cases "digits (nat i)") auto
  ultimately show ?thesis
    using hd_digits [of "nat i"] digits_not_Nil
    by (simp add: atoi_def dec_str_def takeWhile_digits digits_val_digits c_int_def Let_def)
qed

lemma length_digits: "n < 10 ^ k \<Longrightarrow> 0 < k \<Longrightarrow> length (digits n) \<le> k"
proof (induction n arbitrary: k rule: digits.induct)
  case (1 n)
  show ?case
  proof (cases "n < 10")
    case True
    with 1(3) show ?thesis by (simp add: digits.simps [of n])
  next
    case False
    then obtain j where k: "k = Suc j" "0 < j"
      using 1(2,3) by (cases k; cases "k - 1") auto
    with 1(2) have "n div 10 < 10 ^ j" by (simp add: div_less_iff_less_mult mult.commute)
    from 1(1) [OF False this k(2)] False k show ?thesis by (simp add: digits.simps [of n])
  qed
qed

lemma length_digits_ge: "10 ^ k \<le> n \<Longrightarrow> Suc k \<le> length (digits n)"
proof (induction n arbitrary: k rule: digits.induct)
  case (1 n)
  show ?case
  proof (cases k)
    case 0
    then show ?thesis using digits_not_Nil [of n] by (cases "digits n") auto
  next
    case (Suc j)
    have "(1 :: nat) \<le> 10 ^ j" by simp
    moreover have "10 * 10 ^ j \<le> n" using 1(2) Suc by simp
    ultimately have big: "\<not> n < 10" "10 ^ j \<le> n div 10" by linarith+
    from 1(1) [OF big] big(1) Suc show ?thesis by (simp add: digits.simps [of n])
  qed
qed

end
