(* ===== verification/Zeno_Sql.thy ===== *)
theory Zeno_Sql
  imports Zeno_Request Zeno_Format
begin

text \<open>
  The SQL functions of the four field types (\<^verbatim>\<open>int.cpp\<close>, \<^verbatim>\<open>float.cpp\<close>, \<^verbatim>\<open>text.cpp\<close> and
  \<^verbatim>\<open>timestamp.cpp\<close> of \<^verbatim>\<open>src/src/integrity_zone\<close>), one definition per function, in the order of
  the source. A \<^verbatim>\<open>Datum\<close> argument is the value it carries: an identifier, an integer, a C string.
  An array argument is the list of the values its iterator delivers. The state is that of the
  worker that serves the backend's region. No SQL function sends a batch, so that one level of
  \<open>handle_ops\<close> is enough. A function of the same name in \<^verbatim>\<open>tee.cpp\<close> gives the wrapper here the
  suffix \<open>_req\<close>.

  PostgreSQL's own functions are parameters: \<open>pg_float\<close> and \<open>pg_datetime\<close> collect those for
  floats (with \<^verbatim>\<open>strtod\<close>) and timestamps.
\<close>

section \<open>Sending a request\<close>

definition invoke :: "libm \<Rightarrow> mbedtls \<Rightarrow> 'r request \<Rightarrow> (worker_state, i32 \<times> 'r) kvm" where
  "invoke m lib req = sendRequest m lib 1 req"

text \<open>\<^verbatim>\<open>if (error) print_error(\<dots>)\<close>\<close>

definition checked :: "i32 \<times> 'r \<Rightarrow> (worker_state, 'r) kvm" where
  "checked er = (if fst er \<noteq> 0 then raise (Report RequestFailed) else ret (snd er))"

definition call :: "libm \<Rightarrow> mbedtls \<Rightarrow> 'r request \<Rightarrow> (worker_state, 'r) kvm" where
  "call m lib req = bindE (invoke m lib req) checked"

section \<open>Integers\<close>

definition kv_int_put :: "libm \<Rightarrow> mbedtls \<Rightarrow> i32 \<Rightarrow> (worker_state, rid) kvm" where
  "kv_int_put m lib value = call m lib (PutPlainIntoKVRequest CMD_INT_PUT (le_bytes 4 value))"

definition kv_int_get :: "libm \<Rightarrow> mbedtls \<Rightarrow> rid \<Rightarrow> (worker_state, i32) kvm" where
  "kv_int_get m lib key = bindE (call m lib (GetPlainFromKVRequest CMD_INT_GET key 4)) (\<lambda>res. ret (le_word res))"

definition kv_int_put_enc :: "libm \<Rightarrow> mbedtls \<Rightarrow> byte list \<Rightarrow> (worker_state, rid) kvm" where
  "kv_int_put_enc m lib value = call m lib (PutEncIntoKVRequest CMD_INT_PUT_ENC value)"

definition kv_int_get_enc :: "libm \<Rightarrow> mbedtls \<Rightarrow> rid \<Rightarrow> (worker_state, byte list) kvm" where
  "kv_int_get_enc m lib key = call m lib (GetEncFromKVRequest CMD_INT_GET_ENC key 32)"

definition kv_int_calc :: "libm \<Rightarrow> mbedtls \<Rightarrow> i32 \<Rightarrow> rid \<Rightarrow> rid \<Rightarrow> (worker_state, rid) kvm" where
  "kv_int_calc m lib cmd i1 i2 = call m lib (CalcRequest cmd i1 i2)"

definition kv_int_add_req :: "libm \<Rightarrow> mbedtls \<Rightarrow> rid \<Rightarrow> rid \<Rightarrow> (worker_state, rid) kvm" where
  "kv_int_add_req m lib i1 i2 = kv_int_calc m lib CMD_INT_PLUS i1 i2"

definition kv_int_sub_req :: "libm \<Rightarrow> mbedtls \<Rightarrow> rid \<Rightarrow> rid \<Rightarrow> (worker_state, rid) kvm" where
  "kv_int_sub_req m lib i1 i2 = kv_int_calc m lib CMD_INT_MINUS i1 i2"

definition kv_int_mult_req :: "libm \<Rightarrow> mbedtls \<Rightarrow> rid \<Rightarrow> rid \<Rightarrow> (worker_state, rid) kvm" where
  "kv_int_mult_req m lib i1 i2 = kv_int_calc m lib CMD_INT_MULT i1 i2"

definition kv_int_div_req :: "libm \<Rightarrow> mbedtls \<Rightarrow> rid \<Rightarrow> rid \<Rightarrow> (worker_state, rid) kvm" where
  "kv_int_div_req m lib i1 i2 = kv_int_calc m lib CMD_INT_DIV i1 i2"

definition kv_int_pow_req :: "libm \<Rightarrow> mbedtls \<Rightarrow> rid \<Rightarrow> rid \<Rightarrow> (worker_state, rid) kvm" where
  "kv_int_pow_req m lib i1 i2 = kv_int_calc m lib CMD_INT_POW i1 i2"

definition kv_int_mod_req :: "libm \<Rightarrow> mbedtls \<Rightarrow> rid \<Rightarrow> rid \<Rightarrow> (worker_state, rid) kvm" where
  "kv_int_mod_req m lib i1 i2 = kv_int_calc m lib CMD_INT_MOD i1 i2"

definition kv_int_cmp_req :: "libm \<Rightarrow> mbedtls \<Rightarrow> rid \<Rightarrow> rid \<Rightarrow> (worker_state, i32) kvm" where
  "kv_int_cmp_req m lib i1 i2 = call m lib (CmpRequest CMD_INT_CMP i1 i2)"

definition kv_int_sum_bulk_req :: "libm \<Rightarrow> mbedtls \<Rightarrow> rid list \<Rightarrow> (worker_state, rid) kvm" where
  "kv_int_sum_bulk_req m lib keys = call m lib (BulkRequest CMD_INT_SUM_BULK keys)"

definition enc_int_encrypt :: "libm \<Rightarrow> mbedtls \<Rightarrow> i32 \<Rightarrow> (worker_state, i32 \<times> byte list) kvm" where
  "enc_int_encrypt m lib pSrc = invoke m lib (EncRequest CMD_INT_ENC (le_bytes 4 pSrc))"

definition enc_int_decrypt :: "libm \<Rightarrow> mbedtls \<Rightarrow> byte list \<Rightarrow> (worker_state, i32 \<times> i32) kvm" where
  "enc_int_decrypt m lib pSrc =
     bindE (invoke m lib (DecRequest CMD_INT_DEC pSrc)) (\<lambda>(resp, pt). ret (resp, le_word pt))"

definition int4_to_kv_int4 :: "libm \<Rightarrow> mbedtls \<Rightarrow> i32 \<Rightarrow> (worker_state, rid) kvm" where
  "int4_to_kv_int4 m lib inp =
     bindE (bindE (enc_int_encrypt m lib inp) checked) (\<lambda>result. kv_int_put_enc m lib result)"

text \<open>The 64-bit argument is narrowed to \<^verbatim>\<open>int\<close>.\<close>

definition int8_to_kv_int4 :: "libm \<Rightarrow> mbedtls \<Rightarrow> i64 \<Rightarrow> (worker_state, rid) kvm" where
  "int8_to_kv_int4 m lib inp =
     bindE (bindE (enc_int_encrypt m lib (ucast inp)) checked) (\<lambda>result. kv_int_put_enc m lib result)"

definition kv_int4_in :: "libm \<Rightarrow> mbedtls \<Rightarrow> byte list \<Rightarrow> (worker_state, rid) kvm" where
  "kv_int4_in m lib pIn =
     bindE (lift_sum (atoi pIn)) (\<lambda>inp.
     bindE (bindE (enc_int_encrypt m lib inp) checked) (\<lambda>result. kv_int_put_enc m lib result))"

definition kv_int4_out :: "libm \<Rightarrow> mbedtls \<Rightarrow> rid \<Rightarrow> (worker_state, byte list) kvm" where
  "kv_int4_out m lib ident =
     bindE (kv_int_get_enc m lib ident) (\<lambda>result.
     bindE (bindE (enc_int_decrypt m lib result) checked) (\<lambda>inp. lift_sum (sprintf_d 4 inp)))"

definition kv_int4_recv :: "libm \<Rightarrow> mbedtls \<Rightarrow> i32 \<Rightarrow> (worker_state, rid) kvm" where
  "kv_int4_recv m lib inp =
     bindE (bindE (enc_int_encrypt m lib inp) checked) (\<lambda>result. kv_int_put_enc m lib result)"

definition kv_int4_send :: "libm \<Rightarrow> mbedtls \<Rightarrow> rid \<Rightarrow> (worker_state, byte list) kvm" where
  "kv_int4_send m lib ident =
     bindE (kv_int_get_enc m lib ident) (\<lambda>result.
     bindE (bindE (enc_int_decrypt m lib result) checked) (\<lambda>inp. lift_sum (sprintf_d 32 inp)))"

definition kv_int4_add :: "libm \<Rightarrow> mbedtls \<Rightarrow> rid \<Rightarrow> rid \<Rightarrow> (worker_state, rid) kvm" where
  "kv_int4_add m lib id1 id2 = kv_int_add_req m lib id1 id2"

definition kv_int4_sub :: "libm \<Rightarrow> mbedtls \<Rightarrow> rid \<Rightarrow> rid \<Rightarrow> (worker_state, rid) kvm" where
  "kv_int4_sub m lib id1 id2 = kv_int_sub_req m lib id1 id2"

definition kv_int4_mult :: "libm \<Rightarrow> mbedtls \<Rightarrow> rid \<Rightarrow> rid \<Rightarrow> (worker_state, rid) kvm" where
  "kv_int4_mult m lib id1 id2 = kv_int_mult_req m lib id1 id2"

definition kv_int4_div :: "libm \<Rightarrow> mbedtls \<Rightarrow> rid \<Rightarrow> rid \<Rightarrow> (worker_state, rid) kvm" where
  "kv_int4_div m lib id1 id2 = kv_int_div_req m lib id1 id2"

definition kv_int4_pow :: "libm \<Rightarrow> mbedtls \<Rightarrow> rid \<Rightarrow> rid \<Rightarrow> (worker_state, rid) kvm" where
  "kv_int4_pow m lib id1 id2 = kv_int_pow_req m lib id1 id2"

definition kv_int4_mod :: "libm \<Rightarrow> mbedtls \<Rightarrow> rid \<Rightarrow> rid \<Rightarrow> (worker_state, rid) kvm" where
  "kv_int4_mod m lib id1 id2 = kv_int_mod_req m lib id1 id2"

definition kv_int4_cmp :: "libm \<Rightarrow> mbedtls \<Rightarrow> rid \<Rightarrow> rid \<Rightarrow> (worker_state, i32) kvm" where
  "kv_int4_cmp m lib id1 id2 = kv_int_cmp_req m lib id1 id2"

definition kv_int4_eq :: "libm \<Rightarrow> mbedtls \<Rightarrow> rid \<Rightarrow> rid \<Rightarrow> (worker_state, bool) kvm" where
  "kv_int4_eq m lib id1 id2 = bindE (kv_int_cmp_req m lib id1 id2) (\<lambda>cmp. ret (cmp = 0))"

definition kv_int4_ne :: "libm \<Rightarrow> mbedtls \<Rightarrow> rid \<Rightarrow> rid \<Rightarrow> (worker_state, bool) kvm" where
  "kv_int4_ne m lib id1 id2 = bindE (kv_int_cmp_req m lib id1 id2) (\<lambda>cmp. ret (cmp \<noteq> 0))"

definition kv_int4_lt :: "libm \<Rightarrow> mbedtls \<Rightarrow> rid \<Rightarrow> rid \<Rightarrow> (worker_state, bool) kvm" where
  "kv_int4_lt m lib id1 id2 = bindE (kv_int_cmp_req m lib id1 id2) (\<lambda>cmp. ret (sint cmp < 0))"

definition kv_int4_le :: "libm \<Rightarrow> mbedtls \<Rightarrow> rid \<Rightarrow> rid \<Rightarrow> (worker_state, bool) kvm" where
  "kv_int4_le m lib id1 id2 = bindE (kv_int_cmp_req m lib id1 id2) (\<lambda>cmp. ret (sint cmp \<le> 0))"

definition kv_int4_gt :: "libm \<Rightarrow> mbedtls \<Rightarrow> rid \<Rightarrow> rid \<Rightarrow> (worker_state, bool) kvm" where
  "kv_int4_gt m lib id1 id2 = bindE (kv_int_cmp_req m lib id1 id2) (\<lambda>cmp. ret (0 < sint cmp))"

definition kv_int4_ge :: "libm \<Rightarrow> mbedtls \<Rightarrow> rid \<Rightarrow> rid \<Rightarrow> (worker_state, bool) kvm" where
  "kv_int4_ge m lib id1 id2 = bindE (kv_int_cmp_req m lib id1 id2) (\<lambda>cmp. ret (0 \<le> sint cmp))"

text \<open>
  The aggregate functions read the first value before their loop; the iterator of an empty array
  leaves it unset. \<open>bulk_loop\<close> is the loop shared by the sums: \<open>bulk\<close> is the part of
  \<^verbatim>\<open>bulk_array\<close> in use. \<open>extreme_loop\<close> is that of the minima and maxima.
\<close>

primrec bulk_loop :: "(rid list \<Rightarrow> (worker_state, rid) kvm) \<Rightarrow> rid list \<Rightarrow> rid list \<Rightarrow> (worker_state, rid) kvm" where
  "bulk_loop bulk_sum [] bulk = bulk_sum bulk"
| "bulk_loop bulk_sum (v # vs) bulk =
     (if length bulk = BULK_SIZE
      then bindE (bulk_sum bulk) (\<lambda>tmp. bulk_loop bulk_sum vs [tmp, v])
      else bulk_loop bulk_sum vs (bulk @ [v]))"

primrec extreme_loop :: "(rid \<Rightarrow> rid \<Rightarrow> (worker_state, i32) kvm) \<Rightarrow> i32 \<Rightarrow> rid list \<Rightarrow> rid \<Rightarrow> (worker_state, rid) kvm" where
  "extreme_loop cmp sign [] best = ret best"
| "extreme_loop cmp sign (v # vs) best =
     bindE (cmp best v) (\<lambda>c. extreme_loop cmp sign vs (if c = sign then v else best))"

definition kv_int4_sum_bulk :: "libm \<Rightarrow> mbedtls \<Rightarrow> rid list \<Rightarrow> (worker_state, rid) kvm" where
  "kv_int4_sum_bulk m lib arr =
     (case arr of [] \<Rightarrow> raise (Undefined Uninitialised)
      | v # vs \<Rightarrow> bulk_loop (kv_int_sum_bulk_req m lib) vs [v])"

definition kv_int4_avg_bulk :: "libm \<Rightarrow> mbedtls \<Rightarrow> rid list \<Rightarrow> (worker_state, rid) kvm" where
  "kv_int4_avg_bulk m lib arr =
     (case arr of [] \<Rightarrow> raise (Undefined Uninitialised)
      | v # vs \<Rightarrow>
         bindE (bulk_loop (kv_int_sum_bulk_req m lib) vs [v]) (\<lambda>total.
         bindE (kv_int_put m lib (of_nat (length arr))) (\<lambda>count.
         kv_int_div_req m lib total count)))"

definition kv_int4_max_bulk :: "libm \<Rightarrow> mbedtls \<Rightarrow> rid list \<Rightarrow> (worker_state, rid) kvm" where
  "kv_int4_max_bulk m lib arr =
     (case arr of [] \<Rightarrow> raise (Undefined Uninitialised)
      | v # vs \<Rightarrow> extreme_loop (kv_int_cmp_req m lib) (- 1) vs v)"

definition kv_int4_min_bulk :: "libm \<Rightarrow> mbedtls \<Rightarrow> rid list \<Rightarrow> (worker_state, rid) kvm" where
  "kv_int4_min_bulk m lib arr =
     (case arr of [] \<Rightarrow> raise (Undefined Uninitialised)
      | v # vs \<Rightarrow> extreme_loop (kv_int_cmp_req m lib) 1 vs v)"

section \<open>Floats\<close>

definition kv_float_put :: "libm \<Rightarrow> mbedtls \<Rightarrow> f32 \<Rightarrow> (worker_state, rid) kvm" where
  "kv_float_put m lib value = call m lib (PutPlainIntoKVRequest CMD_FLOAT_PUT (le_bytes 4 value))"

definition kv_float_get :: "libm \<Rightarrow> mbedtls \<Rightarrow> rid \<Rightarrow> (worker_state, f32) kvm" where
  "kv_float_get m lib key = bindE (call m lib (GetPlainFromKVRequest CMD_FLOAT_GET key 4)) (\<lambda>res. ret (le_word res))"

definition kv_float_put_enc :: "libm \<Rightarrow> mbedtls \<Rightarrow> byte list \<Rightarrow> (worker_state, rid) kvm" where
  "kv_float_put_enc m lib value = call m lib (PutEncIntoKVRequest CMD_FLOAT_PUT_ENC value)"

definition kv_float_get_enc :: "libm \<Rightarrow> mbedtls \<Rightarrow> rid \<Rightarrow> (worker_state, byte list) kvm" where
  "kv_float_get_enc m lib key = call m lib (GetEncFromKVRequest CMD_FLOAT_GET_ENC key 32)"

definition kv_float_calc :: "libm \<Rightarrow> mbedtls \<Rightarrow> i32 \<Rightarrow> rid \<Rightarrow> rid \<Rightarrow> (worker_state, rid) kvm" where
  "kv_float_calc m lib cmd left right = call m lib (CalcRequest cmd left right)"

definition kv_float_add_req :: "libm \<Rightarrow> mbedtls \<Rightarrow> rid \<Rightarrow> rid \<Rightarrow> (worker_state, rid) kvm" where
  "kv_float_add_req m lib left right = kv_float_calc m lib CMD_FLOAT_PLUS left right"

definition kv_float_sub_req :: "libm \<Rightarrow> mbedtls \<Rightarrow> rid \<Rightarrow> rid \<Rightarrow> (worker_state, rid) kvm" where
  "kv_float_sub_req m lib left right = kv_float_calc m lib CMD_FLOAT_MINUS left right"

definition kv_float_mult_req :: "libm \<Rightarrow> mbedtls \<Rightarrow> rid \<Rightarrow> rid \<Rightarrow> (worker_state, rid) kvm" where
  "kv_float_mult_req m lib left right = kv_float_calc m lib CMD_FLOAT_MULT left right"

definition kv_float_div_req :: "libm \<Rightarrow> mbedtls \<Rightarrow> rid \<Rightarrow> rid \<Rightarrow> (worker_state, rid) kvm" where
  "kv_float_div_req m lib left right = kv_float_calc m lib CMD_FLOAT_DIV left right"

definition kv_float_pow_req :: "libm \<Rightarrow> mbedtls \<Rightarrow> rid \<Rightarrow> rid \<Rightarrow> (worker_state, rid) kvm" where
  "kv_float_pow_req m lib left right = kv_float_calc m lib CMD_FLOAT_POW left right"

definition kv_float_mod_req :: "libm \<Rightarrow> mbedtls \<Rightarrow> rid \<Rightarrow> rid \<Rightarrow> (worker_state, rid) kvm" where
  "kv_float_mod_req m lib left right = kv_float_calc m lib CMD_FLOAT_MOD left right"

definition kv_float_cmp_req :: "libm \<Rightarrow> mbedtls \<Rightarrow> rid \<Rightarrow> rid \<Rightarrow> (worker_state, i32) kvm" where
  "kv_float_cmp_req m lib left right = call m lib (CmpRequest CMD_FLOAT_CMP left right)"

definition kv_float_sum_bulk_req :: "libm \<Rightarrow> mbedtls \<Rightarrow> rid list \<Rightarrow> (worker_state, rid) kvm" where
  "kv_float_sum_bulk_req m lib keys = call m lib (BulkRequest CMD_FLOAT_SUM_BULK keys)"

text \<open>
  \<^verbatim>\<open>strtod\<close> answers the value, the number of bytes it consumed and whether it set \<^verbatim>\<open>errno\<close>
  (\<^verbatim>\<open>ERANGE\<close> is the only error it reports). The other three functions are PostgreSQL's.
\<close>

record pg_float =
  strtod :: "byte list \<Rightarrow> f64 \<times> nat \<times> bool"
  pg_strncasecmp :: "byte list \<Rightarrow> byte list \<Rightarrow> nat \<Rightarrow> int"
  get_float4_nan :: f32
  get_float4_infinity :: f32

text \<open>The spellings that \<^verbatim>\<open>pg_float4_in\<close> tries, with their length and the value they stand for.\<close>

definition float_words :: "pg_float \<Rightarrow> (byte list \<times> nat \<times> f64) list" where
  "float_words pg =
     (let nan = f64_of_f32 (get_float4_nan pg); inf = f64_of_f32 (get_float4_infinity pg);
          minf = f64_of_f32 (f32_neg (get_float4_infinity pg)) in
      [([78, 97, 78], 3, nan),
       ([73, 110, 102, 105, 110, 105, 116, 121], 8, inf),
       ([43, 73, 110, 102, 105, 110, 105, 116, 121], 9, inf),
       ([45, 73, 110, 102, 105, 110, 105, 116, 121], 9, minf),
       ([105, 110, 102], 3, inf),
       ([43, 105, 110, 102], 4, inf),
       ([45, 105, 110, 102], 4, minf)])"

definition pg_float4_in :: "pg_float \<Rightarrow> byte list \<Rightarrow> kvdb_error + f32" where
  "pg_float4_in pg orig_num =
     (let num = dropWhile c_isspace orig_num in
      if num = [] then Inl (Report InvalidSyntax)
      else
       let (val, used, erange) = strtod pg num;
           r = (if used = 0 \<or> erange then
                  (case find (\<lambda>(w, n, v). pg_strncasecmp pg num w n = 0) (float_words pg) of
                    Some (w, n, v) \<Rightarrow> Inr (v, n)
                  | None \<Rightarrow>
                      if erange then
                        (if fp_mag binary64 (unat val) = 0 \<or> is_inf binary64 (unat val)
                         then Inl (Report OutOfRange) else Inr (val, used))
                      else Inl (Report InvalidSyntax))
                else Inr (val, used))
       in case r of
            Inl e \<Rightarrow> Inl e
          | Inr (val, used) \<Rightarrow>
              if dropWhile c_isspace (drop used num) \<noteq> [] then Inl (Report InvalidSyntax)
              else Inr (f32_of_f64 val))"

definition enc_float_encrypt :: "libm \<Rightarrow> mbedtls \<Rightarrow> f32 \<Rightarrow> (worker_state, i32 \<times> byte list) kvm" where
  "enc_float_encrypt m lib src = invoke m lib (EncRequest CMD_FLOAT_ENC (le_bytes 4 src))"

definition enc_float_decrypt :: "libm \<Rightarrow> mbedtls \<Rightarrow> byte list \<Rightarrow> (worker_state, i32 \<times> f32) kvm" where
  "enc_float_decrypt m lib src =
     bindE (invoke m lib (DecRequest CMD_FLOAT_DEC src)) (\<lambda>(resp, pt). ret (resp, le_word pt))"

text \<open>
  The casts from PostgreSQL's numbers print the argument first and read it back with
  \<open>pg_float4_in\<close>; \<open>tmp\<close> is what \<^verbatim>\<open>numeric_out\<close>, \<^verbatim>\<open>float8out\<close>, \<^verbatim>\<open>int8out\<close> or \<^verbatim>\<open>int4out\<close> printed.
  They do not look at the status of the encryption.
\<close>

definition float4_to_kv_float4 :: "libm \<Rightarrow> mbedtls \<Rightarrow> f32 \<Rightarrow> (worker_state, rid) kvm" where
  "float4_to_kv_float4 m lib inp =
     bindE (enc_float_encrypt m lib inp) (\<lambda>(_, result). kv_float_put_enc m lib result)"

definition numeric_to_kv_float4 :: "pg_float \<Rightarrow> libm \<Rightarrow> mbedtls \<Rightarrow> byte list \<Rightarrow> (worker_state, rid) kvm" where
  "numeric_to_kv_float4 pg m lib tmp =
     bindE (lift_sum (pg_float4_in pg tmp)) (\<lambda>inp.
     bindE (enc_float_encrypt m lib inp) (\<lambda>(_, result). kv_float_put_enc m lib result))"

definition double_to_kv_float4 :: "pg_float \<Rightarrow> libm \<Rightarrow> mbedtls \<Rightarrow> byte list \<Rightarrow> (worker_state, rid) kvm" where
  "double_to_kv_float4 pg m lib tmp =
     bindE (lift_sum (pg_float4_in pg tmp)) (\<lambda>inp.
     bindE (enc_float_encrypt m lib inp) (\<lambda>(_, result). kv_float_put_enc m lib result))"

definition int8_to_kv_float4 :: "pg_float \<Rightarrow> libm \<Rightarrow> mbedtls \<Rightarrow> byte list \<Rightarrow> (worker_state, rid) kvm" where
  "int8_to_kv_float4 pg m lib tmp =
     bindE (lift_sum (pg_float4_in pg tmp)) (\<lambda>inp.
     bindE (enc_float_encrypt m lib inp) (\<lambda>(_, result). kv_float_put_enc m lib result))"

definition int4_to_kv_float4 :: "pg_float \<Rightarrow> libm \<Rightarrow> mbedtls \<Rightarrow> byte list \<Rightarrow> (worker_state, rid) kvm" where
  "int4_to_kv_float4 pg m lib tmp =
     bindE (lift_sum (pg_float4_in pg tmp)) (\<lambda>inp.
     bindE (enc_float_encrypt m lib inp) (\<lambda>(_, result). kv_float_put_enc m lib result))"

definition kv_float4_in :: "pg_float \<Rightarrow> libm \<Rightarrow> mbedtls \<Rightarrow> byte list \<Rightarrow> (worker_state, rid) kvm" where
  "kv_float4_in pg m lib pIn =
     bindE (lift_sum (pg_float4_in pg pIn)) (\<lambda>inp.
     bindE (bindE (enc_float_encrypt m lib inp) checked) (\<lambda>result. kv_float_put_enc m lib result))"

definition kv_float4_out :: "libm \<Rightarrow> mbedtls \<Rightarrow> rid \<Rightarrow> (worker_state, byte list) kvm" where
  "kv_float4_out m lib ident =
     bindE (kv_float_get_enc m lib ident) (\<lambda>result.
     bindE (bindE (enc_float_decrypt m lib result) checked) (\<lambda>inp. lift_sum (sprintf_f 32 inp)))"

definition kv_float4_add :: "libm \<Rightarrow> mbedtls \<Rightarrow> rid \<Rightarrow> rid \<Rightarrow> (worker_state, rid) kvm" where
  "kv_float4_add m lib id1 id2 = kv_float_add_req m lib id1 id2"

definition kv_float4_sub :: "libm \<Rightarrow> mbedtls \<Rightarrow> rid \<Rightarrow> rid \<Rightarrow> (worker_state, rid) kvm" where
  "kv_float4_sub m lib id1 id2 = kv_float_sub_req m lib id1 id2"

definition kv_float4_mult :: "libm \<Rightarrow> mbedtls \<Rightarrow> rid \<Rightarrow> rid \<Rightarrow> (worker_state, rid) kvm" where
  "kv_float4_mult m lib id1 id2 = kv_float_mult_req m lib id1 id2"

definition kv_float4_div :: "libm \<Rightarrow> mbedtls \<Rightarrow> rid \<Rightarrow> rid \<Rightarrow> (worker_state, rid) kvm" where
  "kv_float4_div m lib id1 id2 = kv_float_div_req m lib id1 id2"

definition kv_float4_pow :: "libm \<Rightarrow> mbedtls \<Rightarrow> rid \<Rightarrow> rid \<Rightarrow> (worker_state, rid) kvm" where
  "kv_float4_pow m lib id1 id2 = kv_float_pow_req m lib id1 id2"

definition kv_float4_mod :: "libm \<Rightarrow> mbedtls \<Rightarrow> rid \<Rightarrow> rid \<Rightarrow> (worker_state, rid) kvm" where
  "kv_float4_mod m lib id1 id2 = kv_float_mod_req m lib id1 id2"

definition kv_float4_cmp :: "libm \<Rightarrow> mbedtls \<Rightarrow> rid \<Rightarrow> rid \<Rightarrow> (worker_state, i32) kvm" where
  "kv_float4_cmp m lib id1 id2 = kv_float_cmp_req m lib id1 id2"

definition kv_float4_eq :: "libm \<Rightarrow> mbedtls \<Rightarrow> rid \<Rightarrow> rid \<Rightarrow> (worker_state, bool) kvm" where
  "kv_float4_eq m lib id1 id2 = bindE (kv_float_cmp_req m lib id1 id2) (\<lambda>cmp. ret (cmp = 0))"

definition kv_float4_ne :: "libm \<Rightarrow> mbedtls \<Rightarrow> rid \<Rightarrow> rid \<Rightarrow> (worker_state, bool) kvm" where
  "kv_float4_ne m lib id1 id2 = bindE (kv_float_cmp_req m lib id1 id2) (\<lambda>cmp. ret (cmp \<noteq> 0))"

definition kv_float4_lt :: "libm \<Rightarrow> mbedtls \<Rightarrow> rid \<Rightarrow> rid \<Rightarrow> (worker_state, bool) kvm" where
  "kv_float4_lt m lib id1 id2 = bindE (kv_float_cmp_req m lib id1 id2) (\<lambda>cmp. ret (sint cmp < 0))"

definition kv_float4_le :: "libm \<Rightarrow> mbedtls \<Rightarrow> rid \<Rightarrow> rid \<Rightarrow> (worker_state, bool) kvm" where
  "kv_float4_le m lib id1 id2 = bindE (kv_float_cmp_req m lib id1 id2) (\<lambda>cmp. ret (sint cmp \<le> 0))"

definition kv_float4_gt :: "libm \<Rightarrow> mbedtls \<Rightarrow> rid \<Rightarrow> rid \<Rightarrow> (worker_state, bool) kvm" where
  "kv_float4_gt m lib id1 id2 = bindE (kv_float_cmp_req m lib id1 id2) (\<lambda>cmp. ret (0 < sint cmp))"

definition kv_float4_ge :: "libm \<Rightarrow> mbedtls \<Rightarrow> rid \<Rightarrow> rid \<Rightarrow> (worker_state, bool) kvm" where
  "kv_float4_ge m lib id1 id2 = bindE (kv_float_cmp_req m lib id1 id2) (\<lambda>cmp. ret (0 \<le> sint cmp))"

definition kv_float4_sum_bulk :: "libm \<Rightarrow> mbedtls \<Rightarrow> rid list \<Rightarrow> (worker_state, rid) kvm" where
  "kv_float4_sum_bulk m lib arr =
     (case arr of [] \<Rightarrow> raise (Undefined Uninitialised)
      | v # vs \<Rightarrow> bulk_loop (kv_float_sum_bulk_req m lib) vs [v])"

definition kv_float4_avg_bulk :: "libm \<Rightarrow> mbedtls \<Rightarrow> rid list \<Rightarrow> (worker_state, rid) kvm" where
  "kv_float4_avg_bulk m lib arr =
     (case arr of [] \<Rightarrow> raise (Undefined Uninitialised)
      | v # vs \<Rightarrow>
         bindE (bulk_loop (kv_float_sum_bulk_req m lib) vs [v]) (\<lambda>total.
         bindE (kv_float_put m lib (f32_of_int (of_nat (length arr)))) (\<lambda>count.
         kv_float_div_req m lib total count)))"

definition kv_float4_max_bulk :: "libm \<Rightarrow> mbedtls \<Rightarrow> rid list \<Rightarrow> (worker_state, rid) kvm" where
  "kv_float4_max_bulk m lib arr =
     (case arr of [] \<Rightarrow> raise (Undefined Uninitialised)
      | v # vs \<Rightarrow> extreme_loop (kv_float_cmp_req m lib) (- 1) vs v)"

definition kv_float4_min_bulk :: "libm \<Rightarrow> mbedtls \<Rightarrow> rid list \<Rightarrow> (worker_state, rid) kvm" where
  "kv_float4_min_bulk m lib arr =
     (case arr of [] \<Rightarrow> raise (Undefined Uninitialised)
      | v # vs \<Rightarrow> extreme_loop (kv_float_cmp_req m lib) 1 vs v)"

section \<open>Texts\<close>

text \<open>\<^verbatim>\<open>kv_text_put\<close> copies \<^verbatim>\<open>STRING_LENGTH\<close> bytes from its argument.\<close>

definition kv_text_put :: "libm \<Rightarrow> mbedtls \<Rightarrow> byte list \<Rightarrow> (worker_state, rid) kvm" where
  "kv_text_put m lib value =
     (if length value < STRING_LENGTH then raise (Undefined OverRead)
      else call m lib (PutPlainIntoKVRequest CMD_TEXT_PUT (take STRING_LENGTH value)))"

definition kv_text_get :: "libm \<Rightarrow> mbedtls \<Rightarrow> rid \<Rightarrow> (worker_state, byte list) kvm" where
  "kv_text_get m lib key = call m lib (GetPlainFromKVRequest CMD_TEXT_GET key STRING_LENGTH)"

definition kv_text_put_enc :: "libm \<Rightarrow> mbedtls \<Rightarrow> byte list \<Rightarrow> (worker_state, rid) kvm" where
  "kv_text_put_enc m lib value = call m lib (StrPutEncRequest value)"

definition kv_text_get_enc :: "libm \<Rightarrow> mbedtls \<Rightarrow> rid \<Rightarrow> (worker_state, byte list) kvm" where
  "kv_text_get_enc m lib key = call m lib (StrGetEncRequest key 0)"

definition kv_text_cmp_req :: "libm \<Rightarrow> mbedtls \<Rightarrow> rid \<Rightarrow> rid \<Rightarrow> (worker_state, i32) kvm" where
  "kv_text_cmp_req m lib id1 id2 = call m lib (CmpRequest CMD_TEXT_CMP id1 id2)"

definition kv_text_concatenate_req :: "libm \<Rightarrow> mbedtls \<Rightarrow> rid \<Rightarrow> rid \<Rightarrow> (worker_state, rid) kvm" where
  "kv_text_concatenate_req m lib id1 id2 = call m lib (CalcRequest CMD_TEXT_CONCAT id1 id2)"

definition kv_text_substring :: "libm \<Rightarrow> mbedtls \<Rightarrow> rid \<Rightarrow> rid \<Rightarrow> rid \<Rightarrow> (worker_state, rid) kvm" where
  "kv_text_substring m lib str start len = call m lib (SubstringRequest str start len)"

definition kv_text_like_req :: "libm \<Rightarrow> mbedtls \<Rightarrow> rid \<Rightarrow> rid \<Rightarrow> (worker_state, i32) kvm" where
  "kv_text_like_req m lib str pattern = call m lib (CmpRequest CMD_TEXT_LIKE str pattern)"

definition enc_text_encrypt :: "libm \<Rightarrow> mbedtls \<Rightarrow> byte list \<Rightarrow> (worker_state, i32 \<times> byte list) kvm" where
  "enc_text_encrypt m lib inp = invoke m lib (StrEncRequest inp 0)"

definition enc_text_decrypt :: "libm \<Rightarrow> mbedtls \<Rightarrow> byte list \<Rightarrow> (worker_state, i32 \<times> byte list) kvm" where
  "enc_text_decrypt m lib inp = invoke m lib (StrDecRequest inp 0)"

text \<open>The length is a 32-bit number; the buffer \<^verbatim>\<open>pOut\<close> of \<^verbatim>\<open>kv_text_out\<close> is read up to its first NUL.\<close>

definition cstring_to_enctext_with_len :: "libm \<Rightarrow> mbedtls \<Rightarrow> byte list \<Rightarrow> u32 \<Rightarrow> (worker_state, byte list) kvm" where
  "cstring_to_enctext_with_len m lib s len =
     (if STRING_LENGTH \<le> unat len then raise (Report TextTooLong)
      else bindE (enc_text_encrypt m lib (take (unat len) s)) checked)"

definition kv_text_in :: "libm \<Rightarrow> mbedtls \<Rightarrow> byte list \<Rightarrow> (worker_state, rid) kvm" where
  "kv_text_in m lib sIn =
     bindE (cstring_to_enctext_with_len m lib sIn (of_nat (length (cstr sIn)))) (\<lambda>estr. kv_text_put_enc m lib estr)"

definition kv_text_out :: "libm \<Rightarrow> mbedtls \<Rightarrow> rid \<Rightarrow> (worker_state, byte list) kvm" where
  "kv_text_out m lib ident =
     bindE (kv_text_get_enc m lib ident) (\<lambda>estr.
     bindE (bindE (enc_text_decrypt m lib estr) checked) (\<lambda>str.
     if STRING_LENGTH \<le> length str then raise (Undefined OverRead) else ret (cstr str)))"

definition kv_text_recv :: "libm \<Rightarrow> mbedtls \<Rightarrow> byte list \<Rightarrow> (worker_state, rid) kvm" where
  "kv_text_recv m lib sIn =
     bindE (cstring_to_enctext_with_len m lib sIn (of_nat (length (cstr sIn)))) (\<lambda>estr. kv_text_put_enc m lib estr)"

definition kv_text_send :: "libm \<Rightarrow> mbedtls \<Rightarrow> rid \<Rightarrow> (worker_state, byte list) kvm" where
  "kv_text_send m lib ident =
     bindE (kv_text_get_enc m lib ident) (\<lambda>estr.
     bindE (bindE (enc_text_decrypt m lib estr) checked) (\<lambda>str.
     if STRING_LENGTH \<le> length str then raise (Undefined OverRead) else ret (cstr str)))"

definition kv_text_eq :: "libm \<Rightarrow> mbedtls \<Rightarrow> rid \<Rightarrow> rid \<Rightarrow> (worker_state, bool) kvm" where
  "kv_text_eq m lib id1 id2 = bindE (kv_text_cmp_req m lib id1 id2) (\<lambda>cmp. ret (cmp = 0))"

definition kv_text_ne :: "libm \<Rightarrow> mbedtls \<Rightarrow> rid \<Rightarrow> rid \<Rightarrow> (worker_state, bool) kvm" where
  "kv_text_ne m lib id1 id2 = bindE (kv_text_cmp_req m lib id1 id2) (\<lambda>cmp. ret (cmp \<noteq> 0))"

definition kv_text_le :: "libm \<Rightarrow> mbedtls \<Rightarrow> rid \<Rightarrow> rid \<Rightarrow> (worker_state, bool) kvm" where
  "kv_text_le m lib id1 id2 = bindE (kv_text_cmp_req m lib id1 id2) (\<lambda>cmp. ret (sint cmp \<le> 0))"

definition kv_text_lt :: "libm \<Rightarrow> mbedtls \<Rightarrow> rid \<Rightarrow> rid \<Rightarrow> (worker_state, bool) kvm" where
  "kv_text_lt m lib id1 id2 = bindE (kv_text_cmp_req m lib id1 id2) (\<lambda>cmp. ret (sint cmp < 0))"

definition kv_text_ge :: "libm \<Rightarrow> mbedtls \<Rightarrow> rid \<Rightarrow> rid \<Rightarrow> (worker_state, bool) kvm" where
  "kv_text_ge m lib id1 id2 = bindE (kv_text_cmp_req m lib id1 id2) (\<lambda>cmp. ret (0 \<le> sint cmp))"

definition kv_text_gt :: "libm \<Rightarrow> mbedtls \<Rightarrow> rid \<Rightarrow> rid \<Rightarrow> (worker_state, bool) kvm" where
  "kv_text_gt m lib id1 id2 = bindE (kv_text_cmp_req m lib id1 id2) (\<lambda>cmp. ret (0 < sint cmp))"

definition kv_text_cmp_sql :: "libm \<Rightarrow> mbedtls \<Rightarrow> rid \<Rightarrow> rid \<Rightarrow> (worker_state, i32) kvm" where
  "kv_text_cmp_sql m lib id1 id2 = kv_text_cmp_req m lib id1 id2"

definition kv_text_concatenate :: "libm \<Rightarrow> mbedtls \<Rightarrow> rid \<Rightarrow> rid \<Rightarrow> (worker_state, rid) kvm" where
  "kv_text_concatenate m lib id1 id2 = kv_text_concatenate_req m lib id1 id2"

definition kv_text_like_sql :: "libm \<Rightarrow> mbedtls \<Rightarrow> rid \<Rightarrow> rid \<Rightarrow> (worker_state, bool) kvm" where
  "kv_text_like_sql m lib id1 id2 = bindE (kv_text_like_req m lib id1 id2) (\<lambda>res. ret (res \<noteq> 0))"

definition kv_text_notlike :: "libm \<Rightarrow> mbedtls \<Rightarrow> rid \<Rightarrow> rid \<Rightarrow> (worker_state, bool) kvm" where
  "kv_text_notlike m lib id1 id2 = bindE (kv_text_like_req m lib id1 id2) (\<lambda>res. ret (res = 0))"

text \<open>The two integers become identifiers by sign extension.\<close>

definition substring :: "libm \<Rightarrow> mbedtls \<Rightarrow> rid \<Rightarrow> i32 \<Rightarrow> i32 \<Rightarrow> (worker_state, rid) kvm" where
  "substring m lib str from len = kv_text_substring m lib str (scast from) (scast len)"

section \<open>Timestamps\<close>

definition kv_timestamp_put :: "libm \<Rightarrow> mbedtls \<Rightarrow> i64 \<Rightarrow> (worker_state, rid) kvm" where
  "kv_timestamp_put m lib value = call m lib (PutPlainIntoKVRequest CMD_TIMESTAMP_PUT (le_bytes 8 value))"

definition kv_timestamp_get :: "libm \<Rightarrow> mbedtls \<Rightarrow> rid \<Rightarrow> (worker_state, i64) kvm" where
  "kv_timestamp_get m lib key = bindE (call m lib (GetPlainFromKVRequest CMD_TIMESTAMP_GET key 8)) (\<lambda>res. ret (le_word res))"

definition kv_timestamp_put_enc :: "libm \<Rightarrow> mbedtls \<Rightarrow> byte list \<Rightarrow> (worker_state, rid) kvm" where
  "kv_timestamp_put_enc m lib value = call m lib (PutEncIntoKVRequest CMD_TIMESTAMP_PUT_ENC value)"

definition kv_timestamp_get_enc :: "libm \<Rightarrow> mbedtls \<Rightarrow> rid \<Rightarrow> (worker_state, byte list) kvm" where
  "kv_timestamp_get_enc m lib key = call m lib (GetEncFromKVRequest CMD_TIMESTAMP_GET_ENC key 36)"

definition kv_timestamp_cmp_req :: "libm \<Rightarrow> mbedtls \<Rightarrow> rid \<Rightarrow> rid \<Rightarrow> (worker_state, i32) kvm" where
  "kv_timestamp_cmp_req m lib left right = call m lib (CmpRequest CMD_TIMESTAMP_CMP left right)"

definition kv_timestamp_extract_year_req :: "libm \<Rightarrow> mbedtls \<Rightarrow> rid \<Rightarrow> (worker_state, rid) kvm" where
  "kv_timestamp_extract_year_req m lib inp = call m lib (TimestampExtractYearRequest inp)"

text \<open>
  PostgreSQL's date functions: \<open>ParseDateTime\<close> splits the text into fields, \<open>DecodeDateTime\<close>
  gives an error code, the kind of date (\<^verbatim>\<open>DTK_DATE\<close> and so on), the broken-down time and the
  fraction of a second.
\<close>

datatype datetime_kind = DTK_DATE | DTK_EPOCH | DTK_LATE | DTK_EARLY | DTK_OTHER

record ('f, 'tm) pg_datetime =
  ParseDateTime :: "byte list \<Rightarrow> int \<times> 'f"
  DecodeDateTime :: "'f \<Rightarrow> int \<times> datetime_kind \<times> 'tm \<times> int"
  tm2timestamp :: "'tm \<Rightarrow> int \<Rightarrow> i64 option"
  SetEpochTimestamp :: i64
  DT_NOEND :: i64
  DT_NOBEGIN :: i64
  timestamp2tm :: "i64 \<Rightarrow> ('tm \<times> int) option"
  EncodeDateTime :: "'tm \<Rightarrow> int \<Rightarrow> byte list"

definition pg_timestamp_in :: "('f, 'tm) pg_datetime \<Rightarrow> byte list \<Rightarrow> kvdb_error + i64" where
  "pg_timestamp_in pg str =
     (let (dterr, field) = ParseDateTime pg str in
      if dterr \<noteq> 0 then Inl (Report InvalidSyntax)
      else let (dterr, dtype, tm, fsec) = DecodeDateTime pg field in
        if dterr \<noteq> 0 then Inl (Report InvalidSyntax)
        else case dtype of
            DTK_DATE \<Rightarrow> (case tm2timestamp pg tm fsec of None \<Rightarrow> Inl (Report OutOfRange) | Some r \<Rightarrow> Inr r)
          | DTK_EPOCH \<Rightarrow> Inr (SetEpochTimestamp pg)
          | DTK_LATE \<Rightarrow> Inr (DT_NOEND pg)
          | DTK_EARLY \<Rightarrow> Inr (DT_NOBEGIN pg)
          | DTK_OTHER \<Rightarrow> Inl (Report InvalidSyntax))"

definition enc_timestamp_encrypt :: "libm \<Rightarrow> mbedtls \<Rightarrow> i64 \<Rightarrow> (worker_state, i32 \<times> byte list) kvm" where
  "enc_timestamp_encrypt m lib src = invoke m lib (EncRequest CMD_TIMESTAMP_ENC (le_bytes 8 src))"

definition enc_timestamp_decrypt :: "libm \<Rightarrow> mbedtls \<Rightarrow> byte list \<Rightarrow> (worker_state, i32 \<times> i64) kvm" where
  "enc_timestamp_decrypt m lib src =
     bindE (invoke m lib (DecRequest CMD_TIMESTAMP_DEC src)) (\<lambda>(resp, pt). ret (resp, le_word pt))"

definition kv_timestamp_in :: "('f, 'tm) pg_datetime \<Rightarrow> libm \<Rightarrow> mbedtls \<Rightarrow> byte list \<Rightarrow> (worker_state, rid) kvm" where
  "kv_timestamp_in pg m lib pIn =
     bindE (lift_sum (pg_timestamp_in pg pIn)) (\<lambda>inp.
     bindE (bindE (enc_timestamp_encrypt m lib inp) checked) (\<lambda>result. kv_timestamp_put_enc m lib result))"

text \<open>When \<^verbatim>\<open>timestamp2tm\<close> fails, the output buffer stays as \<^verbatim>\<open>palloc\<close> delivered it.\<close>

definition kv_timestamp_out :: "('f, 'tm) pg_datetime \<Rightarrow> libm \<Rightarrow> mbedtls \<Rightarrow> rid \<Rightarrow> (worker_state, byte list) kvm" where
  "kv_timestamp_out pg m lib ident =
     bindE (kv_timestamp_get_enc m lib ident) (\<lambda>result.
     bindE (bindE (enc_timestamp_decrypt m lib result) checked) (\<lambda>plain.
     case timestamp2tm pg plain of
       None \<Rightarrow> raise (Undefined Uninitialised)
     | Some (tm, fsec) \<Rightarrow> ret (EncodeDateTime pg tm fsec)))"

definition kv_timestamp_eq :: "libm \<Rightarrow> mbedtls \<Rightarrow> rid \<Rightarrow> rid \<Rightarrow> (worker_state, bool) kvm" where
  "kv_timestamp_eq m lib id1 id2 = bindE (kv_timestamp_cmp_req m lib id1 id2) (\<lambda>cmp. ret (cmp = 0))"

definition kv_timestamp_ne :: "libm \<Rightarrow> mbedtls \<Rightarrow> rid \<Rightarrow> rid \<Rightarrow> (worker_state, bool) kvm" where
  "kv_timestamp_ne m lib id1 id2 = bindE (kv_timestamp_cmp_req m lib id1 id2) (\<lambda>cmp. ret (cmp \<noteq> 0))"

definition kv_timestamp_le :: "libm \<Rightarrow> mbedtls \<Rightarrow> rid \<Rightarrow> rid \<Rightarrow> (worker_state, bool) kvm" where
  "kv_timestamp_le m lib id1 id2 = bindE (kv_timestamp_cmp_req m lib id1 id2) (\<lambda>cmp. ret (sint cmp \<le> 0))"

definition kv_timestamp_lt :: "libm \<Rightarrow> mbedtls \<Rightarrow> rid \<Rightarrow> rid \<Rightarrow> (worker_state, bool) kvm" where
  "kv_timestamp_lt m lib id1 id2 = bindE (kv_timestamp_cmp_req m lib id1 id2) (\<lambda>cmp. ret (sint cmp < 0))"

definition kv_timestamp_ge :: "libm \<Rightarrow> mbedtls \<Rightarrow> rid \<Rightarrow> rid \<Rightarrow> (worker_state, bool) kvm" where
  "kv_timestamp_ge m lib id1 id2 = bindE (kv_timestamp_cmp_req m lib id1 id2) (\<lambda>cmp. ret (0 \<le> sint cmp))"

definition kv_timestamp_gt :: "libm \<Rightarrow> mbedtls \<Rightarrow> rid \<Rightarrow> rid \<Rightarrow> (worker_state, bool) kvm" where
  "kv_timestamp_gt m lib id1 id2 = bindE (kv_timestamp_cmp_req m lib id1 id2) (\<lambda>cmp. ret (0 < sint cmp))"

definition kv_timestamp_cmp_sql :: "libm \<Rightarrow> mbedtls \<Rightarrow> rid \<Rightarrow> rid \<Rightarrow> (worker_state, i32) kvm" where
  "kv_timestamp_cmp_sql m lib id1 id2 = kv_timestamp_cmp_req m lib id1 id2"

text \<open>\<^verbatim>\<open>date_part\<close> knows one field, \<^verbatim>\<open>year\<close>.\<close>

definition date_part :: "libm \<Rightarrow> mbedtls \<Rightarrow> byte list \<Rightarrow> rid \<Rightarrow> (worker_state, rid) kvm" where
  "date_part m lib get ident =
     (if get \<noteq> [121, 101, 97, 114] then raise (Report DatePartField)
      else kv_timestamp_extract_year_req m lib ident)"

end
