(* ===== verification/Zeno_Exchange.thy ===== *)
theory Zeno_Exchange
  imports Zeno_Sql
begin

text \<open>
  What one exchange does, for every kind of request that the SQL functions and the triggers send:
  the request is serialised into the region, the worker runs the command it names, and the
  backend copies the result (\<open>answers\<close>). The lemmas reduce a request to the function of
  \<^verbatim>\<open>tee.cpp\<close>, \<^verbatim>\<open>kv.hpp\<close> or \<^verbatim>\<open>crypto.cpp\<close> that the worker calls.
\<close>

section \<open>Exchanges that succeed\<close>

definition answers :: "libm \<Rightarrow> mbedtls \<Rightarrow> 'r request \<Rightarrow> worker_state \<Rightarrow> 'r \<Rightarrow> worker_state \<Rightarrow> bool" where
  "answers m lib req s r s' \<longleftrightarrow> invoke m lib req s = (Inr (0, r), s')"

lemma answers_call: "answers m lib req s r s' \<Longrightarrow> call m lib req s = (Inr r, s')"
  by (simp add: answers_def call_def checked_def bindE_def)

lemma answers_checked: "answers m lib req s r s' \<Longrightarrow> bindE (invoke m lib req) checked s = (Inr r, s')"
  by (simp add: answers_call [unfolded call_def])

lemma answers_run:
  assumes "serializeTo req 0 s = (Inr (), u)" "rd32 (ws_mem u) 4 = t" "0 < sint t"
    "dispatch m lib (handle_ops m lib 0) t 0 (u\<lparr>ws_mem := wr32 (ws_mem u) 0 STATUS_SENT\<rparr>) = (Inr (), v)"
    "\<And>w. ws_mem w = wr32 (wr32 (ws_mem v) 8 0) 0 STATUS_DONE \<Longrightarrow> copyResultFrom req 0 w = (Inr r, w)"
  shows "\<exists>s'. answers m lib req s r s' \<and> ws_kv s' = ws_kv v
    \<and> ws_crypto s' = ws_crypto v \<and> ws_wal s' = ws_wal v"
  using sendRequest_run [where fuel = 0, OF assms] by (simp add: answers_def invoke_def)

lemma send_calc:
  assumes "calc_fun m t = Some f" "0 < sint t" "f left right (ws_kv s) = (Inr res, k)"
  shows "\<exists>s'. answers m lib (CalcRequest t left right) s res s' \<and> ws_kv s' = k
    \<and> ws_crypto s' = ws_crypto s \<and> ws_wal s' = ws_wal s"
proof -
  let ?mem = "wr32 (wr64 (wr64 (wr32 (ws_mem s) 4 t) 16 left) 24 right) 0 STATUS_SENT"
  have "\<exists>s'. answers m lib (CalcRequest t left right) s res s'
      \<and> ws_kv s' = ws_kv (s\<lparr>ws_kv := k, ws_mem := wr64 ?mem 32 res\<rparr>)
      \<and> ws_crypto s' = ws_crypto (s\<lparr>ws_kv := k, ws_mem := wr64 ?mem 32 res\<rparr>)
      \<and> ws_wal s' = ws_wal (s\<lparr>ws_kv := k, ws_mem := wr64 ?mem 32 res\<rparr>)"
    by (rule answers_run [where t = t and u = "s\<lparr>ws_mem := wr64 (wr64 (wr32 (ws_mem s) 4 t) 16 left) 24 right\<rparr>"])
      (simp_all add: CalcRequest_def bindE_def rw assms dispatch_calc [OF assms(1)] handle_calc_def on_kv_run)
  then show ?thesis by simp
qed

lemma send_cmp:
  assumes "cmp_fun t = Some f" "0 < sint t" "f left right (ws_kv s) = (Inr res, k)"
  shows "\<exists>s'. answers m lib (CmpRequest t left right) s res s' \<and> ws_kv s' = k
    \<and> ws_crypto s' = ws_crypto s \<and> ws_wal s' = ws_wal s"
proof -
  let ?mem = "wr32 (wr64 (wr64 (wr32 (ws_mem s) 4 t) 16 left) 24 right) 0 STATUS_SENT"
  have "\<exists>s'. answers m lib (CmpRequest t left right) s res s'
      \<and> ws_kv s' = ws_kv (s\<lparr>ws_kv := k, ws_mem := wr32 ?mem 32 res\<rparr>)
      \<and> ws_crypto s' = ws_crypto (s\<lparr>ws_kv := k, ws_mem := wr32 ?mem 32 res\<rparr>)
      \<and> ws_wal s' = ws_wal (s\<lparr>ws_kv := k, ws_mem := wr32 ?mem 32 res\<rparr>)"
    by (rule answers_run [where t = t and u = "s\<lparr>ws_mem := wr64 (wr64 (wr32 (ws_mem s) 4 t) 16 left) 24 right\<rparr>"])
      (simp_all add: CmpRequest_def bindE_def rw assms dispatch_cmp [OF assms(1)] handle_cmp_def on_kv_run)
  then show ?thesis by simp
qed

lemma take_drop_concat:
  "i < length ks \<Longrightarrow> take 8 (drop (8 * i) (concat (map (le_bytes 8) ks))) = le_bytes 8 (ks ! i :: u64)"
proof (induction ks arbitrary: i)
  case (Cons k ks)
  then show ?case by (cases i) simp_all
qed simp

lemma length_concat_le: "length (concat (map (le_bytes 8) (ks :: u64 list))) = 8 * length ks"
  by (induction ks) simp_all

lemma rd_keys:
  assumes "a + 8 * length ks \<le> b \<or> b + length bs \<le> a"
  shows "map (\<lambda>i. rd64 (wr_bytes (wr_bytes m a (concat (map (le_bytes 8) ks))) b bs) (a + 8 * i)) [0..<length ks] = ks"
proof (rule nth_equalityI)
  fix i
  assume "i < length (map (\<lambda>i. rd64 (wr_bytes (wr_bytes m a (concat (map (le_bytes 8) ks))) b bs) (a + 8 * i)) [0..<length ks])"
  then have i: "i < length ks" by simp
  have "rd_bytes (wr_bytes m a (concat (map (le_bytes 8) ks))) (a + 8 * i) 8 = le_bytes 8 (ks ! i)"
    using rd_wr_inside [of "8 * i" 8 "concat (map (le_bytes 8) ks)"] take_drop_concat [OF i] i
    by (simp add: length_concat_le)
  moreover have "a + 8 * i + 8 \<le> b \<or> b + length bs \<le> a + 8 * i"
    using i assms by auto
  ultimately show "map (\<lambda>i. rd64 (wr_bytes (wr_bytes m a (concat (map (le_bytes 8) ks))) b bs) (a + 8 * i)) [0..<length ks] ! i = ks ! i"
    using i by (simp add: rd_wr_other)
qed simp

lemma send_bulk:
  assumes "bulk_fun t = Some f" "0 < sint t" "length ks \<le> BULK_SIZE" "f ks (ws_kv s) = (Inr res, k)"
  shows "\<exists>s'. answers m lib (BulkRequest t ks) s res s' \<and> ws_kv s' = k
    \<and> ws_crypto s' = ws_crypto s \<and> ws_wal s' = ws_wal s"
proof -
  let ?n = "of_nat (length ks) :: i32"
  let ?mem1 = "wr_bytes (wr32 (wr32 (ws_mem s) 4 t) 12 ?n) 16 (concat (map (le_bytes 8) ks))"
  let ?mem = "wr32 ?mem1 0 STATUS_SENT"
  let ?s2 = "s\<lparr>ws_kv := k, ws_mem := wr64 ?mem 2064 res\<rparr>"
  have n: "sint ?n = int (length ks)"
    using assms(3) by (simp add: BULK_SIZE_def sint_eq_iff in_int_def)
  have "rd32 ?mem 12 = ?n" "rd32 ?mem1 4 = t"
    by (simp_all add: rw)
  moreover have "map (\<lambda>i. rd64 ?mem (16 + 8 * i)) [0..<length ks] = ks"
    by (rule rd_keys) simp
  ultimately have "dispatch m lib (handle_ops m lib 0) t 0 (s\<lparr>ws_mem := ?mem\<rparr>) = (Inr (), ?s2)"
    using assms(3,4) n by (simp add: dispatch_bulk [OF assms(1)] handle_bulk_def bindE_def on_kv_run)
  with assms(2,3) have "\<exists>s'. answers m lib (BulkRequest t ks) s res s' \<and> ws_kv s' = ws_kv ?s2
      \<and> ws_crypto s' = ws_crypto ?s2 \<and> ws_wal s' = ws_wal ?s2"
    by (intro answers_run [where t = t and u = "s\<lparr>ws_mem := ?mem1\<rparr>"])
      (simp_all add: BulkRequest_def bindE_def rw)
  then show ?thesis by simp
qed
text \<open>The same exchange, for a request that changes the key-value state and the nonce counter.\<close>

lemma dispatch_crypt:
  "dispatch m lib h CMD_INT_ENC 0 = enc_req lib 12 4 16"
  "dispatch m lib h CMD_FLOAT_ENC 0 = enc_req lib 12 4 16"
  "dispatch m lib h CMD_TIMESTAMP_ENC 0 = enc_req lib 16 8 24"
  "dispatch m lib h CMD_INT_DEC 0 = dec_req lib 12 4 44"
  "dispatch m lib h CMD_FLOAT_DEC 0 = dec_req lib 12 4 44"
  "dispatch m lib h CMD_TIMESTAMP_DEC 0 = dec_req lib 12 8 48"
  by (simp_all add: dispatch_defs)

lemma send_enc:
  assumes "(t, n) \<in> {(CMD_INT_ENC, 4), (CMD_FLOAT_ENC, 4), (CMD_TIMESTAMP_ENC, 8)}" "length pt = n"
    "encrypt_bytes lib pt (n + 28) (ws_crypto s) = (Inr ct, c)" "length ct = n + 28"
  shows "\<exists>s'. answers m lib (EncRequest t pt) s ct s' \<and> ws_kv s' = ws_kv s \<and> ws_crypto s' = c \<and> ws_wal s' = ws_wal s"
proof -
  let ?off = "if n = 8 then 16 else 12 :: nat"
  let ?mem1 = "wr_bytes (wr32 (ws_mem s) 4 t) ?off pt"
  let ?mem = "wr32 ?mem1 0 STATUS_SENT"
  let ?v = "s\<lparr>ws_crypto := c, ws_mem := wr_bytes ?mem (?off + n) ct\<rparr>"
  have t: "0 < sint t" "rd32 ?mem1 4 = t" "rd_bytes ?mem ?off n = pt"
    using assms(1,2) by (auto simp: cmd_defs rw rd_wr_same)
  have "dispatch m lib (handle_ops m lib 0) t 0 = enc_req lib ?off n (?off + n)"
    using assms(1) dispatch_crypt by auto
  with t assms have "\<exists>s'. answers m lib (EncRequest t pt) s ct s' \<and> ws_kv s' = ws_kv ?v
      \<and> ws_crypto s' = ws_crypto ?v \<and> ws_wal s' = ws_wal ?v"
    by (intro answers_run [where t = t and u = "s\<lparr>ws_mem := ?mem1\<rparr>"])
      (simp_all add: EncRequest_def bindE_def enc_req_def on_crypto_run rd_wr_other rd_wr_same Let_def)
  then show ?thesis by simp
qed

lemma send_dec:
  assumes "(t, n) \<in> {(CMD_INT_DEC, 4), (CMD_FLOAT_DEC, 4), (CMD_TIMESTAMP_DEC, 8)}" "length ct = n + 28"
    "decrypt_bytes lib ct n (ws_crypto s) = (Inr pt, c)" "length pt = n"
  shows "\<exists>s'. answers m lib (DecRequest t ct) s pt s' \<and> ws_kv s' = ws_kv s \<and> ws_crypto s' = c \<and> ws_wal s' = ws_wal s"
proof -
  let ?dst = "if n = 8 then 48 else 44 :: nat"
  let ?mem1 = "wr_bytes (wr32 (ws_mem s) 4 t) 12 ct"
  let ?mem = "wr32 ?mem1 0 STATUS_SENT"
  let ?v = "s\<lparr>ws_crypto := c, ws_mem := wr_bytes ?mem ?dst pt\<rparr>"
  have t: "0 < sint t" "rd32 ?mem1 4 = t" "rd_bytes ?mem 12 (n + 28) = ct"
    using assms(1,2) by (auto simp: cmd_defs rw rd_wr_same)
  have "dispatch m lib (handle_ops m lib 0) t 0 = dec_req lib 12 n ?dst"
    using assms(1) dispatch_crypt by auto
  with t assms have "\<exists>s'. answers m lib (DecRequest t ct) s pt s' \<and> ws_kv s' = ws_kv ?v
      \<and> ws_crypto s' = ws_crypto ?v \<and> ws_wal s' = ws_wal ?v"
    by (intro answers_run [where t = t and u = "s\<lparr>ws_mem := ?mem1\<rparr>"])
      (simp_all add: DecRequest_def bindE_def dec_req_def on_crypto_run rd_wr_other rd_wr_same Let_def)
  then show ?thesis by simp
qed

lemma send_put_enc:
  assumes "0 < sint t" "dispatch m lib (handle_ops m lib 0) t 0 =
      bindE (ld 24 (n + 28)) (\<lambda>src. bindE (on_crypto (decrypt_bytes lib src n)) (\<lambda>pt.
      bindE (on_kv (store pt)) (\<lambda>res. st64 16 res)))"
    "length ct = n + 28" "decrypt_bytes lib ct n (ws_crypto s) = (Inr pt, c)" "store pt (ws_kv s) = (Inr key, k)"
  shows "\<exists>s'. answers m lib (PutEncIntoKVRequest t ct) s key s' \<and> ws_kv s' = k \<and> ws_crypto s' = c \<and> ws_wal s' = ws_wal s"
proof -
  let ?mem1 = "wr_bytes (wr32 (ws_mem s) 4 t) 24 ct"
  let ?mem = "wr32 ?mem1 0 STATUS_SENT"
  let ?v = "s\<lparr>ws_kv := k, ws_crypto := c, ws_mem := wr64 ?mem 16 key\<rparr>"
  have "rd32 ?mem1 4 = t" "rd_bytes ?mem 24 (n + 28) = ct"
    using assms(3) by (simp_all add: rw rd_wr_same)
  with assms have "\<exists>s'. answers m lib (PutEncIntoKVRequest t ct) s key s' \<and> ws_kv s' = ws_kv ?v
      \<and> ws_crypto s' = ws_crypto ?v \<and> ws_wal s' = ws_wal ?v"
    by (intro answers_run [where t = t and u = "s\<lparr>ws_mem := ?mem1\<rparr>"])
      (simp_all add: PutEncIntoKVRequest_def bindE_def on_crypto_run on_kv_run rw)
  then show ?thesis by simp
qed

lemma send_get_enc:
  assumes "0 < sint t" "dispatch m lib (handle_ops m lib 0) t 0 =
      bindE (ld64 48) (\<lambda>dec. bindE (on_kv (get dec)) (\<lambda>v.
      bindE (on_crypto (encrypt_bytes lib (bytes v) (n + 28))) (\<lambda>ct. st 12 ct)))"
    "get key (ws_kv s) = (Inr v, k)" "encrypt_bytes lib (bytes v) (n + 28) (ws_crypto s) = (Inr ct, c)"
    "length ct = n + 28" "n \<le> 8"
  shows "\<exists>s'. answers m lib (GetEncFromKVRequest t key (n + 28)) s ct s' \<and> ws_kv s' = k \<and> ws_crypto s' = c \<and> ws_wal s' = ws_wal s"
proof -
  let ?mem1 = "wr64 (wr32 (ws_mem s) 4 t) 48 key"
  let ?mem = "wr32 ?mem1 0 STATUS_SENT"
  let ?v = "s\<lparr>ws_kv := k, ws_crypto := c, ws_mem := wr_bytes ?mem 12 ct\<rparr>"
  have "rd32 ?mem1 4 = t" "rd64 ?mem 48 = key"
    by (simp_all add: rw)
  with assms have "\<exists>s'. answers m lib (GetEncFromKVRequest t key (n + 28)) s ct s' \<and> ws_kv s' = ws_kv ?v
      \<and> ws_crypto s' = ws_crypto ?v \<and> ws_wal s' = ws_wal ?v"
    by (intro answers_run [where t = t and u = "s\<lparr>ws_mem := ?mem1\<rparr>"])
      (simp_all add: GetEncFromKVRequest_def bindE_def on_crypto_run on_kv_run rw rd_wr_same)
  then show ?thesis by simp
qed

lemma send_promote:
  assumes "promote_fun t = Some f" "0 < sint t" "f loc target part (ws_kv s) = (Inr res, k)"
  shows "\<exists>s'. answers m lib (PromoteRequest t loc target part) s res s' \<and> ws_kv s' = k
    \<and> ws_crypto s' = ws_crypto s \<and> ws_wal s' = ws_wal s"
proof -
  let ?mem1 = "wr64 (wr64 (wr64 (wr32 (ws_mem s) 4 t) 16 loc) 24 target) 32 part"
  let ?v = "s\<lparr>ws_kv := k, ws_mem := wr64 (wr32 ?mem1 0 STATUS_SENT) 40 res\<rparr>"
  have "\<exists>s'. answers m lib (PromoteRequest t loc target part) s res s' \<and> ws_kv s' = ws_kv ?v
      \<and> ws_crypto s' = ws_crypto ?v \<and> ws_wal s' = ws_wal ?v"
    by (rule answers_run [where t = t and u = "s\<lparr>ws_mem := ?mem1\<rparr>"])
      (simp_all add: PromoteRequest_def bindE_def rw assms dispatch_promote [OF assms(1)] handle_promote_def on_kv_run)
  then show ?thesis by simp
qed

lemma lk_clear_run: "lk_clear loc = (Inr (), lk_empty)"
  by (simp add: lk_clear_def ls_clear_def lk_empty_def ls_empty_def zoom_def bindE_def)

lemma send_clear:
  "\<exists>s'. answers m lib (SingleArgRequest CMD_LOCAL_CLEAR) s () s' \<and> ws_kv s' = (ws_kv s)\<lparr>kv_local := lk_empty\<rparr>
    \<and> ws_crypto s' = ws_crypto s \<and> ws_wal s' = ws_wal s"
proof -
  let ?mem1 = "wr32 (ws_mem s) 4 CMD_LOCAL_CLEAR"
  let ?v = "s\<lparr>ws_kv := (ws_kv s)\<lparr>kv_local := lk_empty\<rparr>, ws_mem := wr32 ?mem1 0 STATUS_SENT\<rparr>"
  have "handle_wal lib CMD_LOCAL_CLEAR 0 = Some (on_kv (zoom kv_local kv_local_update lk_clear))"
    by (simp add: handle_wal_def)
  note run = dispatch_wal [OF this]
  have "0 < sint CMD_LOCAL_CLEAR"
    by (simp add: cmd_defs)
  then have "\<exists>s'. answers m lib (SingleArgRequest CMD_LOCAL_CLEAR) s () s' \<and> ws_kv s' = ws_kv ?v
      \<and> ws_crypto s' = ws_crypto ?v \<and> ws_wal s' = ws_wal ?v"
    by (intro answers_run [where t = CMD_LOCAL_CLEAR and u = "s\<lparr>ws_mem := ?mem1\<rparr>"])
      (simp_all add: SingleArgRequest_def rw run on_kv_def zoom_def lk_clear_run)
  then show ?thesis by simp
qed

section \<open>Strings\<close>

lemma unat_len: "n < 2 ^ 32 \<Longrightarrow> unat (of_nat n :: u32) = n"
  by (simp add: unat_of_nat)

lemma unat_len28: "n < 4000 \<Longrightarrow> unat (of_nat n + 28 :: u32) = n + 28"
  using unat_len [of "n + 28"] by (simp add: unat_of_nat)

lemmas str_caps = STRING_LENGTH_def IV_SIZE_def TAG_SIZE_def STR_CAP_def ENCSTR_CAP_def

lemma send_str_enc:
  assumes "length pt < STRING_LENGTH" "encrypt_bytes lib pt (length pt + 28) (ws_crypto s) = (Inr ct, c)"
    "length ct = length pt + 28"
  shows "\<exists>s'. answers m lib (StrEncRequest pt rlen) s ct s' \<and> ws_kv s' = ws_kv s \<and> ws_crypto s' = c \<and> ws_wal s' = ws_wal s"
proof -
  let ?mem1 = "wr_bytes (wr32 (wr32 (ws_mem s) 4 CMD_STRING_ENC) 12 (of_nat (length pt))) 16 pt"
  let ?mem = "wr32 ?mem1 0 STATUS_SENT"
  let ?v = "s\<lparr>ws_crypto := c, ws_mem := wr_bytes (wr32 ?mem 556 (of_nat (length pt) + 28)) 560 ct\<rparr>"
  have len: "length pt < 540" using assms(1) by (simp add: STRING_LENGTH_def)
  have rd: "rd32 ?mem1 4 = CMD_STRING_ENC" "rd32 ?mem 12 = of_nat (length pt)"
      "rd_bytes (wr32 ?mem 556 (of_nat (length pt) + 28)) 16 (length pt) = pt"
    using len by (simp_all add: rw rd_wr_same)
  have "dispatch m lib (handle_ops m lib 0) CMD_STRING_ENC 0 = string_enc lib 0"
    by (simp add: dispatch_defs)
  moreover have "string_enc lib 0 (s\<lparr>ws_mem := ?mem\<rparr>) = (Inr (), ?v)"
    using len rd(2,3) assms(2,3) by (simp add: string_enc_def enc_req_def bindE_def unat_len str_caps on_crypto_run)
  moreover have "0 < sint CMD_STRING_ENC" by (simp add: cmd_defs)
  ultimately have "\<exists>s'. answers m lib (StrEncRequest pt rlen) s ct s' \<and> ws_kv s' = ws_kv ?v
      \<and> ws_crypto s' = ws_crypto ?v \<and> ws_wal s' = ws_wal ?v"
    using len rd(1) assms(3) by (intro answers_run [where t = CMD_STRING_ENC and u = "s\<lparr>ws_mem := ?mem1\<rparr>"])
      (simp_all add: StrEncRequest_def put_str_def get_str_def bindE_def str_caps rw unat_len28 rd_wr_same)
  then show ?thesis by simp
qed

lemma send_str_dec:
  assumes "length pt < STRING_LENGTH" "decrypt_bytes lib ct (length pt) (ws_crypto s) = (Inr pt, c)"
    "length ct = length pt + 28"
  shows "\<exists>s'. answers m lib (StrDecRequest ct rlen) s pt s' \<and> ws_kv s' = ws_kv s \<and> ws_crypto s' = c \<and> ws_wal s' = ws_wal s"
proof -
  let ?n = "of_nat (length pt + 28) :: u32"
  let ?mem1 = "wr_bytes (wr32 (wr32 (ws_mem s) 4 CMD_STRING_DEC) 12 ?n) 16 ct"
  let ?mem = "wr32 ?mem1 0 STATUS_SENT"
  let ?mem2 = "wr_bytes (wr32 ?mem 584 (of_nat (length pt))) 588 pt"
  let ?v = "s\<lparr>ws_crypto := c, ws_mem := wr_bytes ?mem2 (588 + length pt) [0]\<rparr>"
  have len: "length pt < 540" using assms(1) by (simp add: STRING_LENGTH_def)
  have n: "unat ?n = length pt + 28" "?n - 28 = of_nat (length pt)"
    using len unat_len [of "length pt + 28"] by simp_all
  have rd: "rd32 ?mem1 4 = CMD_STRING_DEC" "rd32 ?mem 12 = ?n"
      "rd_bytes (wr32 ?mem 584 (of_nat (length pt))) 16 (length pt + 28) = ct"
    using len assms(3) by (simp_all add: rw rd_wr_same)
  have "dispatch m lib (handle_ops m lib 0) CMD_STRING_DEC 0 = string_dec lib 0"
    by (simp add: dispatch_defs)
  moreover have "string_dec lib 0 (s\<lparr>ws_mem := ?mem\<rparr>) = (Inr (), ?v)"
    using len rd(2,3) n assms(2,3) by (simp add: string_dec_def dec_req_def bindE_def str_caps on_crypto_run del: of_nat_add)
  moreover have "0 < sint CMD_STRING_DEC" by (simp add: cmd_defs)
  ultimately have "\<exists>s'. answers m lib (StrDecRequest ct rlen) s pt s' \<and> ws_kv s' = ws_kv ?v
      \<and> ws_crypto s' = ws_crypto ?v \<and> ws_wal s' = ws_wal ?v"
    using len rd(1) assms(3) by (intro answers_run [where t = CMD_STRING_DEC and u = "s\<lparr>ws_mem := ?mem1\<rparr>"])
      (simp_all add: StrDecRequest_def put_str_def get_str_def bindE_def str_caps rw unat_len rd_wr_same del: of_nat_add)
  then show ?thesis by simp
qed

lemma send_str_put:
  assumes "length pt < STRING_LENGTH" "decrypt_bytes lib ct (length pt) (ws_crypto s) = (Inr pt, c)"
    "length ct = length pt + 28" "putText INVALID_RID (pt @ [0]) True RID_DEFAULT_PARTITION (ws_kv s) = (Inr key, k)"
  shows "\<exists>s'. answers m lib (StrPutEncRequest ct) s key s' \<and> ws_kv s' = k \<and> ws_crypto s' = c \<and> ws_wal s' = ws_wal s"
proof -
  let ?n = "of_nat (length pt + 28) :: u32"
  let ?mem1 = "wr_bytes (wr32 (wr32 (ws_mem s) 4 CMD_STRING_PUT_ENC) 24 ?n) 28 ct"
  let ?mem = "wr32 ?mem1 0 STATUS_SENT"
  let ?v = "s\<lparr>ws_kv := k, ws_crypto := c, ws_mem := wr64 ?mem 16 key\<rparr>"
  have len: "length pt < 540" using assms(1) by (simp add: STRING_LENGTH_def)
  have n: "unat ?n = length pt + 28" "unat (?n - 28) = length pt"
    using len unat_len [of "length pt + 28"] unat_len [of "length pt"] by simp_all
  have rd: "rd32 ?mem1 4 = CMD_STRING_PUT_ENC" "rd32 ?mem 24 = ?n" "rd_bytes ?mem 28 (length pt + 28) = ct"
    using len assms(3) by (simp_all add: rw rd_wr_same)
  have "dispatch m lib (handle_ops m lib 0) CMD_STRING_PUT_ENC 0 = bindE (put_enc_text lib 0) (\<lambda>res. st64 16 res)"
    by (simp add: dispatch_defs)
  moreover have "put_enc_text lib 0 (s\<lparr>ws_mem := ?mem\<rparr>) = (Inr key, s\<lparr>ws_kv := k, ws_crypto := c, ws_mem := ?mem\<rparr>)"
    using len rd(2,3) n assms(2-4)
    by (simp add: put_enc_text_def bindE_def str_caps on_crypto_run on_kv_run Let_def del: of_nat_add)
  moreover have "0 < sint CMD_STRING_PUT_ENC" by (simp add: cmd_defs)
  ultimately have "\<exists>s'. answers m lib (StrPutEncRequest ct) s key s' \<and> ws_kv s' = ws_kv ?v
      \<and> ws_crypto s' = ws_crypto ?v \<and> ws_wal s' = ws_wal ?v"
    using len rd(1) assms(3) by (intro answers_run [where t = CMD_STRING_PUT_ENC and u = "s\<lparr>ws_mem := ?mem1\<rparr>"])
      (simp_all add: StrPutEncRequest_def put_str_def bindE_def str_caps rw del: of_nat_add)
  then show ?thesis by simp
qed

lemma send_str_get:
  assumes "length t < STRING_LENGTH" "getText key (ws_kv s) = (Inr t, k)"
    "encrypt_bytes lib t (length t + 28) (ws_crypto s) = (Inr ct, c)" "length ct = length t + 28"
  shows "\<exists>s'. answers m lib (StrGetEncRequest key rlen) s ct s' \<and> ws_kv s' = k \<and> ws_crypto s' = c \<and> ws_wal s' = ws_wal s"
proof -
  let ?mem1 = "wr64 (wr32 (ws_mem s) 4 CMD_STRING_GET_ENC) 584 key"
  let ?mem = "wr32 ?mem1 0 STATUS_SENT"
  let ?v = "s\<lparr>ws_kv := k, ws_crypto := c, ws_mem := wr_bytes (wr32 ?mem 12 (of_nat (length t) + 28)) 16 ct\<rparr>"
  have len: "length t < 540" using assms(1) by (simp add: STRING_LENGTH_def)
  have rd: "rd32 ?mem1 4 = CMD_STRING_GET_ENC" "rd64 ?mem 584 = key"
    by (simp_all add: rw)
  have "dispatch m lib (handle_ops m lib 0) CMD_STRING_GET_ENC 0 = get_enc_text lib 0"
    by (simp add: dispatch_defs)
  moreover have "get_enc_text lib 0 (s\<lparr>ws_mem := ?mem\<rparr>) = (Inr (), ?v)"
    using len rd(2) assms(2-4) by (simp add: get_enc_text_def bindE_def str_caps on_crypto_run on_kv_run)
  moreover have "0 < sint CMD_STRING_GET_ENC" by (simp add: cmd_defs)
  ultimately have "\<exists>s'. answers m lib (StrGetEncRequest key rlen) s ct s' \<and> ws_kv s' = ws_kv ?v
      \<and> ws_crypto s' = ws_crypto ?v \<and> ws_wal s' = ws_wal ?v"
    using len rd(1) assms(4) by (intro answers_run [where t = CMD_STRING_GET_ENC and u = "s\<lparr>ws_mem := ?mem1\<rparr>"])
      (simp_all add: StrGetEncRequest_def get_str_def bindE_def str_caps rw unat_len28 rd_wr_same)
  then show ?thesis by simp
qed

end
