(* ===== verification/Zeno_Sql_Props.thy ===== *)
theory Zeno_Sql_Props
  imports Zeno_Exchange
begin

text \<open>
  What the SQL functions compute, end to end. The locale \<open>scalar_sql\<close> is the interface between
  the functions that bring a scalar into the privacy zone and out of it, the four commands they
  use, and the field store; it is interpreted for integers, floats and timestamps.
\<close>

lemma encrypt_value:
  assumes "gcm_correct lib" "crypto_ok s" "length pt < 2 ^ 32"
  obtains ct c where "encrypt_bytes lib pt (length pt + 28) s = (Inr ct, c)" "length ct = length pt + 28"
    "crypto_ok c" "cr_key c = cr_key s" "decrypt_bytes lib ct (length pt) c = (Inr pt, c)"
proof -
  from encrypt_bytes_ok [OF assms(1,2), of pt] obtain ct where
    "encrypt_bytes lib pt (length pt + 28) s = (Inr ct, s\<lparr>cr_iv := increment (cr_iv s)\<rparr>)" "length ct = length pt + 28"
    "decrypt_bytes lib ct (length pt) (s\<lparr>cr_iv := increment (cr_iv s)\<rparr>) = (Inr pt, s\<lparr>cr_iv := increment (cr_iv s)\<rparr>)"
    using assms(3) by auto
  then show thesis
    using assms(2) by (intro that) (simp_all add: crypto_ok_def)
qed

section \<open>Values in and out of the privacy zone\<close>

text \<open>
  A scalar type as its SQL functions see it: the field store of the type, the bytes of a value,
  and the four commands that encrypt, decrypt, store and fetch.
\<close>

locale scalar_sql = fld: field_store put get free fsel fupd "\<lambda>v. v" room groom gfits
  for put :: "rid \<Rightarrow> 'v \<Rightarrow> bool \<Rightarrow> rid \<Rightarrow> (kv_state, rid) kvm"
    and get :: "rid \<Rightarrow> (kv_state, 'v) kvm"
    and free :: "rid \<Rightarrow> (kv_state, unit) kvm"
    and fsel :: "fields \<Rightarrow> rid \<Rightarrow> 'v option"
    and fupd :: "((rid \<Rightarrow> 'v option) \<Rightarrow> rid \<Rightarrow> 'v option) \<Rightarrow> fields \<Rightarrow> fields"
    and room :: "kv_state \<Rightarrow> bool"
    and groom :: "'v \<Rightarrow> rid \<Rightarrow> kv_state \<Rightarrow> bool"
    and gfits :: "'v \<Rightarrow> rid \<Rightarrow> kv_state \<Rightarrow> bool" +
  fixes n :: nat
    and bytes :: "'v \<Rightarrow> byte list"
    and val :: "byte list \<Rightarrow> 'v"
    and ENC DEC PUT GET' :: i32
  assumes length_bytes: "length (bytes v) = n"
    and val_bytes: "val (bytes v) = v"
    and enc_cmd: "(ENC, n) \<in> {(CMD_INT_ENC, 4), (CMD_FLOAT_ENC, 4), (CMD_TIMESTAMP_ENC, 8)}"
    and dec_cmd: "(DEC, n) \<in> {(CMD_INT_DEC, 4), (CMD_FLOAT_DEC, 4), (CMD_TIMESTAMP_DEC, 8)}"
    and put_cmd: "0 < sint PUT" "dispatch m lib h PUT 0 =
      bindE (ld 24 (n + 28)) (\<lambda>src. bindE (on_crypto (decrypt_bytes lib src n)) (\<lambda>pt.
      bindE (on_kv (put INVALID_RID (val pt) True RID_DEFAULT_PARTITION)) (\<lambda>res. st64 16 res)))"
    and get_cmd: "0 < sint GET'" "dispatch m lib h GET' 0 =
      bindE (ld64 48) (\<lambda>dec. bindE (on_kv (get dec)) (\<lambda>v.
      bindE (on_crypto (encrypt_bytes lib (bytes v) (n + 28))) (\<lambda>ct. st 12 ct)))"
begin

lemma n_small: "n \<le> 8"
  using enc_cmd by auto

text \<open>The input path: encrypt, then store the ciphertext.\<close>

lemma sql_in:
  assumes "gcm_correct lib" "crypto_ok (ws_crypto s)" "kv_ok (ws_kv s)" "room (ws_kv s)"
  shows "\<exists>key s'. bindE (call m lib (EncRequest ENC (bytes v))) (\<lambda>ct. call m lib (PutEncIntoKVRequest PUT ct)) s = (Inr key, s')
    \<and> islocal key \<and> fsel (kv_view (ws_kv s)) key = None
    \<and> kv_view (ws_kv s') = fupd (\<lambda>m. m(key \<mapsto> v)) (kv_view (ws_kv s)) \<and> kv_ok (ws_kv s')
    \<and> crypto_ok (ws_crypto s') \<and> cr_key (ws_crypto s') = cr_key (ws_crypto s)"
proof -
  obtain ct c where
    ct: "encrypt_bytes lib (bytes v) (n + 28) (ws_crypto s) = (Inr ct, c)" "length ct = n + 28"
      "crypto_ok c" "cr_key c = cr_key (ws_crypto s)" "decrypt_bytes lib ct n c = (Inr (bytes v), c)"
    using encrypt_value [OF assms(1,2), of "bytes v"] n_small by (auto simp: length_bytes)
  from send_enc [OF enc_cmd length_bytes ct(1,2), of m] obtain s1 where
    s1: "answers m lib (EncRequest ENC (bytes v)) s ct s1" "ws_kv s1 = ws_kv s" "ws_crypto s1 = c"
    by blast
  from fld.put_local_spec [OF assms(3,4)] obtain key k where
    k: "put INVALID_RID v True RID_DEFAULT_PARTITION (ws_kv s) = (Inr key, k)" "islocal key"
      "fsel (kv_view (ws_kv s)) key = None" "kv_view k = fupd (\<lambda>m. m(key \<mapsto> v)) (kv_view (ws_kv s))" "kv_ok k"
    by blast
  from send_put_enc [where store = "\<lambda>pt. put INVALID_RID (val pt) True RID_DEFAULT_PARTITION"
      and m = m and lib = lib and s = s1 and pt = "bytes v" and c = c and key = key and k = k, OF put_cmd ct(2)] s1 ct(5) k(1)
  obtain s2 where "answers m lib (PutEncIntoKVRequest PUT ct) s1 key s2" "ws_kv s2 = k" "ws_crypto s2 = c"
    by (auto simp: val_bytes)
  with s1 k ct show ?thesis
    by (auto simp: answers_call)
qed

text \<open>The output path: fetch the ciphertext, then decrypt it.\<close>

lemma sql_out:
  assumes "gcm_correct lib" "crypto_ok (ws_crypto s)" "kv_ok (ws_kv s)" "fsel (kv_view (ws_kv s)) key = Some v"
  shows "\<exists>ct s1 s'. call m lib (GetEncFromKVRequest GET' key (n + 28)) s = (Inr ct, s1)
    \<and> invoke m lib (DecRequest DEC ct) s1 = (Inr (0, bytes v), s')
    \<and> kv_view (ws_kv s') = kv_view (ws_kv s) \<and> kv_ok (ws_kv s')
    \<and> crypto_ok (ws_crypto s') \<and> cr_key (ws_crypto s') = cr_key (ws_crypto s)"
proof -
  obtain ct c where
    ct: "encrypt_bytes lib (bytes v) (n + 28) (ws_crypto s) = (Inr ct, c)" "length ct = n + 28"
      "crypto_ok c" "cr_key c = cr_key (ws_crypto s)" "decrypt_bytes lib ct n c = (Inr (bytes v), c)"
    using encrypt_value [OF assms(1,2), of "bytes v"] n_small by (auto simp: length_bytes)
  from fld.get_spec [OF assms(3,4)] obtain k where
    k: "get key (ws_kv s) = (Inr v, k)" "kv_eqv (ws_kv s) k" "kv_ok k"
    by blast
  from send_get_enc [OF get_cmd k(1) ct(1,2) n_small] obtain s1 where
    s1: "answers m lib (GetEncFromKVRequest GET' key (n + 28)) s ct s1" "ws_kv s1 = k" "ws_crypto s1 = c"
    by blast
  from send_dec [where m = m and lib = lib and s = s1 and pt = "bytes v" and c = c, OF dec_cmd ct(2)] s1 ct(5) obtain s2 where
    "answers m lib (DecRequest DEC ct) s1 (bytes v) s2" "ws_kv s2 = k" "ws_crypto s2 = c"
    by (auto simp: length_bytes)
  with s1 k ct kv_eqv_view [OF k(2)] show ?thesis
    by (auto simp: answers_call answers_def)
qed

end

interpretation int_sql: scalar_sql putInt getInt freeLocalInt int_of int_of_update roomInt groomInt gfitsInt
    4 "le_bytes 4" le_word CMD_INT_ENC CMD_INT_DEC CMD_INT_PUT_ENC CMD_INT_GET_ENC
  by unfold_locales (simp_all add: dispatch_defs)

interpretation float_sql: scalar_sql putFloat getFloat freeLocalFloat float_of float_of_update roomFloat groomFloat gfitsFloat
    4 "le_bytes 4" le_word CMD_FLOAT_ENC CMD_FLOAT_DEC CMD_FLOAT_PUT_ENC CMD_FLOAT_GET_ENC
  by unfold_locales (simp_all add: dispatch_defs)

interpretation time_sql: scalar_sql putTimestamp getTimestamp freeLocalTimestamp time_of time_of_update
    roomTimestamp groomTimestamp gfitsTimestamp
    8 "le_bytes 8" le_word CMD_TIMESTAMP_ENC CMD_TIMESTAMP_DEC CMD_TIMESTAMP_PUT_ENC CMD_TIMESTAMP_GET_ENC
  by unfold_locales (simp_all add: dispatch_defs)

section \<open>Integers as text\<close>

lemma length_dec_str: "length (dec_str (sint (w :: i32))) \<le> 11"
proof -
  have "nat \<bar>sint w\<bar> < 10 ^ 10"
    using sint_in_int [of w] by (auto simp: in_int_def)
  from length_digits [OF this] show ?thesis
    by (auto simp: dec_str_def abs_if split: if_splits)
qed

lemma sprintf_d_ok: "12 \<le> cap \<Longrightarrow> sprintf_d cap w = Inr (dec_str (sint w))"
  using length_dec_str [of w] by (simp add: sprintf_d_def Let_def)

lemma sprintf_d_4: "sprintf_d 4 w =
  (if - 99 \<le> sint w \<and> sint w \<le> 999 then Inr (dec_str (sint w)) else Inl (Undefined BufferOverflow))"
proof -
  have "length (dec_str (sint w)) \<le> 3 \<longleftrightarrow> - 99 \<le> sint w \<and> sint w \<le> 999"
  proof (cases "sint w < 0")
    case True
    have "length (digits (nat (- sint w))) \<le> 2" if "- 99 \<le> sint w"
      using that by (intro length_digits) auto
    moreover have "3 \<le> length (digits (nat (- sint w)))" if "\<not> - 99 \<le> sint w"
      using that length_digits_ge [of 2 "nat (- sint w)"] by auto
    ultimately show ?thesis
      using True by (cases "- 99 \<le> sint w") (auto simp: dec_str_def)
  next
    case False
    have "length (digits (nat (sint w))) \<le> 3" if "sint w \<le> 999"
      using that by (intro length_digits) auto
    moreover have "4 \<le> length (digits (nat (sint w)))" if "\<not> sint w \<le> 999"
      using that length_digits_ge [of 3 "nat (sint w)"] by auto
    ultimately show ?thesis
      using False by (cases "sint w \<le> 999") (auto simp: dec_str_def)
  qed
  then show ?thesis by (auto simp: sprintf_d_def Let_def)
qed

lemma kv_int4_print:
  assumes "gcm_correct lib" "crypto_ok (ws_crypto s)" "kv_ok (ws_kv s)" "int_of (kv_view (ws_kv s)) key = Some w"
  shows "\<exists>s'. bindE (kv_int_get_enc m lib key) (\<lambda>result.
      bindE (bindE (enc_int_decrypt m lib result) checked) (\<lambda>inp. lift_sum (f inp))) s = (f w, s')
    \<and> kv_view (ws_kv s') = kv_view (ws_kv s) \<and> kv_ok (ws_kv s')
    \<and> crypto_ok (ws_crypto s') \<and> cr_key (ws_crypto s') = cr_key (ws_crypto s)"
proof -
  from int_sql.sql_out [OF assms, of m] obtain ct s1 s' where
    "call m lib (GetEncFromKVRequest CMD_INT_GET_ENC key 32) s = (Inr ct, s1)"
    "invoke m lib (DecRequest CMD_INT_DEC ct) s1 = (Inr (0, le_bytes 4 w), s')"
    "kv_view (ws_kv s') = kv_view (ws_kv s) \<and> kv_ok (ws_kv s')
      \<and> crypto_ok (ws_crypto s') \<and> cr_key (ws_crypto s') = cr_key (ws_crypto s)"
    by auto
  then show ?thesis
    by (simp add: kv_int_get_enc_def enc_int_decrypt_def checked_def)
qed

text \<open>
  C24. An integer survives the way through the database: \<^verbatim>\<open>kv_int4_in\<close> on its decimal text encrypts
  it, stores it as a new temporary and changes no other field, and \<^verbatim>\<open>kv_int4_send\<close> on the
  identifier prints the same text.
\<close>

theorem int_text_roundtrip:
  assumes "gcm_correct lib" "crypto_ok (ws_crypto s)" "kv_ok (ws_kv s)" "roomInt (ws_kv s)"
  shows "\<exists>key s1 s2. kv_int4_in m lib (dec_str (sint w)) s = (Inr key, s1)
    \<and> islocal key \<and> int_of (kv_view (ws_kv s)) key = None
    \<and> kv_view (ws_kv s1) = (kv_view (ws_kv s))\<lparr>int_of := (int_of (kv_view (ws_kv s)))(key \<mapsto> w)\<rparr>
    \<and> kv_int4_send m lib key s1 = (Inr (dec_str (sint w)), s2) \<and> kv_view (ws_kv s2) = kv_view (ws_kv s1)"
proof -
  from int_sql.sql_in [OF assms, of m w] obtain key s1 where
    s1: "bindE (call m lib (EncRequest CMD_INT_ENC (le_bytes 4 w))) (\<lambda>ct. call m lib (PutEncIntoKVRequest CMD_INT_PUT_ENC ct)) s = (Inr key, s1)"
      "islocal key" "int_of (kv_view (ws_kv s)) key = None"
      "kv_view (ws_kv s1) = int_of_update (\<lambda>m. m(key \<mapsto> w)) (kv_view (ws_kv s))" "kv_ok (ws_kv s1)" "crypto_ok (ws_crypto s1)"
    by blast
  have "kv_int4_in m lib (dec_str (sint w)) s = (Inr key, s1)"
    using s1(1) by (simp add: kv_int4_in_def atoi_dec_str enc_int_encrypt_def kv_int_put_enc_def flip: call_def)
  moreover have "int_of (kv_view (ws_kv s1)) key = Some w"
    by (simp add: s1(4))
  note kv_int4_print [OF assms(1) s1(6,5) this, of m "sprintf_d 32"]
  ultimately show ?thesis
    using s1 by (auto simp: kv_int4_send_def sprintf_d_ok)
qed

text \<open>For the witnesses: a worker that has just started, and a library whose \<^verbatim>\<open>pow\<close> is never called.\<close>

definition ws_init :: worker_state where
  "ws_init = worker_of (kv_init (\<lambda>_. True))"

lemma ws_init_simps [simp]: "ws_kv ws_init = kv_init (\<lambda>_. True)" "crypto_ok (ws_crypto ws_init)"
  by (simp_all add: ws_init_def worker_of_def crypto_ok_plain)

definition libm0 :: libm where
  "libm0 = \<lparr>libm_pow = (\<lambda>_ _. 0), libm_powf = (\<lambda>_ _. 0)\<rparr>"

theorem int_text_roundtrip_witness:
  "\<exists>key s1 s2. kv_int4_in libm0 plain_gcm (dec_str (- 1234)) ws_init = (Inr key, s1)
    \<and> kv_int4_send libm0 plain_gcm key s1 = (Inr (dec_str (- 1234)), s2)"
  using int_text_roundtrip [OF gcm_correct_plain ws_init_simps(2), of libm0 "- 1234"] by auto

text \<open>
  \<^verbatim>\<open>kv_int4_out\<close> has space for three characters: it prints the integers from -99 to 999 and
  writes past its buffer for all others.
\<close>

theorem int4_out_overflows:
  assumes "gcm_correct lib" "crypto_ok (ws_crypto s)" "kv_ok (ws_kv s)" "int_of (kv_view (ws_kv s)) key = Some w"
  shows "\<exists>s'. kv_int4_out m lib key s =
      (if - 99 \<le> sint w \<and> sint w \<le> 999 then Inr (dec_str (sint w)) else Inl (Undefined BufferOverflow), s')
    \<and> kv_view (ws_kv s') = kv_view (ws_kv s)"
  using kv_int4_print [OF assms, of m "sprintf_d 4"] by (auto simp: kv_int4_out_def sprintf_d_4)

lemma one_temporary:
  "kv_ok (snd (putInt 0 v True 0 (kv_init (\<lambda>_. True))))"
  "int_of (kv_view (snd (putInt 0 v True 0 (kv_init (\<lambda>_. True))))) (idx2local 0) = Some v"
  using putInt_temporary [of "kv_init (\<lambda>_. True)" 0 v 0]
  by (simp_all add: kv_view_init, simp add: kv_init_def lk_empty_def ls_empty_def)

theorem int4_out_overflows_witness:
  "fst (kv_int4_out libm0 plain_gcm (idx2local 0) (worker_of (snd (putInt 0 1234 True 0 (kv_init (\<lambda>_. True))))))
    = Inl (Undefined BufferOverflow)"
  using int4_out_overflows [OF gcm_correct_plain, of "worker_of (snd (putInt 0 1234 True 0 (kv_init (\<lambda>_. True))))"
      "idx2local 0" 1234 libm0]
  by (auto simp: worker_of_def crypto_ok_plain one_temporary)

section \<open>Texts\<close>

text \<open>
  C23. A text of up to 539 bytes survives the way through the database: \<^verbatim>\<open>kv_text_in\<close> encrypts it
  and stores it as a new temporary, no other field changes, and \<^verbatim>\<open>kv_text_out\<close> on the identifier
  returns the text. A longer one is refused and nothing changes.
\<close>

theorem text_roundtrip:
  assumes "gcm_correct lib" "crypto_ok (ws_crypto s)" "kv_ok (ws_kv s)" "roomText (ws_kv s)"
    "is_text t" "length t < 2 ^ 32"
  shows "if length t < 540 then
      \<exists>key s1 s2. kv_text_in m lib t s = (Inr key, s1) \<and> islocal key \<and> text_of (kv_view (ws_kv s)) key = None
        \<and> kv_view (ws_kv s1) = (kv_view (ws_kv s))\<lparr>text_of := (text_of (kv_view (ws_kv s)))(key \<mapsto> t)\<rparr>
        \<and> kv_text_out m lib key s1 = (Inr t, s2) \<and> kv_view (ws_kv s2) = kv_view (ws_kv s1)
    else kv_text_in m lib t s = (Inl (Report TextTooLong), s)"
proof (cases "length t < 540")
  case False
  then show ?thesis
    using assms(5,6) by (simp add: kv_text_in_def cstring_to_enctext_with_len_def unat_len STRING_LENGTH_def)
next
  case True
  then have len: "length t < STRING_LENGTH" by (simp add: STRING_LENGTH_def)
  obtain ct c where
    ct: "encrypt_bytes lib t (length t + 28) (ws_crypto s) = (Inr ct, c)" "length ct = length t + 28"
      "crypto_ok c" "decrypt_bytes lib ct (length t) c = (Inr t, c)"
    using encrypt_value [OF assms(1,2,6)] by blast
  from send_str_enc [OF len ct(1,2)] obtain s1 where
    s1: "answers m lib (StrEncRequest t 0) s ct s1" "ws_kv s1 = ws_kv s" "ws_crypto s1 = c"
    by blast
  from text_field.put_local_spec [OF assms(3,4), of INVALID_RID "t @ [0]" RID_DEFAULT_PARTITION] obtain key k where
    k: "putText INVALID_RID (t @ [0]) True RID_DEFAULT_PARTITION (ws_kv s) = (Inr key, k)" "islocal key"
      "text_of (kv_view (ws_kv s)) key = None" "kv_view k = text_of_update (\<lambda>m. m(key \<mapsto> t)) (kv_view (ws_kv s))" "kv_ok k"
    using cstr_append_nul [OF assms(5), of "[]"] by auto
  from send_str_put [of t lib ct s1 c key k m] s1 len ct k(1) obtain s2 where
    s2: "answers m lib (StrPutEncRequest ct) s1 key s2" "ws_kv s2 = k" "ws_crypto s2 = c"
    by auto
  have inp: "kv_text_in m lib t s = (Inr key, s2)"
    using s1(1) s2(1) assms(5,6) len
    by (simp add: kv_text_in_def cstring_to_enctext_with_len_def unat_len enc_text_encrypt_def kv_text_put_enc_def
        answers_checked answers_call)
  have "text_of (kv_view k) key = Some t"
    by (simp add: k(4))
  from text_field.get_spec [OF k(5) this] obtain k' where
    k': "getText key k = (Inr t, k')" "kv_eqv k k'"
    by blast
  obtain ct' c' where
    ct': "encrypt_bytes lib t (length t + 28) c = (Inr ct', c')" "length ct' = length t + 28"
      "decrypt_bytes lib ct' (length t) c' = (Inr t, c')"
    using encrypt_value [OF assms(1) ct(3) assms(6)] by blast
  from send_str_get [of t key s2 k' lib ct' c' m 0] len s2 k'(1) ct' obtain s3 where
    s3: "answers m lib (StrGetEncRequest key 0) s2 ct' s3" "ws_kv s3 = k'" "ws_crypto s3 = c'"
    by auto
  from send_str_dec [of t lib ct' s3 c' m 0] len s3 ct' obtain s4 where
    s4: "answers m lib (StrDecRequest ct' 0) s3 t s4" "ws_kv s4 = k'"
    by auto
  have "kv_text_out m lib key s2 = (Inr t, s4)"
    using s3(1) s4(1) assms(5) len
    by (simp add: kv_text_out_def kv_text_get_enc_def enc_text_decrypt_def answers_call answers_checked)
  with inp k s2(2) s4(2) kv_eqv_view [OF k'(2)] True show ?thesis
    by auto
qed

theorem text_roundtrip_witness:
  "\<exists>key s1 s2. kv_text_in libm0 plain_gcm [90, 69, 78, 79] ws_init = (Inr key, s1)
    \<and> kv_text_out libm0 plain_gcm key s1 = (Inr [90, 69, 78, 79], s2)"
  using text_roundtrip [OF gcm_correct_plain ws_init_simps(2), of "[90, 69, 78, 79]" libm0]
  by (auto simp: is_text_def)

section \<open>Comparisons and extremes\<close>

lemma int_cmp_answer:
  assumes "kv_ok (ws_kv s)" "int_of (kv_view (ws_kv s)) l = Some a" "int_of (kv_view (ws_kv s)) r = Some b"
  shows "\<exists>c s'. kv_int_cmp_req m lib l r s = (Inr c, s') \<and> sint c = sgn (sint a - sint b)
    \<and> kv_view (ws_kv s') = kv_view (ws_kv s) \<and> kv_ok (ws_kv s')"
proof -
  let ?f = "\<lambda>x y. cmp3 (sint x > sint y) (sint x < sint y)"
  from int_field.get2 [OF assms, of "\<lambda>x y. ret (?f x y)"] obtain k where
    k: "kv_int_cmp l r (ws_kv s) = (Inr (?f a b), k)" "kv_eqv (ws_kv s) k" "kv_ok k"
    by (auto simp: kv_int_cmp_def)
  have "cmp_fun CMD_INT_CMP = Some kv_int_cmp" "0 < sint CMD_INT_CMP"
    by (simp_all add: cmp_fun_def, simp add: cmd_defs)
  from send_cmp [OF this k(1), of m lib] k(2,3) kv_eqv_view [OF k(2)] cmp3_sgn show ?thesis
    by (force simp: kv_int_cmp_req_def answers_call)
qed

lemma sint_sign: "sint (c :: i32) \<in> {- 1, 0, 1} \<Longrightarrow> (c = - 1 \<longleftrightarrow> sint c = - 1) \<and> (c = 1 \<longleftrightarrow> sint c = 1)"
  by (auto simp: sint_eq_iff in_int_def)

abbreviation int_at :: "worker_state \<Rightarrow> rid \<Rightarrow> int" where
  "int_at s k \<equiv> sint (the (int_of (kv_view (ws_kv s)) k))"

lemma extreme_loop_ok:
  assumes "kv_ok (ws_kv s)" "\<forall>v \<in> set (best # vs). int_of (kv_view (ws_kv s)) v \<noteq> None"
    "(sign, g) = (- 1, - 1) \<or> (sign, g) = (1, 1 :: int)"
  shows "\<exists>r s'. extreme_loop (kv_int_cmp_req m lib) sign vs best s = (Inr r, s') \<and> r \<in> set (best # vs)
    \<and> kv_view (ws_kv s') = kv_view (ws_kv s) \<and> (\<forall>v \<in> set (best # vs). g * int_at s r \<le> g * int_at s v)"
  using assms(1,2)
proof (induction vs arbitrary: best s)
  case Nil
  then show ?case by simp
next
  case (Cons v vs)
  from Cons.prems(2) obtain a b where ab: "int_of (kv_view (ws_kv s)) best = Some a" "int_of (kv_view (ws_kv s)) v = Some b"
    by auto
  from int_cmp_answer [OF Cons.prems(1) ab, of m lib] obtain c s1 where
    s1: "kv_int_cmp_req m lib best v s = (Inr c, s1)" "sint c = sgn (sint a - sint b)"
      "kv_view (ws_kv s1) = kv_view (ws_kv s)" "kv_ok (ws_kv s1)"
    by blast
  have "sint c \<in> {- 1, 0, 1}"
    by (simp add: s1(2) sgn_if)
  then have c: "c = sign \<longleftrightarrow> sgn (sint a - sint b) = g"
    using assms(3) sint_sign [of c] s1(2) by auto
  let ?b = "if c = sign then v else best"
  have "\<forall>w \<in> set (?b # vs). int_of (kv_view (ws_kv s1)) w \<noteq> None"
    using Cons.prems(2) s1(3) by auto
  from Cons.IH [OF s1(4) this] s1(3) obtain r s' where
    r: "extreme_loop (kv_int_cmp_req m lib) sign vs ?b s1 = (Inr r, s')" "r \<in> set (?b # vs)"
      "kv_view (ws_kv s') = kv_view (ws_kv s)" "\<forall>w \<in> set (?b # vs). g * int_at s r \<le> g * int_at s w"
    by auto
  have "g * int_at s ?b \<le> g * int_at s best \<and> g * int_at s ?b \<le> g * int_at s v"
    using c ab assms(3) by (auto simp: sgn_if split: if_splits)
  with r(4) have "\<forall>w \<in> set (best # v # vs). g * int_at s r \<le> g * int_at s w"
    by (auto split: if_splits)
  with r s1 show ?case
    by (auto split: if_splits)
qed

text \<open>
  C39. \<^verbatim>\<open>MAX\<close> and \<^verbatim>\<open>MIN\<close> over a non-empty array of integer fields return one of the identifiers
  of the array, whose value no other exceeds, or undercuts, and change no field.
\<close>

theorem int_extremes:
  assumes "kv_ok (ws_kv s)" "arr \<noteq> []" "\<forall>k \<in> set arr. int_of (kv_view (ws_kv s)) k \<noteq> None"
  shows "(\<exists>r s'. kv_int4_max_bulk m lib arr s = (Inr r, s') \<and> r \<in> set arr
      \<and> kv_view (ws_kv s') = kv_view (ws_kv s) \<and> (\<forall>k \<in> set arr. int_at s k \<le> int_at s r))
    \<and> (\<exists>r s'. kv_int4_min_bulk m lib arr s = (Inr r, s') \<and> r \<in> set arr
      \<and> kv_view (ws_kv s') = kv_view (ws_kv s) \<and> (\<forall>k \<in> set arr. int_at s r \<le> int_at s k))"
proof -
  obtain v vs where arr: "arr = v # vs"
    using assms(2) by (cases arr) auto
  show ?thesis
    using extreme_loop_ok [OF assms(1), of v vs "- 1" "- 1" m lib] extreme_loop_ok [OF assms(1), of v vs 1 1 m lib] assms(3)
    by (simp add: arr kv_int4_max_bulk_def kv_int4_min_bulk_def)
qed

theorem int_extremes_witness:
  "\<exists>r s'. kv_int4_max_bulk libm0 plain_gcm [idx2local 1, idx2local 0] (worker_of tee_sample) = (Inr r, s')
    \<and> int_at (worker_of tee_sample) r = 7"
proof -
  let ?s = "worker_of tee_sample"
  have "kv_ok (ws_kv ?s)" "\<forall>k \<in> set [idx2local 1, idx2local 0]. int_of (kv_view (ws_kv ?s)) k \<noteq> None"
    by (simp_all add: worker_of_def tee_sample_facts)
  from int_extremes [OF this(1) _ this(2), of libm0 plain_gcm] obtain r s' where
    "kv_int4_max_bulk libm0 plain_gcm [idx2local 1, idx2local 0] ?s = (Inr r, s')" "r \<in> set [idx2local 1, idx2local 0]"
    "\<forall>k \<in> set [idx2local 1, idx2local 0]. int_at ?s k \<le> int_at ?s r"
    by auto
  then show ?thesis
    by (auto simp: worker_of_def tee_sample_facts)
qed

section \<open>Sums\<close>

abbreviation ints_at :: "worker_state \<Rightarrow> rid list \<Rightarrow> i32 list \<Rightarrow> bool" where
  "ints_at s \<equiv> list_all2 (\<lambda>k v. int_of (kv_view (ws_kv s)) k = Some v)"

definition sums_in_int :: "i32 list \<Rightarrow> bool" where
  "sums_in_int vs \<longleftrightarrow> (\<forall>n \<le> length vs. in_int (\<Sum>v\<leftarrow>take n vs. sint v))"

lemma sums_in_intD: "sums_in_int vs \<Longrightarrow> n \<le> length vs \<Longrightarrow> in_int (\<Sum>v\<leftarrow>take n vs. sint v)"
  by (simp add: sums_in_int_def)

lemma sums_in_int_prefix:
  assumes "sums_in_int (xs @ ys)"
  shows "sums_in_int xs"
  unfolding sums_in_int_def
proof (intro allI impI)
  fix n assume "n \<le> length xs"
  with sums_in_intD [OF assms, of n] show "in_int (\<Sum>v\<leftarrow>take n xs. sint v)" by simp
qed

lemma sums_in_int_collapse:
  assumes "sums_in_int (xs @ ys)" "sint w = (\<Sum>v\<leftarrow>xs. sint v)"
  shows "sums_in_int (w # ys)"
  unfolding sums_in_int_def
proof (intro allI impI)
  fix n assume n: "n \<le> length (w # ys)"
  show "in_int (\<Sum>v\<leftarrow>take n (w # ys). sint v)"
  proof (cases n)
    case 0
    then show ?thesis by (simp add: in_int_def)
  next
    case (Suc j)
    with sums_in_intD [OF assms(1), of "length xs + j"] n assms(2) show ?thesis by simp
  qed
qed

lemma sum_bulk_answer:
  assumes "kv_ok (ws_kv s)" "int_slots (ws_kv s) < 2 ^ 48" "ints_at s ks vs" "sums_in_int vs" "length ks \<le> BULK_SIZE"
  shows "\<exists>key s' w. kv_int_sum_bulk_req m lib ks s = (Inr key, s') \<and> sint w = (\<Sum>v\<leftarrow>vs. sint v)
    \<and> islocal key \<and> int_of (kv_view (ws_kv s)) key = None \<and> kv_ok (ws_kv s')
    \<and> kv_view (ws_kv s') = (kv_view (ws_kv s))\<lparr>int_of := (free_set (set ks) (int_of (kv_view (ws_kv s))))(key \<mapsto> w)\<rparr>
    \<and> int_slots (ws_kv s') \<le> Suc (int_slots (ws_kv s))"
proof -
  have "roomInt (ws_kv s)"
    using assms(2) by (simp add: roomInt_def ls_room_def int_slots_def)
  from int_sum_bulk_ok [OF assms(1) this assms(3)] assms(4) obtain key k w where
    k: "kv_int_sum_bulk ks (ws_kv s) = (Inr key, k)" "sint w = (\<Sum>v\<leftarrow>vs. sint v)" "islocal key"
      "int_of (kv_view (ws_kv s)) key = None" "kv_ok k"
      "kv_view k = (kv_view (ws_kv s))\<lparr>int_of := (free_set (set ks) (int_of (kv_view (ws_kv s))))(key \<mapsto> w)\<rparr>"
    by (auto simp: sums_in_int_def)
  have "bulk_fun CMD_INT_SUM_BULK = Some kv_int_sum_bulk" "0 < sint CMD_INT_SUM_BULK"
    by (simp_all add: bulk_fun_def, simp add: cmd_defs)
  from send_bulk [OF this assms(5) k(1), of m lib] obtain s' where
    "answers m lib (BulkRequest CMD_INT_SUM_BULK ks) s key s'" "ws_kv s' = k"
    by blast
  with k int_slots_sum_bulk [OF k(1)] show ?thesis
    by (intro exI [of _ key] exI [of _ s'] exI [of _ w]) (simp add: kv_int_sum_bulk_req_def answers_call)
qed

lemma free_set_chunk:
  assumes "islocal tmp" "m tmp = None"
  shows "free_set (set (tmp # ks)) ((free_set (set bulk) m)(tmp \<mapsto> w)) = free_set (set (bulk @ ks)) m"
  using assms by (auto simp: free_set_def fun_eq_iff)

lemma ints_at_kept:
  assumes "ints_at s ks vs" "distinct (filter islocal (bulk @ ks))" "int_of (kv_view (ws_kv s)) tmp = None"
    "kv_view (ws_kv s') = (kv_view (ws_kv s))\<lparr>int_of := (free_set (set bulk) (int_of (kv_view (ws_kv s))))(tmp \<mapsto> w)\<rparr>"
  shows "ints_at s' ks vs"
proof (rule list.rel_mono_strong [OF assms(1)])
  fix k v
  assume k: "k \<in> set ks" "int_of (kv_view (ws_kv s)) k = Some v"
  then have "k \<noteq> tmp" using assms(3) by auto
  moreover have "\<not> (k \<in> set bulk \<and> islocal k)"
    using k(1) assms(2) by auto
  ultimately show "int_of (kv_view (ws_kv s')) k = Some v"
    using k(2) by (simp add: assms(4) free_set_def)
qed

lemma free_set_None: "m k = None \<Longrightarrow> free_set ks m k = None"
  by (simp add: free_set_def)

lemma bulk_loop_ok:
  assumes "kv_ok (ws_kv s)" "int_slots (ws_kv s) + length ks < 2 ^ 48" "ints_at s (bulk @ ks) vs" "sums_in_int vs"
    "length bulk \<le> BULK_SIZE" "distinct (filter islocal (bulk @ ks))"
  shows "\<exists>key s' w. bulk_loop (kv_int_sum_bulk_req m lib) ks bulk s = (Inr key, s') \<and> sint w = (\<Sum>v\<leftarrow>vs. sint v)
    \<and> islocal key \<and> free_set (set (bulk @ ks)) (int_of (kv_view (ws_kv s))) key = None \<and> kv_ok (ws_kv s')
    \<and> kv_view (ws_kv s') = (kv_view (ws_kv s))\<lparr>int_of := (free_set (set (bulk @ ks)) (int_of (kv_view (ws_kv s))))(key \<mapsto> w)\<rparr>"
  using assms
proof (induction ks arbitrary: s bulk vs)
  case Nil
  then have slots: "int_slots (ws_kv s) < 2 ^ 48" and vs: "ints_at s bulk vs"
    by simp_all
  show ?case
    unfolding append_Nil2 bulk_loop.simps
    using sum_bulk_answer [OF Nil(1) slots vs Nil(4,5)] by (blast intro: free_set_None)
next
  case (Cons k ks)
  show ?case
  proof (cases "length bulk = BULK_SIZE")
    case False
    with Cons.IH [of s "bulk @ [k]" vs] Cons.prems show ?thesis by simp
  next
    case True
    from Cons.prems(3) obtain xs ys where vs: "vs = xs @ ys" "ints_at s bulk xs" "ints_at s (k # ks) ys"
      by (auto simp: list_all2_append1)
    from sum_bulk_answer [OF Cons.prems(1) _ vs(2) sums_in_int_prefix [OF Cons.prems(4) [unfolded vs(1)]] Cons.prems(5), of m lib]
      Cons.prems(2) obtain tmp s1 w0 where
      s1: "kv_int_sum_bulk_req m lib bulk s = (Inr tmp, s1)" "sint w0 = (\<Sum>v\<leftarrow>xs. sint v)" "islocal tmp"
        "int_of (kv_view (ws_kv s)) tmp = None" "kv_ok (ws_kv s1)"
        "kv_view (ws_kv s1) = (kv_view (ws_kv s))\<lparr>int_of := (free_set (set bulk) (int_of (kv_view (ws_kv s))))(tmp \<mapsto> w0)\<rparr>"
        "int_slots (ws_kv s1) \<le> Suc (int_slots (ws_kv s))"
      by auto
    have tmp: "tmp \<notin> set (k # ks)"
      using vs(3) s1(4) by (auto simp: list_all2_conv_all_nth in_set_conv_nth)
    have vals: "ints_at s1 ([tmp, k] @ ks) (w0 # ys)"
      using ints_at_kept [OF vs(3) Cons.prems(6) s1(4,6)] by (simp add: s1(6))
    have dist: "distinct (filter islocal ([tmp, k] @ ks))"
      using Cons.prems(6) tmp s1(3) by auto
    have sums: "sums_in_int (w0 # ys)"
      using sums_in_int_collapse Cons.prems(4) s1(2) by (simp add: vs(1))
    have slots: "int_slots (ws_kv s1) + length ks < 2 ^ 48" "length [tmp, k] \<le> BULK_SIZE"
      using s1(7) Cons.prems(2) by (simp_all add: BULK_SIZE_def)
    from Cons.IH [OF s1(5) slots(1) vals sums slots(2) dist] obtain key s' w where
      "bulk_loop (kv_int_sum_bulk_req m lib) ks [tmp, k] s1 = (Inr key, s')" "sint w = (\<Sum>v\<leftarrow>w0 # ys. sint v)" "islocal key"
      "free_set (set ([tmp, k] @ ks)) (int_of (kv_view (ws_kv s1))) key = None" "kv_ok (ws_kv s')"
      "kv_view (ws_kv s') = (kv_view (ws_kv s1))\<lparr>int_of := (free_set (set ([tmp, k] @ ks)) (int_of (kv_view (ws_kv s1))))(key \<mapsto> w)\<rparr>"
      by blast
    moreover have "free_set (set ([tmp, k] @ ks)) (int_of (kv_view (ws_kv s1))) =
        free_set (set (bulk @ k # ks)) (int_of (kv_view (ws_kv s)))"
      using free_set_chunk [where m = "int_of (kv_view (ws_kv s))", OF s1(3,4), of "k # ks" bulk w0] by (simp add: s1(6))
    ultimately show ?thesis
      using True s1(1,2,6) by (intro exI [of _ key] exI [of _ s'] exI [of _ w] conjI; simp add: vs(1) fun_upd_def)
  qed
qed



end
