(* ===== verification/Zeno_Delete_Queue.thy ===== *)
theory Zeno_Delete_Queue
  imports Zeno_Rid
begin

text \<open>
  The queue of deleted identifiers (\<^verbatim>\<open>src/src/integrity_zone/include/delete_queue.hpp\<close>): a ring of
  \<^verbatim>\<open>MAX_ELE_NUM\<close> slots with a mark between the deletions of committed transactions and those of the
  running one. \<open>delete_queue_refines\<close> relates any run to two lists; \<open>full_delete_queue_lost\<close> is the
  state the ring cannot represent.
\<close>

section \<open>The queue\<close>

definition MAX_ELE_NUM :: nat where "MAX_ELE_NUM = 1024 * 1024"

record delete_queue =
  dq_queue :: "nat \<Rightarrow> rid"
  dq_head :: nat
  dq_reuse :: nat
  dq_tail :: nat
  dq_size :: nat
  dq_dequeue_cnt :: int

definition dq_new :: "(nat \<Rightarrow> rid) \<Rightarrow> delete_queue" where
  "dq_new junk = \<lparr>dq_queue = junk, dq_head = 0, dq_reuse = 0, dq_tail = 0, dq_size = 0, dq_dequeue_cnt = 0\<rparr>"

definition enqueue :: "rid \<Rightarrow> (delete_queue, bool) kvm" where
  "enqueue r = (\<lambda>q.
     if MAX_ELE_NUM \<le> dq_size q then (Inr False, q)
     else (Inr True, q\<lparr>dq_queue := (dq_queue q)(dq_tail q := r),
       dq_tail := (dq_tail q + 1) mod MAX_ELE_NUM, dq_size := dq_size q + 1\<rparr>))"

definition dequeue :: "(delete_queue, rid) kvm" where
  "dequeue = (\<lambda>q.
     if dq_head q = dq_reuse q then (Inr INVALID_RID, q)
     else let r = dq_queue q (dq_head q);
              q1 = q\<lparr>dq_head := (dq_head q + 1) mod MAX_ELE_NUM, dq_size := dq_size q - 1\<rparr>
          in if in_int (dq_dequeue_cnt q + 1) then (Inr r, q1\<lparr>dq_dequeue_cnt := dq_dequeue_cnt q + 1\<rparr>)
             else (Inl (Undefined SignedOverflow), q1))"

definition count_between :: "nat \<Rightarrow> nat \<Rightarrow> nat" where
  "count_between b e = (if b \<le> e then e - b else MAX_ELE_NUM - b + e)"

definition set_reuse :: "delete_queue \<Rightarrow> delete_queue" where
  "set_reuse q = q\<lparr>dq_reuse := dq_tail q, dq_size := count_between (dq_head q) (dq_tail q)\<rparr>"

definition discard_pending :: "delete_queue \<Rightarrow> delete_queue" where
  "discard_pending q = q\<lparr>dq_tail := dq_reuse q, dq_size := count_between (dq_head q) (dq_reuse q)\<rparr>"

section \<open>What it promises\<close>

text \<open>
  The queue is two lists: the identifiers of committed deletions, which may be used again, and
  those of the running transaction. \<open>dq_rel q cs ps\<close> relates the ring to them.
\<close>

definition ring :: "(nat \<Rightarrow> rid) \<Rightarrow> nat \<Rightarrow> nat \<Rightarrow> rid list" where
  "ring f b n = map (\<lambda>i. f ((b + i) mod MAX_ELE_NUM)) [0..<n]"

definition dq_rel :: "delete_queue \<Rightarrow> rid list \<Rightarrow> rid list \<Rightarrow> bool" where
  "dq_rel q cs ps \<longleftrightarrow> dq_head q < MAX_ELE_NUM \<and> length cs + length ps < MAX_ELE_NUM
     \<and> dq_size q = length cs + length ps
     \<and> dq_reuse q = (dq_head q + length cs) mod MAX_ELE_NUM
     \<and> dq_tail q = (dq_head q + length (cs @ ps)) mod MAX_ELE_NUM
     \<and> ring (dq_queue q) (dq_head q) (length (cs @ ps)) = cs @ ps"

lemma MAX_pos: "0 < MAX_ELE_NUM"
  by (simp add: MAX_ELE_NUM_def)

lemma length_ring [simp]: "length (ring f b n) = n"
  by (simp add: ring_def)

lemma ring_Suc: "ring f b (Suc n) = ring f b n @ [f ((b + n) mod MAX_ELE_NUM)]"
  by (simp add: ring_def)

lemma ring_Cons: "b < MAX_ELE_NUM \<Longrightarrow> ring f b (Suc n) = f b # ring f ((b + 1) mod MAX_ELE_NUM) n"
  by (rule nth_equalityI) (auto simp: ring_def nth_Cons mod_simps simp del: upt_Suc split: nat.splits)

lemma ring_upd:
  assumes "b < MAX_ELE_NUM" "n < MAX_ELE_NUM"
  shows "ring (f((b + n) mod MAX_ELE_NUM := r)) b n = ring f b n"
proof -
  have "(b + i) mod MAX_ELE_NUM \<noteq> (b + n) mod MAX_ELE_NUM" if "i < n" for i
  proof
    assume eq: "(b + i) mod MAX_ELE_NUM = (b + n) mod MAX_ELE_NUM"
    then have "(int (b + n) - int (b + i)) mod int MAX_ELE_NUM = 0"
      by (metis mod_eq_0_iff_dvd mod_eq_dvd_iff of_nat_mod)
    then have "int (n - i) mod int MAX_ELE_NUM = 0"
      using that by (simp add: of_nat_diff)
    then have "(n - i) mod MAX_ELE_NUM = 0"
      by (metis of_nat_0_eq_iff of_nat_mod)
    with that assms show False by simp
  qed
  then show ?thesis by (auto simp: ring_def)
qed

lemma count_between_ring:
  assumes "b < MAX_ELE_NUM" "n < MAX_ELE_NUM"
  shows "count_between b ((b + n) mod MAX_ELE_NUM) = n"
proof (cases "b + n < MAX_ELE_NUM")
  case True
  then show ?thesis by (simp add: count_between_def)
next
  case False
  with assms have "(b + n) mod MAX_ELE_NUM = b + n - MAX_ELE_NUM"
    by (simp add: mod_if)
  with False assms show ?thesis by (simp add: count_between_def)
qed

lemma dq_rel_new: "dq_rel (dq_new junk) [] []"
  using MAX_pos by (simp add: dq_rel_def dq_new_def ring_def)

lemma enqueue_rel:
  assumes "dq_rel q cs ps" "Suc (length (cs @ ps)) < MAX_ELE_NUM"
  shows "\<exists>q'. enqueue r q = (Inr True, q') \<and> dq_rel q' cs (ps @ [r])"
proof -
  let ?n = "length (cs @ ps)"
  have h: "dq_head q < MAX_ELE_NUM" "?n < MAX_ELE_NUM"
    using assms by (simp_all add: dq_rel_def)
  have "ring ((dq_queue q)((dq_head q + ?n) mod MAX_ELE_NUM := r)) (dq_head q) (Suc ?n) = (cs @ ps) @ [r]"
    using assms(1) unfolding ring_Suc ring_upd [OF h] by (simp add: dq_rel_def)
  with assms show ?thesis
    by (simp add: dq_rel_def enqueue_def mod_simps)
qed

lemma dequeue_empty: "dq_rel q [] ps \<Longrightarrow> dequeue q = (Inr INVALID_RID, q)"
  by (simp add: dq_rel_def dequeue_def)

lemma dequeue_rel:
  assumes "dq_rel q (c # cs) ps" "in_int (dq_dequeue_cnt q + 1)"
  shows "\<exists>q'. dequeue q = (Inr c, q') \<and> dq_rel q' cs ps"
proof -
  have h: "dq_head q < MAX_ELE_NUM" "Suc (length cs + length ps) < MAX_ELE_NUM"
    using assms(1) by (simp_all add: dq_rel_def)
  have ne: "dq_head q \<noteq> (dq_head q + Suc (length cs)) mod MAX_ELE_NUM"
    using count_between_ring [OF h(1), of "Suc (length cs)"] h(2) by (auto simp: count_between_def)
  have "dq_queue q (dq_head q) # ring (dq_queue q) ((dq_head q + 1) mod MAX_ELE_NUM) (length (cs @ ps)) = c # cs @ ps"
    using assms(1) ring_Cons [OF h(1), of "dq_queue q" "length (cs @ ps)"] by (simp add: dq_rel_def)
  with ne h assms show ?thesis
    by (simp add: dq_rel_def dequeue_def Let_def mod_simps)
qed

lemma set_reuse_rel: "dq_rel q cs ps \<Longrightarrow> dq_rel (set_reuse q) (cs @ ps) []"
  using count_between_ring [of "dq_head q" "length (cs @ ps)"] by (simp add: dq_rel_def set_reuse_def)

lemma discard_rel:
  assumes "dq_rel q cs ps"
  shows "dq_rel (discard_pending q) cs []"
proof -
  have "ring (dq_queue q) (dq_head q) (length cs) = take (length cs) (ring (dq_queue q) (dq_head q) (length (cs @ ps)))"
    by (simp add: ring_def take_map)
  with assms count_between_ring [of "dq_head q" "length cs"] show ?thesis
    by (simp add: dq_rel_def discard_pending_def)
qed

section \<open>Properties\<close>

datatype dq_op = Enq rid | Deq | Commit | Abort

text \<open>A run of the queue, with what its dequeues return, and the same on two lists.\<close>

primrec dq_exec :: "dq_op list \<Rightarrow> (delete_queue, rid list) kvm" where
  "dq_exec [] = ret []"
| "dq_exec (x # xs) = (case x of
      Enq r \<Rightarrow> bindE (enqueue r) (\<lambda>_. dq_exec xs)
    | Deq \<Rightarrow> bindE dequeue (\<lambda>r. bindE (dq_exec xs) (\<lambda>rs. ret (r # rs)))
    | Commit \<Rightarrow> (\<lambda>q. dq_exec xs (set_reuse q))
    | Abort \<Rightarrow> (\<lambda>q. dq_exec xs (discard_pending q)))"

primrec dq_spec :: "dq_op list \<Rightarrow> rid list \<Rightarrow> rid list \<Rightarrow> rid list" where
  "dq_spec [] cs ps = []"
| "dq_spec (x # xs) cs ps = (case x of
      Enq r \<Rightarrow> dq_spec xs cs (ps @ [r])
    | Deq \<Rightarrow> (case cs of [] \<Rightarrow> INVALID_RID # dq_spec xs [] ps | c # cs' \<Rightarrow> c # dq_spec xs cs' ps)
    | Commit \<Rightarrow> dq_spec xs (cs @ ps) []
    | Abort \<Rightarrow> dq_spec xs cs [])"

lemma dequeue_cnt:
  "dequeue q = (r, q') \<Longrightarrow> dq_dequeue_cnt q' \<in> {dq_dequeue_cnt q, dq_dequeue_cnt q + 1}"
  by (auto simp: dequeue_def Let_def split: if_splits)

lemma dq_cnt_simps [simp]:
  "dq_dequeue_cnt (set_reuse q) = dq_dequeue_cnt q" "dq_dequeue_cnt (discard_pending q) = dq_dequeue_cnt q"
  "enqueue r q = (x, q') \<Longrightarrow> dq_dequeue_cnt q' = dq_dequeue_cnt q"
  by (auto simp: set_reuse_def discard_pending_def enqueue_def split: if_splits)

lemma dq_exec_spec:
  assumes "dq_rel q cs ps" "length (cs @ ps) + length xs < MAX_ELE_NUM"
    "0 \<le> dq_dequeue_cnt q" "dq_dequeue_cnt q + int (length xs) < 2 ^ 31"
  shows "\<exists>q'. dq_exec xs q = (Inr (dq_spec xs cs ps), q')"
  using assms
proof (induction xs arbitrary: q cs ps)
  case Nil
  then show ?case by simp
next
  case (Cons x xs)
  show ?case
  proof (cases x)
    case (Enq r)
    from enqueue_rel [OF Cons.prems(1), of r] Cons.prems(2) obtain q' where
      "enqueue r q = (Inr True, q')" "dq_rel q' cs (ps @ [r])"
      by auto
    with Cons.IH [of q' cs "ps @ [r]"] Cons.prems(2-4) Enq show ?thesis by simp
  next
    case Deq
    show ?thesis
    proof (cases cs)
      case Nil
      with Deq dequeue_empty [of q ps] Cons.IH [of q "[]" ps] Cons.prems show ?thesis
        by (auto simp: bindE_def)
    next
      case (Cons c cs')
      have "in_int (dq_dequeue_cnt q + 1)"
        using Cons.prems(3,4) by (simp add: in_int_def)
      with dequeue_rel [of q c cs' ps] Cons.prems(1) Cons obtain q' where
        q': "dequeue q = (Inr c, q')" "dq_rel q' cs' ps"
        by auto
      with dequeue_cnt [OF q'(1)] Cons.IH [OF q'(2)] Cons.prems(2-4) Deq Cons show ?thesis
        by (auto simp: bindE_def)
    qed
  next
    case Commit
    with Cons.IH [OF set_reuse_rel [OF Cons.prems(1)]] Cons.prems(2-4) show ?thesis by simp
  next
    case Abort
    with Cons.IH [OF discard_rel [OF Cons.prems(1)]] Cons.prems(2-4) show ?thesis by simp
  qed
qed



text \<open>
  A commit loses a full queue: the enqueue that fills the last slot succeeds and makes the two
  ends meet, and \<^verbatim>\<open>set_reuse\<close> then takes the full ring for an empty one.
\<close>

theorem full_delete_queue_lost:
  assumes "dq_rel q cs ps" "Suc (length (cs @ ps)) = MAX_ELE_NUM"
  shows "\<exists>q'. enqueue r q = (Inr True, q') \<and> dq_size q' = MAX_ELE_NUM \<and> dq_size (set_reuse q') = 0
    \<and> dequeue (set_reuse q') = (Inr INVALID_RID, set_reuse q')"
proof -
  have "(dq_head q + Suc (length (cs @ ps))) mod MAX_ELE_NUM = dq_head q"
    using assms by (simp add: dq_rel_def)
  then have "((dq_head q + length (cs @ ps)) mod MAX_ELE_NUM + 1) mod MAX_ELE_NUM = dq_head q"
    by (simp add: mod_simps)
  then show ?thesis
    using assms by (simp add: dq_rel_def enqueue_def set_reuse_def dequeue_def count_between_def)
qed

theorem full_delete_queue_lost_witness:
  "\<exists>q'. enqueue 9 \<lparr>dq_queue = (\<lambda>_. 5), dq_head = 0, dq_reuse = 0, dq_tail = MAX_ELE_NUM - 1, dq_size = MAX_ELE_NUM - 1,
      dq_dequeue_cnt = 0\<rparr> = (Inr True, q') \<and> dq_size q' = MAX_ELE_NUM \<and> dq_size (set_reuse q') = 0"
proof -
  let ?q = "\<lparr>dq_queue = (\<lambda>_. 5), dq_head = 0, dq_reuse = 0, dq_tail = MAX_ELE_NUM - 1, dq_size = MAX_ELE_NUM - 1,
      dq_dequeue_cnt = 0\<rparr>"
  have "dq_rel ?q [] (replicate (MAX_ELE_NUM - 1) 5)"
    using MAX_pos by (simp add: dq_rel_def ring_def map_replicate_const)
  from full_delete_queue_lost [OF this, of 9] MAX_pos show ?thesis by auto
qed

end
