(* ===== verification/Zeno_Extension.thy ===== *)
theory Zeno_Extension
  imports Zeno_Sql
begin

text \<open>
  The hooks and triggers that PostgreSQL calls (\<^verbatim>\<open>src/src/integrity_zone/extension.cpp\<close>). The release
  build compiles \<^verbatim>\<open>assert\<close> away, and \<^verbatim>\<open>USE_LAZY_DELETE\<close> is off.

  PostgreSQL itself is a parameter: the catalogue lookup \<open>typid\<close>, the tuple functions \<open>heap_am\<close>,
  whose documented behaviour is \<open>heap_correct\<close>, and the executor functions \<open>executor\<close>, which act
  on a state of PostgreSQL's own.
\<close>

section \<open>State\<close>

type_synonym oid = u32

record kv_oids =
  kv_int4_oid :: oid
  kv_float4_oid :: oid
  kv_text_oid :: oid
  kv_timestamp_oid :: oid

text \<open>A hook variable of PostgreSQL: \<^verbatim>\<open>NULL\<close>, the function of this extension, or another one's.\<close>

datatype hook = NoHook | KvdbHook | OtherHook nat

text \<open>
  The static variables of the file, the hook variables and the number of transaction callbacks
  that it sets, the worker behind the backend's region, and the state of PostgreSQL.
\<close>

record 'pg ext =
  ext_init :: bool
  ext_oids :: kv_oids
  prev_ExecutorStart :: hook
  prev_ExecutorEnd :: hook
  executor_depth :: i32
  clear_outer_executor :: bool
  xact_callback_registered :: bool
  ExecutorStart_hook :: hook
  ExecutorEnd_hook :: hook
  xact_callbacks :: nat
  ext_ws :: worker_state
  ext_pg :: 'pg

definition on_ext :: "('pg ext \<Rightarrow> 'pg ext) \<Rightarrow> ('pg ext, unit) kvm" where
  "on_ext f = (\<lambda>e. (Inr (), f e))"

definition on_ws :: "(worker_state, 'a) kvm \<Rightarrow> ('pg ext, 'a) kvm" where
  "on_ws = zoom ext_ws ext_ws_update"

section \<open>Partitions of relations\<close>

definition relation_partition_id :: "oid \<Rightarrow> ('s, rid) kvm" where
  "relation_partition_id relid =
     (let part = ucast relid AND (push_bit 16 1 - 1) in
      if part = RID_LOCAL_PARTITION then raise (Report PartitionConflict) else ret part)"

definition rid_in_partition :: "rid \<Rightarrow> rid \<Rightarrow> bool" where
  "rid_in_partition ident part \<longleftrightarrow> \<not> islocal ident \<and> rid_partition ident = part"

section \<open>Executor and transaction hooks\<close>

definition send_local_clear_req :: "libm \<Rightarrow> mbedtls \<Rightarrow> (worker_state, unit) kvm" where
  "send_local_clear_req m lib = call m lib (SingleArgRequest CMD_LOCAL_CLEAR)"

datatype cmd_type = CMD_UNKNOWN | CMD_SELECT | CMD_UPDATE | CMD_INSERT | CMD_DELETE | CMD_UTILITY | CMD_NOTHING

record query_desc =
  operation :: cmd_type

text \<open>\<open>run_start NoHook\<close> is \<^verbatim>\<open>standard_ExecutorStart\<close>, and so for \<open>run_end\<close>.\<close>

record 'pg executor =
  run_start :: "hook \<Rightarrow> query_desc option \<Rightarrow> i32 \<Rightarrow> ('pg, unit) kvm"
  run_end :: "hook \<Rightarrow> query_desc option \<Rightarrow> ('pg, unit) kvm"

definition kvdb_ExecutorStart :: "'pg executor \<Rightarrow> query_desc option \<Rightarrow> i32 \<Rightarrow> ('pg ext, unit) kvm" where
  "kvdb_ExecutorStart ex queryDesc eflags =
     bindE (on_ext (\<lambda>e. if executor_depth e = 0
       then e\<lparr>clear_outer_executor := (case queryDesc of None \<Rightarrow> False | Some q \<Rightarrow> operation q = CMD_SELECT)\<rparr> else e)) (\<lambda>_.
     bindE (\<lambda>e. (if sint (executor_depth e) = 2 ^ 31 - 1 then Inl (Undefined SignedOverflow) else Inr (), e)) (\<lambda>_.
     bindE (on_ext (\<lambda>e. e\<lparr>executor_depth := executor_depth e + 1\<rparr>)) (\<lambda>_.
     \<lambda>e. zoom ext_pg ext_pg_update (run_start ex (prev_ExecutorStart e) queryDesc eflags) e)))"

definition kvdb_ExecutorEnd :: "libm \<Rightarrow> mbedtls \<Rightarrow> 'pg executor \<Rightarrow> query_desc option \<Rightarrow> ('pg ext, unit) kvm" where
  "kvdb_ExecutorEnd m lib ex queryDesc =
     bindE (\<lambda>e. zoom ext_pg ext_pg_update (run_end ex (prev_ExecutorEnd e) queryDesc) e) (\<lambda>_.
     bindE (\<lambda>e. (if sint (executor_depth e) = - (2 ^ 31) then Inl (Undefined SignedOverflow) else Inr (), e)) (\<lambda>_.
     bindE (on_ext (\<lambda>e. e\<lparr>executor_depth := executor_depth e - 1\<rparr>)) (\<lambda>_.
     \<lambda>e. if executor_depth e = 0 \<and> clear_outer_executor e
       then bindE (on_ws (send_local_clear_req m lib)) (\<lambda>_. on_ext (\<lambda>e. e\<lparr>clear_outer_executor := False\<rparr>)) e
       else ret () e)))"

definition register_xact_callback_once :: "('pg ext, unit) kvm" where
  "register_xact_callback_once = on_ext (\<lambda>e. if xact_callback_registered e then e
     else e\<lparr>xact_callbacks := xact_callbacks e + 1, xact_callback_registered := True\<rparr>)"

definition PG_init :: "('pg ext, unit) kvm" where
  "PG_init =
     bindE register_xact_callback_once (\<lambda>_. on_ext (\<lambda>e.
       e\<lparr>prev_ExecutorStart := ExecutorStart_hook e, ExecutorStart_hook := KvdbHook,
         prev_ExecutorEnd := ExecutorEnd_hook e, ExecutorEnd_hook := KvdbHook\<rparr>))"

definition PG_fini :: "('pg ext, unit) kvm" where
  "PG_fini = on_ext (\<lambda>e.
     e\<lparr>ExecutorStart_hook := prev_ExecutorStart e, ExecutorEnd_hook := prev_ExecutorEnd e\<rparr>)"

datatype xact_event = XACT_EVENT_COMMIT | XACT_EVENT_PARALLEL_COMMIT | XACT_EVENT_ABORT | XACT_EVENT_PARALLEL_ABORT
  | XACT_EVENT_PREPARE | XACT_EVENT_PRE_COMMIT | XACT_EVENT_PARALLEL_PRE_COMMIT | XACT_EVENT_PRE_PREPARE

definition kv_xact_commit_hook :: "libm \<Rightarrow> mbedtls \<Rightarrow> xact_event \<Rightarrow> ('pg ext, unit) kvm" where
  "kv_xact_commit_hook m lib event =
     (if event = XACT_EVENT_ABORT
      then bindE (on_ext (\<lambda>e. e\<lparr>executor_depth := 0, clear_outer_executor := False\<rparr>)) (\<lambda>_.
        on_ws (send_local_clear_req m lib))
      else ret ())"

definition kv_xact_init :: "('pg ext, unit) kvm" where
  "kv_xact_init = register_xact_callback_once"

definition kv_replay_log :: "('pg ext, u64) kvm" where
  "kv_replay_log = ret 0"

section \<open>Types\<close>

definition find_type :: "(string \<Rightarrow> oid) \<Rightarrow> string \<Rightarrow> ((oid \<Rightarrow> oid) \<Rightarrow> kv_oids \<Rightarrow> kv_oids) \<Rightarrow> ('pg ext, unit) kvm" where
  "find_type typid name upd =
     bindE (on_ext (\<lambda>e. e\<lparr>ext_oids := upd (\<lambda>_. typid name) (ext_oids e)\<rparr>)) (\<lambda>_.
     if typid name = 0 then raise (Report TypeMissing) else ret ())"

definition init_oids :: "(string \<Rightarrow> oid) \<Rightarrow> ('pg ext, unit) kvm" where
  "init_oids typid = (\<lambda>e. if ext_init e then ret () e else
     bindE (find_type typid ''kv_int4'' kv_int4_oid_update) (\<lambda>_.
     bindE (find_type typid ''kv_float4'' kv_float4_oid_update) (\<lambda>_.
     bindE (find_type typid ''kv_text'' kv_text_oid_update) (\<lambda>_.
     bindE (find_type typid ''kv_timestamp'' kv_timestamp_oid_update) (\<lambda>_.
     on_ext (\<lambda>e. e\<lparr>ext_init := True\<rparr>))))) e)"

section \<open>The trigger\<close>

definition promote_type :: "kv_oids \<Rightarrow> oid \<Rightarrow> i32" where
  "promote_type ids ty =
     (if ty = kv_float4_oid ids then CMD_PROMOTE_FLOAT
      else if ty = kv_text_oid ids then CMD_PROMOTE_TEXT
      else if ty = kv_timestamp_oid ids then CMD_PROMOTE_TIMESTAMP
      else CMD_PROMOTE_INT)"

definition send_promote_req :: "libm \<Rightarrow> mbedtls \<Rightarrow> kv_oids \<Rightarrow> oid \<Rightarrow> rid \<Rightarrow> rid \<Rightarrow> (worker_state, rid) kvm" where
  "send_promote_req m lib ids ty loc part = call m lib (PromoteRequest (promote_type ids ty) loc INVALID_RID part)"

record attr =
  atttypid :: oid
  attisdropped :: bool

text \<open>What \<^verbatim>\<open>repl_values\<close>, \<^verbatim>\<open>repl_isnull\<close> and \<^verbatim>\<open>repl_cols\<close> hold for a column; a value may be unassigned.\<close>

record slot =
  repl_value :: "u64 option"
  repl_isnull :: bool
  repl_col :: bool

text \<open>Attribute numbers start at 1; \<open>None\<close> is the null value.\<close>

record 't heap_am =
  heap_getattr :: "'t \<Rightarrow> nat \<Rightarrow> attr list \<Rightarrow> u64 option"
  heap_modify_tuple :: "'t \<Rightarrow> attr list \<Rightarrow> slot list \<Rightarrow> 't"

definition is_kv_type :: "kv_oids \<Rightarrow> oid \<Rightarrow> bool" where
  "is_kv_type ids ty \<longleftrightarrow> ty = kv_int4_oid ids \<or> ty = kv_float4_oid ids \<or> ty = kv_text_oid ids \<or> ty = kv_timestamp_oid ids"

text \<open>One round of the loop over the columns: the column \<open>a\<close>, whose value in the tuple is \<open>d\<close>.\<close>

definition promote_column :: "libm \<Rightarrow> mbedtls \<Rightarrow> kv_oids \<Rightarrow> rid \<Rightarrow> (attr \<Rightarrow> bool) \<Rightarrow> attr \<Rightarrow> u64 option \<Rightarrow> (worker_state, slot) kvm" where
  "promote_column m lib ids part skip a d =
     (let keep = \<lparr>repl_value = None, repl_isnull = False, repl_col = False\<rparr> in
      if skip a \<or> \<not> is_kv_type ids (atttypid a) then ret keep
      else case d of
        None \<Rightarrow> ret (keep\<lparr>repl_isnull := True\<rparr>)
      | Some loc \<Rightarrow>
          if rid_in_partition loc part then ret keep
          else bindE (send_promote_req m lib ids (atttypid a) loc part) (\<lambda>global.
            ret (keep\<lparr>repl_value := Some global, repl_col := True\<rparr>)))"

primrec promote_loop :: "libm \<Rightarrow> mbedtls \<Rightarrow> kv_oids \<Rightarrow> rid \<Rightarrow> (attr \<Rightarrow> bool) \<Rightarrow> (nat \<Rightarrow> u64 option) \<Rightarrow>
    nat \<Rightarrow> attr list \<Rightarrow> (worker_state, slot list) kvm" where
  "promote_loop m lib ids part skip getattr i [] = ret []"
| "promote_loop m lib ids part skip getattr i (a # as) =
     bindE (promote_column m lib ids part skip a (getattr (i + 1))) (\<lambda>sl.
     bindE (promote_loop m lib ids part skip getattr (i + 1) as) (\<lambda>sls. ret (sl # sls)))"

datatype trigger_op = TRIGGER_INSERT | TRIGGER_DELETE | TRIGGER_UPDATE | TRIGGER_TRUNCATE

record 't trigger_data =
  tg_event :: trigger_op
  tg_relid :: oid
  tg_attrs :: "attr list"
  tg_trigtuple :: 't
  tg_newtuple :: "'t option"

text \<open>The argument is \<open>None\<close> when the function is not called by the trigger manager.\<close>

definition generic_delete_trigger :: "libm \<Rightarrow> mbedtls \<Rightarrow> (string \<Rightarrow> oid) \<Rightarrow> 't heap_am \<Rightarrow>
    't trigger_data option \<Rightarrow> ('pg ext, 't option) kvm" where
  "generic_delete_trigger m lib typid am context =
     (case context of
        None \<Rightarrow> raise (Report NotTrigger)
      | Some trigdata \<Rightarrow>
          bindE (init_oids typid) (\<lambda>_.
          bindE (relation_partition_id (tg_relid trigdata)) (\<lambda>part.
          let desc = tg_attrs trigdata in
          case tg_event trigdata of
            TRIGGER_DELETE \<Rightarrow> ret None
          | TRIGGER_INSERT \<Rightarrow>
              (let newtup = tg_trigtuple trigdata in
               bindE (\<lambda>e. on_ws (promote_loop m lib (ext_oids e) part (\<lambda>_. False)
                 (\<lambda>n. heap_getattr am newtup n desc) 0 desc) e) (\<lambda>slots.
               ret (Some (heap_modify_tuple am newtup desc slots))))
          | TRIGGER_UPDATE \<Rightarrow>
              (let newtup = tg_newtuple trigdata in
               bindE (\<lambda>e. on_ws (promote_loop m lib (ext_oids e) part attisdropped
                 (\<lambda>n. case newtup of Some tup \<Rightarrow> heap_getattr am tup n desc | None \<Rightarrow> Some 0) 0 desc) e) (\<lambda>slots.
               if \<exists>sl \<in> set slots. repl_col sl then
                 (case newtup of
                    None \<Rightarrow> raise (Undefined NullPointer)
                  | Some tup \<Rightarrow> ret (Some (heap_modify_tuple am tup desc slots)))
               else ret newtup))
          | TRIGGER_TRUNCATE \<Rightarrow> raise (Report UnsupportedEvent))))"

end
