(* ===== verification/Zeno_Promote.thy ===== *)
theory Zeno_Promote
  imports Zeno_Handler
begin

text \<open>
  Promotion of temporaries to persistent fields (\<^verbatim>\<open>case CMD_PROMOTE_*\<close> of
  \<^verbatim>\<open>tee/handler.cpp\<close>), for the four field types at once: the locale \<open>promotable\<close> states what a type
  contributes, its interpretations discharge it, and \<open>promote_typed\<close> says that a promotion moves the
  value into the partition under a new identifier, keeps every other field and uses one unit of the
  partition's space.
\<close>

section \<open>Promotion of a field\<close>

context field_kind
begin

text \<open>What a new persistent field does to the mapping itself.\<close>

lemma put_new_abs:
  assumes ok: "kv_ok s" and us: "kv_usable s p" and room: "groom v p s"
    and run: "put INVALID_RID v False p s = (r, s')"
  shows "\<exists>i st'. sput v (asel (fm_abs (kv_fm s)) p) = (Inr i, st')
    \<and> fm_abs (kv_fm s') = aupd (\<lambda>f. f(p := st')) (fm_abs (kv_fm s))"
proof -
  let ?a = "fm_abs (kv_fm s)"
  have "sinvar (asel ?a p)"
    using ok by (simp add: kv_ok_def mapping_ok_sel)
  from ap.put_spec [OF this, of v] room obtain i st' where
    put: "sput v (asel ?a p) = (Inr i, st')" and i: "i \<le> RID_MASK"
    by (auto simp: groom_eq)
  from sk.part_put_abs [where put = "sput v" and s = "kv_fm s" and p = p, OF _ _ put i] ok us obtain fm' where
    "part_put sel upd (sput v) p (kv_fm s) = (Inr (make_partitioned_rid p i), fm')"
      "fm_abs fm' = aupd (\<lambda>f. f(p := st')) ?a"
    by (auto simp: kv_ok_def kv_usable_def)
  with put run show ?thesis
    by (auto simp: put_eq zoom_def)
qed

lemma promote_any:
  assumes "kv_ok s" "fsel (kv_view s) loc = Some v" "stored v = v" "kv_usable s part" "groom v part s"
  shows "\<exists>key s' i st'. promote_field put get free loc INVALID_RID part s = (Inr key, s')
    \<and> \<not> islocal key \<and> rid_partition key = part \<and> fsel (kv_view s) key = None
    \<and> kv_view s' = fupd (\<lambda>m. (if islocal loc then m(loc := None) else m)(key \<mapsto> v)) (kv_view s)
    \<and> kv_ok s' \<and> kv_usable s' = kv_usable s \<and> sput v (asel (fm_abs (kv_fm s)) part) = (Inr i, st')
    \<and> fm_abs (kv_fm s') = aupd (\<lambda>f. f(part := st')) (fm_abs (kv_fm s))"
proof -
  from get_spec [OF assms(1,2)] obtain s1 where s1: "get loc s = (Inr v, s1)" "kv_eqv s s1" "kv_ok s1"
    by blast
  have ready: "kv_usable s1 part" "groom v part s1"
    using assms(4,5) kv_eqv_usable [OF s1(2)] groom_eqv [OF s1(2)] by simp_all
  from put_global_spec [OF s1(3) this] obtain key s2 where
    s2: "put INVALID_RID v False part s1 = (Inr key, s2)" "\<not> islocal key" "rid_partition key = part"
      "fsel (kv_view s1) key = None" "kv_view s2 = fupd (\<lambda>m. m(key \<mapsto> v)) (kv_view s1)" "kv_ok s2"
      "kv_usable s2 = kv_usable s1"
    using assms(3) by force
  from put_new_abs [OF s1(3) ready s2(1)] obtain i st' where
    ab: "sput v (asel (fm_abs (kv_fm s1)) part) = (Inr i, st')"
      "fm_abs (kv_fm s2) = aupd (\<lambda>f. f(part := st')) (fm_abs (kv_fm s1))"
    by blast
  from free_spec [OF s2(6), of loc] obtain s3 where
    s3: "free loc s2 = (Inr (), s3)" "kv_ok s3" "kv_fm s3 = kv_fm s2"
      "kv_view s3 = (if islocal loc then fupd (\<lambda>m. m(loc := None)) (kv_view s2) else kv_view s2)"
    by blast
  have eq: "fm_abs (kv_fm s1) = fm_abs (kv_fm s)" "kv_view s1 = kv_view s"
    using s1(2) by (simp_all add: kv_eqv_def kv_eqv_view [OF s1(2)])
  have "kv_view s3 = fupd (\<lambda>m. (if islocal loc then m(loc := None) else m)(key \<mapsto> v)) (kv_view s)"
  proof (cases "islocal loc")
    case True
    with s2(2) have "loc \<noteq> key" by auto
    with True s3(4) s2(5) eq show ?thesis by (simp add: upd_upd fun_upd_twist [of loc key])
  next
    case False
    with s3(4) s2(5) eq show ?thesis by simp
  qed
  moreover have "promote_field put get free loc INVALID_RID part s = (Inr key, s3)"
    using s1(1) s2(1) s3(1) by (simp add: promote_field_def)
  moreover have "kv_usable s3 = kv_usable s"
    using s2(7) kv_eqv_usable [OF s1(2)] s3(3) by (simp add: kv_usable_def fun_eq_iff)
  ultimately show ?thesis
    using s2 s3(2,3) ab eq by (intro exI [of _ key] exI [of _ s3] exI [of _ i] exI [of _ st']) simp
qed

end

section \<open>Typed fields\<close>

text \<open>
  The promotion command names the type of a field. \<open>field_is f t r v\<close>: the field \<open>r\<close> of that
  type has the value \<open>v\<close>; a text is one that \<^verbatim>\<open>kv_text\<close> admits.
\<close>

fun field_is :: "fields \<Rightarrow> i32 \<Rightarrow> rid \<Rightarrow> wal_value \<Rightarrow> bool" where
  "field_is f t r (WInt x) \<longleftrightarrow> t = CMD_PROMOTE_INT \<and> int_of f r = Some x"
| "field_is f t r (WFloat x) \<longleftrightarrow> t = CMD_PROMOTE_FLOAT \<and> float_of f r = Some x"
| "field_is f t r (WText x) \<longleftrightarrow> t = CMD_PROMOTE_TEXT \<and> text_of f r = Some x \<and> is_text x \<and> length x < STRING_LENGTH"
| "field_is f t r (WTime x) \<longleftrightarrow> t = CMD_PROMOTE_TIMESTAMP \<and> time_of f r = Some x"

text \<open>Space for \<open>n\<close> more fields of every type in a partition.\<close>

definition part_space :: "nat \<Rightarrow> rid \<Rightarrow> kv_state \<Rightarrow> bool" where
  "part_space n p k \<longleftrightarrow> (let a = fm_abs (kv_fm k) in
     unat (fs_cur_rid (ab_int a p)) + n \<le> MAX_ARRAY_ELE_NUM 4 \<and> unat (fs_cur_rid (ab_float a p)) + n \<le> MAX_ARRAY_ELE_NUM 4
     \<and> unat (fs_cur_rid (ab_time a p)) + n \<le> MAX_ARRAY_ELE_NUM 8 \<and> unat (ts_cur_rid (ab_text a p)) + n \<le> TEXT_MAX_ELE_NUM
     \<and> unat (ts_cur_offset (ab_text a p)) + STRING_LENGTH * n \<le> STORE_SIZE)"

lemma fs_put_counter:
  assumes "fs_put sz v s = (Inr i, s')" "0 < sz"
  shows "unat (fs_cur_rid s') = unat (fs_cur_rid s) + 1"
proof -
  have "unat (fs_cur_rid s) < 2 ^ 40"
    using assms MAX_ARRAY_ELE_NUM_le [of sz] by (auto simp: fs_put_def Let_def split: if_splits)
  with assms show ?thesis
    by (auto simp: fs_put_def Let_def unat_succ split: if_splits)
qed

lemma ts_put_counters:
  assumes "ts_room v s" "ts_put v s = (Inr i, s')"
  shows "unat (ts_cur_rid s') = unat (ts_cur_rid s) + 1"
    "unat (ts_cur_offset s') = unat (ts_cur_offset s) + length (cstr v) + 1"
proof -
  let ?s1 = "s\<lparr>ts_cur_rid := ts_cur_rid s + 1\<rparr>"
  have lt: "unat (ts_cur_rid s) < TEXT_MAX_ELE_NUM" "ts_fits v ?s1"
    using assms(1) by (simp_all add: ts_room_def ts_fits_def)
  note w = ts_write_ok [OF lt(2), of "ts_cur_rid s"]
  show "unat (ts_cur_rid s') = unat (ts_cur_rid s) + 1"
    using assms(2) lt(1) w TEXT_MAX_lt unat_succ [of "ts_cur_rid s"] by (auto simp: ts_put_def Let_def)
  show "unat (ts_cur_offset s') = unat (ts_cur_offset s) + length (cstr v) + 1"
    using assms(2) lt w unat_offset_add [of "ts_cur_offset s" "length (cstr v) + 1"] by (auto simp: ts_put_def Let_def ts_fits_def)
qed

lemma space_scalar: "part_space (Suc n) p k \<Longrightarrow> groomInt x p k \<and> groomFloat y p k \<and> groomTimestamp z p k"
  by (auto simp: part_space_def groomInt_def groomFloat_def groomTimestamp_def fs_room_def Let_def)

lemma space_text: "part_space (Suc n) p k \<Longrightarrow> is_text t \<Longrightarrow> length t < STRING_LENGTH \<Longrightarrow> groomText t p k"
  by (auto simp: part_space_def groomText_def ts_room_def ts_fits_def Let_def STRING_LENGTH_def)

text \<open>
  A typed field moves into a partition under a new identifier; every other field keeps its value
  (a temporary of another type may have the same identifier), and so does the field itself unless
  it was a temporary.
\<close>

definition moved :: "i32 \<Rightarrow> rid \<Rightarrow> rid \<Rightarrow> wal_value \<Rightarrow> kv_state \<Rightarrow> kv_state \<Rightarrow> bool" where
  "moved t r key v k k' \<longleftrightarrow> \<not> islocal key \<and> field_is (kv_view k') t key v
     \<and> (\<forall>t' r' v'. field_is (kv_view k) t' r' v' \<longrightarrow> \<not> (islocal r' \<and> r' = r \<and> t' = t) \<longrightarrow> field_is (kv_view k') t' r' v')"

text \<open>What makes a field type promotable: its values among the typed ones, and its share of the space.\<close>

locale promotable = field_kind +
  fixes con and cmd and admitted
  assumes is_con: "field_is f t r (con x) \<longleftrightarrow> t = cmd \<and> fsel f r = Some x \<and> admitted x"
    and is_other: "(\<forall>x. v \<noteq> con x) \<Longrightarrow> field_is (fupd h f) t r v = field_is f t r v"
    and admitted_stored: "admitted x \<Longrightarrow> stored x = x"
    and cmd_fun: "promote_fun cmd = Some (promote_field put get free)"
    and space: "part_space (Suc n) p k \<Longrightarrow> admitted x \<Longrightarrow> groom x p k"
    and space_step: "part_space (Suc n) p k \<Longrightarrow> admitted x \<Longrightarrow> groom x p k \<Longrightarrow>
      sput x (asel (fm_abs (kv_fm k)) p) = (Inr i, su) \<Longrightarrow>
      fm_abs (kv_fm k') = aupd (\<lambda>g. g(p := su)) (fm_abs (kv_fm k)) \<Longrightarrow> part_space n p k'"
begin

lemma promote_con:
  assumes "kv_ok k" "field_is (kv_view k) t r (con x)" "kv_usable k p" "part_space (Suc n) p k" "promote_fun t = Some f"
  shows "\<exists>key k'. f r INVALID_RID p k = (Inr key, k') \<and> rid_partition key = p \<and> moved t r key (con x) k k'
    \<and> kv_ok k' \<and> kv_usable k' = kv_usable k \<and> part_space n p k'"
proof -
  from assms(2,5) have t: "t = cmd" "fsel (kv_view k) r = Some x" "admitted x" "f = promote_field put get free"
    by (auto simp: is_con cmd_fun)
  note room = space [OF assms(4) t(3)]
  from promote_any [OF assms(1) t(2) admitted_stored [OF t(3)] assms(3) room] obtain key k' i su where
    k': "f r INVALID_RID p k = (Inr key, k')" "\<not> islocal key" "rid_partition key = p" "fsel (kv_view k) key = None"
      "kv_view k' = fupd (\<lambda>m. (if islocal r then m(r := None) else m)(key \<mapsto> x)) (kv_view k)" "kv_ok k'"
      "kv_usable k' = kv_usable k" "sput x (asel (fm_abs (kv_fm k)) p) = (Inr i, su)"
      "fm_abs (kv_fm k') = aupd (\<lambda>g. g(p := su)) (fm_abs (kv_fm k))"
    unfolding t(4) by blast
  have "field_is (kv_view k') t' r' v'" if "field_is (kv_view k) t' r' v'" "\<not> (islocal r' \<and> r' = r \<and> t' = t)" for t' r' v'
  proof (cases "\<exists>y. v' = con y")
    case True
    with that k'(4) t(1) show ?thesis by (auto simp: is_con k'(5) sel_upd)
  next
    case False
    with that show ?thesis by (simp add: is_other k'(5))
  qed
  then have "moved t r key (con x) k k'"
    using k'(2) t by (auto simp: moved_def is_con k'(5) sel_upd)
  with k' space_step [OF assms(4) t(3) room k'(8,9)] show ?thesis by blast
qed

end

lemma fs_put_space:
  "fs_put 4 x (ab_int (fm_abs (kv_fm k)) p) = (Inr i, su) \<Longrightarrow> part_space (Suc n) p k \<Longrightarrow>
    fm_abs (kv_fm k') = ab_int_update (\<lambda>g. g(p := su)) (fm_abs (kv_fm k)) \<Longrightarrow> part_space n p k'"
  "fs_put 4 y (ab_float (fm_abs (kv_fm k)) p) = (Inr i, fl) \<Longrightarrow> part_space (Suc n) p k \<Longrightarrow>
    fm_abs (kv_fm k') = ab_float_update (\<lambda>g. g(p := fl)) (fm_abs (kv_fm k)) \<Longrightarrow> part_space n p k'"
  "fs_put 8 z (ab_time (fm_abs (kv_fm k)) p) = (Inr i, tm) \<Longrightarrow> part_space (Suc n) p k \<Longrightarrow>
    fm_abs (kv_fm k') = ab_time_update (\<lambda>g. g(p := tm)) (fm_abs (kv_fm k)) \<Longrightarrow> part_space n p k'"
  by (drule fs_put_counter; simp add: part_space_def Let_def)+

lemma ts_put_space:
  assumes "ts_put x (ab_text (fm_abs (kv_fm k)) p) = (Inr i, su)" "part_space (Suc n) p k" "groomText x p k"
    "is_text x" "length x < STRING_LENGTH"
    "fm_abs (kv_fm k') = ab_text_update (\<lambda>g. g(p := su)) (fm_abs (kv_fm k))"
  shows "part_space n p k'"
  using ts_put_counters [OF assms(3) [unfolded groomText_def] assms(1)] assms(2,4,5,6)
  by (simp add: part_space_def Let_def)

lemmas promotable_simps = promote_fun_def cmd_defs space_scalar space_text

lemmas promotable_space = fs_put_space ts_put_space

interpretation int_promote: promotable fm_int fm_int_update "fs_fresh 0" ab_int ab_int_update
    "fs_put 4" "fs_get 4" "fs_replace 4" fs_val "\<lambda>v. v" "fs_invar 4" "fs_room 4" "\<lambda>_ _. True"
    lk_int lk_int_update 0 putInt getInt freeLocalInt int_of int_of_update roomInt groomInt gfitsInt
    WInt CMD_PROMOTE_INT "\<lambda>_. True"
  by unfold_locales (auto simp: promotable_simps intro: promotable_space elim!: field_is.elims)

interpretation float_promote: promotable fm_float fm_float_update "fs_fresh 0" ab_float ab_float_update
    "fs_put 4" "fs_get 4" "fs_replace 4" fs_val "\<lambda>v. v" "fs_invar 4" "fs_room 4" "\<lambda>_ _. True"
    lk_float lk_float_update 0 putFloat getFloat freeLocalFloat float_of float_of_update roomFloat groomFloat gfitsFloat
    WFloat CMD_PROMOTE_FLOAT "\<lambda>_. True"
  by unfold_locales (auto simp: promotable_simps intro: promotable_space elim!: field_is.elims)

interpretation time_promote: promotable fm_time fm_time_update "fs_fresh 0" ab_time ab_time_update
    "fs_put 8" "fs_get 8" "fs_replace 8" fs_val "\<lambda>v. v" "fs_invar 8" "fs_room 8" "\<lambda>_ _. True"
    lk_time lk_time_update 0 putTimestamp getTimestamp freeLocalTimestamp time_of time_of_update roomTimestamp groomTimestamp gfitsTimestamp
    WTime CMD_PROMOTE_TIMESTAMP "\<lambda>_. True"
  by unfold_locales (auto simp: promotable_simps intro: promotable_space elim!: field_is.elims)

interpretation text_promote: promotable fm_text fm_text_update ts_fresh ab_text ab_text_update
    ts_put ts_get ts_replace ts_val cstr ts_invar ts_room ts_fits
    lk_text lk_text_update "[]" putText getText freeLocalText text_of text_of_update roomText groomText gfitsText
    WText CMD_PROMOTE_TEXT "\<lambda>x. is_text x \<and> length x < STRING_LENGTH"
  by unfold_locales (auto simp: promotable_simps intro: promotable_space elim!: field_is.elims)

lemma promote_typed:
  assumes "kv_ok k" "field_is (kv_view k) t r v" "kv_usable k p" "part_space (Suc n) p k" "promote_fun t = Some f"
  shows "\<exists>key k'. f r INVALID_RID p k = (Inr key, k') \<and> rid_partition key = p \<and> moved t r key v k k'
    \<and> kv_ok k' \<and> kv_usable k' = kv_usable k \<and> part_space n p k'"
  using assms int_promote.promote_con [of k t r _ p n f] float_promote.promote_con [of k t r _ p n f]
    time_promote.promote_con [of k t r _ p n f] text_promote.promote_con [of k t r _ p n f]
  by (cases v) auto

end
