(* ===== verification/Zeno_Trigger.thy ===== *)
theory Zeno_Trigger
  imports Zeno_Extension Zeno_Promote Zeno_Sql_Props
begin

text \<open>
  What the row trigger of the extension does: it moves the temporaries of a row into the partition
  of its relation.
\<close>

section \<open>What the trigger does to a row\<close>

definition heap_correct :: "'t heap_am \<Rightarrow> attr list \<Rightarrow> bool" where
  "heap_correct am desc \<longleftrightarrow> (\<forall>tup slots i. length slots = length desc \<longrightarrow> i < length desc \<longrightarrow>
     heap_getattr am (heap_modify_tuple am tup desc slots) (i + 1) desc =
       (if repl_col (slots ! i) then if repl_isnull (slots ! i) then None else repl_value (slots ! i)
        else heap_getattr am tup (i + 1) desc))"

text \<open>The identifier that the loop promotes for a column.\<close>

definition to_promote :: "kv_oids \<Rightarrow> rid \<Rightarrow> (attr \<Rightarrow> bool) \<Rightarrow> attr \<Rightarrow> u64 option \<Rightarrow> rid option" where
  "to_promote ids part skip a d = (case d of
     Some r \<Rightarrow> if \<not> skip a \<and> is_kv_type ids (atttypid a) \<and> \<not> rid_in_partition r part then Some r else None
   | None \<Rightarrow> None)"

definition slot_for :: "kv_oids \<Rightarrow> rid \<Rightarrow> fields \<Rightarrow> attr \<Rightarrow> rid option \<Rightarrow> wal_value \<Rightarrow> slot \<Rightarrow> bool" where
  "slot_for ids part f a p v sl \<longleftrightarrow> (case p of
     None \<Rightarrow> \<not> repl_col sl
   | Some r \<Rightarrow> repl_col sl \<and> \<not> repl_isnull sl \<and> (\<exists>key. repl_value sl = Some key \<and> rid_in_partition key part
       \<and> field_is f (promote_type ids (atttypid a)) key v))"

lemma promote_type_fun: "\<exists>f. promote_fun (promote_type ids ty) = Some f" "0 < sint (promote_type ids ty)"
  by (auto simp: promote_fun_def promote_type_def cmd_defs)

text \<open>Every field but the temporaries in \<open>T\<close>, pairs of a type and an identifier.\<close>

definition kept :: "(i32 \<times> rid) set \<Rightarrow> fields \<Rightarrow> fields \<Rightarrow> bool" where
  "kept T f f' \<longleftrightarrow> (\<forall>t r v. field_is f t r v \<longrightarrow> \<not> (islocal r \<and> (t, r) \<in> T) \<longrightarrow> field_is f' t r v)"

lemma send_promote_req_ok:
  assumes "kv_ok (ws_kv s)" "field_is (kv_view (ws_kv s)) (promote_type ids ty) r v" "kv_usable (ws_kv s) p"
    "part_space (Suc n) p (ws_kv s)"
  shows "\<exists>key s'. send_promote_req m lib ids ty r p s = (Inr key, s') \<and> rid_in_partition key p
    \<and> field_is (kv_view (ws_kv s')) (promote_type ids ty) key v
    \<and> kept {(promote_type ids ty, r)} (kv_view (ws_kv s)) (kv_view (ws_kv s'))
    \<and> kv_ok (ws_kv s') \<and> kv_usable (ws_kv s') p \<and> part_space n p (ws_kv s')"
proof -
  obtain f where f: "promote_fun (promote_type ids ty) = Some f" "0 < sint (promote_type ids ty)"
    using promote_type_fun by blast
  from promote_typed [OF assms f(1)] obtain key k' where
    k': "f r INVALID_RID p (ws_kv s) = (Inr key, k')" "rid_partition key = p"
      "moved (promote_type ids ty) r key v (ws_kv s) k'" "kv_ok k'" "kv_usable k' = kv_usable (ws_kv s)" "part_space n p k'"
    by blast
  from send_promote [OF f k'(1)] obtain s' where
    "answers m lib (PromoteRequest (promote_type ids ty) r INVALID_RID p) s key s'" "ws_kv s' = k'"
    by blast
  with k' assms(3) show ?thesis
    by (intro exI [of _ key] exI [of _ s'])
      (auto simp: send_promote_req_def answers_call moved_def kept_def rid_in_partition_def)
qed

lemma promote_column_ok:
  assumes "kv_ok (ws_kv s)" "kv_usable (ws_kv s) p" "part_space (Suc n) p (ws_kv s)"
    "\<And>r. to_promote ids p skip a d = Some r \<Longrightarrow> field_is (kv_view (ws_kv s)) (promote_type ids (atttypid a)) r v"
  shows "\<exists>sl s'. promote_column m lib ids p skip a d s = (Inr sl, s')
    \<and> slot_for ids p (kv_view (ws_kv s')) a (to_promote ids p skip a d) v sl
    \<and> kept {(promote_type ids (atttypid a), r) |r. to_promote ids p skip a d = Some r} (kv_view (ws_kv s)) (kv_view (ws_kv s'))
    \<and> kv_ok (ws_kv s') \<and> kv_usable (ws_kv s') p \<and> part_space n p (ws_kv s')"
proof (cases "to_promote ids p skip a d")
  case None
  then have "promote_column m lib ids p skip a d s \<in> {(Inr sl, s) |sl. \<not> repl_col sl}"
    by (auto simp: promote_column_def to_promote_def Let_def ret_def split: option.splits if_splits)
  moreover have "part_space n p (ws_kv s)"
    using assms(3) by (auto simp: part_space_def Let_def)
  ultimately show ?thesis
    using assms(1,2) None by (auto simp: slot_for_def kept_def)
next
  case (Some r)
  then have d: "d = Some r" "\<not> skip a" "is_kv_type ids (atttypid a)" "\<not> rid_in_partition r p"
    by (auto simp: to_promote_def split: option.splits if_splits)
  from send_promote_req_ok [OF assms(1) assms(4) [OF Some] assms(2,3), of m lib] obtain key s' where
    "send_promote_req m lib ids (atttypid a) r p s = (Inr key, s')" "rid_in_partition key p"
    "field_is (kv_view (ws_kv s')) (promote_type ids (atttypid a)) key v"
    "kept {(promote_type ids (atttypid a), r)} (kv_view (ws_kv s)) (kv_view (ws_kv s'))"
    "kv_ok (ws_kv s')" "kv_usable (ws_kv s') p" "part_space n p (ws_kv s')"
    by blast
  then show ?thesis
    unfolding Some by (auto simp: promote_column_def d bindE_def slot_for_def ret_def Let_def)
qed

lemma kept_trans: "kept S f g \<Longrightarrow> kept T g h \<Longrightarrow> kept (S \<union> T) f h"
  by (auto simp: kept_def)

lemma slot_for_kept: "slot_for ids p f a q v sl \<Longrightarrow> kept T f f' \<Longrightarrow> slot_for ids p f' a q v sl"
  by (auto simp: slot_for_def kept_def rid_in_partition_def split: option.splits)

text \<open>
  The columns \<open>as\<close> from number \<open>i\<close> on: the promoted identifiers with their types, and that no
  temporary is promoted for two columns.
\<close>

definition promoted :: "kv_oids \<Rightarrow> rid \<Rightarrow> (attr \<Rightarrow> bool) \<Rightarrow> (nat \<Rightarrow> u64 option) \<Rightarrow> nat \<Rightarrow> attr list \<Rightarrow> (i32 \<times> rid) list" where
  "promoted ids p skip g i as = concat (map (\<lambda>j. case to_promote ids p skip (as ! j) (g (i + j + 1)) of
     None \<Rightarrow> [] | Some r \<Rightarrow> [(promote_type ids (atttypid (as ! j)), r)]) [0..<length as])"

lemma promoted_Cons: "promoted ids p skip g i (a # as) =
    (case to_promote ids p skip a (g (i + 1)) of None \<Rightarrow> [] | Some r \<Rightarrow> [(promote_type ids (atttypid a), r)])
      @ promoted ids p skip g (i + 1) as"
proof -
  have "[0..<length (a # as)] = 0 # map Suc [0..<length as]"
    by (simp add: map_Suc_upt upt_conv_Cons del: upt_Suc)
  then show ?thesis by (simp add: promoted_def comp_def del: upt_Suc cong: option.case_cong)
qed

lemma promoted_set: "(t, r) \<in> set (promoted ids p skip g i as) \<longleftrightarrow>
    (\<exists>j < length as. to_promote ids p skip (as ! j) (g (i + j + 1)) = Some r \<and> t = promote_type ids (atttypid (as ! j)))"
  by (force simp: promoted_def split: option.splits)

abbreviation temporaries :: "(i32 \<times> rid) list \<Rightarrow> (i32 \<times> rid) list" where
  "temporaries \<equiv> filter (\<lambda>(t, r). islocal r)"

lemma promote_loop_ok:
  assumes "kv_ok (ws_kv s)" "kv_usable (ws_kv s) p" "part_space (length as) p (ws_kv s)"
    "\<forall>j < length as. \<forall>r. to_promote ids p skip (as ! j) (g (i + j + 1)) = Some r \<longrightarrow>
       field_is (kv_view (ws_kv s)) (promote_type ids (atttypid (as ! j))) r (v (i + j))"
    "distinct (temporaries (promoted ids p skip g i as))"
  shows "\<exists>slots s'. promote_loop m lib ids p skip g i as s = (Inr slots, s') \<and> length slots = length as
    \<and> (\<forall>j < length as. slot_for ids p (kv_view (ws_kv s')) (as ! j)
        (to_promote ids p skip (as ! j) (g (i + j + 1))) (v (i + j)) (slots ! j))
    \<and> kept (set (promoted ids p skip g i as)) (kv_view (ws_kv s)) (kv_view (ws_kv s'))
    \<and> kv_ok (ws_kv s')"
  using assms
proof (induction as arbitrary: i s)
  case Nil
  then show ?case by (simp add: kept_def ret_def)
next
  case (Cons a as)
  let ?q = "to_promote ids p skip a (g (i + 1))"
  have vals: "field_is (kv_view (ws_kv s)) (promote_type ids (atttypid a)) r (v i)" if "?q = Some r" for r
    using Cons.prems(4) [THEN spec, of 0] that by simp
  have "part_space (Suc (length as)) p (ws_kv s)"
    using Cons.prems(3) by simp
  from promote_column_ok [where m = m and lib = lib and skip = skip and d = "g (i + 1)", OF Cons.prems(1,2) this vals] obtain sl s1 where
    one: "promote_column m lib ids p skip a (g (i + 1)) s = (Inr sl, s1)"
      "slot_for ids p (kv_view (ws_kv s1)) a ?q (v i) sl"
      "kept {(promote_type ids (atttypid a), r) |r. ?q = Some r} (kv_view (ws_kv s)) (kv_view (ws_kv s1))"
      "kv_ok (ws_kv s1)" "kv_usable (ws_kv s1) p" "part_space (length as) p (ws_kv s1)"
    by blast
  have dist: "distinct (temporaries (promoted ids p skip g (i + 1) as))"
    using Cons.prems(5) by (simp add: promoted_Cons)
  have "field_is (kv_view (ws_kv s1)) (promote_type ids (atttypid (as ! j))) r (v (i + 1 + j))"
    if j: "j < length as" "to_promote ids p skip (as ! j) (g (i + 1 + j + 1)) = Some r" for j r
  proof -
    let ?t = "promote_type ids (atttypid (as ! j))"
    have "(?t, r) \<in> set (promoted ids p skip g (i + 1) as)"
      using j unfolding promoted_set by blast
    with Cons.prems(5) have "\<not> (islocal r \<and> (?t, r) \<in> {(promote_type ids (atttypid a), r) |r. ?q = Some r})"
      by (cases ?q) (auto simp: promoted_Cons)
    moreover have "field_is (kv_view (ws_kv s)) ?t r (v (i + 1 + j))"
      using Cons.prems(4) [THEN spec, of "Suc j"] j by simp
    ultimately show ?thesis
      using one(3) unfolding kept_def by blast
  qed
  then have "\<forall>j < length as. \<forall>r. to_promote ids p skip (as ! j) (g (i + 1 + j + 1)) = Some r \<longrightarrow>
      field_is (kv_view (ws_kv s1)) (promote_type ids (atttypid (as ! j))) r (v (i + 1 + j))"
    by blast
  from Cons.IH [OF one(4,5,6) this dist] obtain slots s2 where
    two: "promote_loop m lib ids p skip g (i + 1) as s1 = (Inr slots, s2)" "length slots = length as"
      "\<forall>j < length as. slot_for ids p (kv_view (ws_kv s2)) (as ! j)
        (to_promote ids p skip (as ! j) (g (i + 1 + j + 1))) (v (i + 1 + j)) (slots ! j)"
      "kept (set (promoted ids p skip g (i + 1) as)) (kv_view (ws_kv s1)) (kv_view (ws_kv s2))" "kv_ok (ws_kv s2)"
    by blast
  have "kept (set (promoted ids p skip g i (a # as))) (kv_view (ws_kv s)) (kv_view (ws_kv s2))"
    using kept_trans [OF one(3) two(4)] by (cases ?q) (simp_all add: promoted_Cons)
  moreover have "promote_loop m lib ids p skip g i (a # as) s = (Inr (sl # slots), s2)"
    using one(1) two(1) by (simp add: bindE_def ret_def)
  moreover have "\<forall>j < length (a # as). slot_for ids p (kv_view (ws_kv s2)) ((a # as) ! j)
      (to_promote ids p skip ((a # as) ! j) (g (i + j + 1))) (v (i + j)) ((sl # slots) ! j)"
    using two(3) slot_for_kept [OF one(2) two(4)] by (simp add: All_less_Suc2)
  ultimately show ?case
    using two(2,5) by (intro exI [of _ "sl # slots"] exI [of _ s2]) simp
qed

definition known_oids :: "(string \<Rightarrow> oid) \<Rightarrow> 'pg ext \<Rightarrow> kv_oids" where
  "known_oids typid e = (if ext_init e then ext_oids e else
     \<lparr>kv_int4_oid = typid ''kv_int4'', kv_float4_oid = typid ''kv_float4'', kv_text_oid = typid ''kv_text'',
      kv_timestamp_oid = typid ''kv_timestamp''\<rparr>)"

definition types_exist :: "(string \<Rightarrow> oid) \<Rightarrow> bool" where
  "types_exist typid \<longleftrightarrow> (\<forall>n \<in> {''kv_int4'', ''kv_float4'', ''kv_text'', ''kv_timestamp''}. typid n \<noteq> 0)"

lemma init_oids_ok: "types_exist typid \<Longrightarrow> init_oids typid e =
    (Inr (), e\<lparr>ext_init := True, ext_oids := known_oids typid e\<rparr>)"
  by (simp add: init_oids_def known_oids_def types_exist_def find_type_def bindE_def on_ext_def ret_def)

definition partition_of :: "oid \<Rightarrow> rid" where
  "partition_of relid = ucast relid AND 0xFFFF"

lemma relation_partition_id_eq: "relation_partition_id relid =
    (if partition_of relid = RID_LOCAL_PARTITION then raise (Report PartitionConflict) else ret (partition_of relid))"
  by (simp add: relation_partition_id_def partition_of_def)

text \<open>
  The row \<open>tup'\<close> has the values \<open>v\<close> in the persistent fields of the partition \<open>p\<close>, for the columns
  whose identifiers were to be promoted, and the columns of \<open>tup\<close> otherwise.
\<close>

definition row_persisted :: "'t heap_am \<Rightarrow> kv_oids \<Rightarrow> rid \<Rightarrow> (attr \<Rightarrow> bool) \<Rightarrow> attr list \<Rightarrow> (nat \<Rightarrow> wal_value) \<Rightarrow> fields \<Rightarrow>
    't \<Rightarrow> 't \<Rightarrow> bool" where
  "row_persisted am ids p skip desc v f tup tup' \<longleftrightarrow> (\<forall>j < length desc.
     case to_promote ids p skip (desc ! j) (heap_getattr am tup (j + 1) desc) of
       None \<Rightarrow> heap_getattr am tup' (j + 1) desc = heap_getattr am tup (j + 1) desc
     | Some r \<Rightarrow> \<exists>key. heap_getattr am tup' (j + 1) desc = Some key \<and> rid_in_partition key p
         \<and> field_is f (promote_type ids (atttypid (desc ! j))) key (v j))"

lemma row_of_slots:
  assumes "length slots = length desc"
    "\<forall>j < length desc. slot_for ids p f (desc ! j) (to_promote ids p skip (desc ! j) (heap_getattr am tup (j + 1) desc)) (v j) (slots ! j)"
  shows "heap_correct am desc \<Longrightarrow> row_persisted am ids p skip desc v f tup (heap_modify_tuple am tup desc slots)"
    and "\<forall>sl \<in> set slots. \<not> repl_col sl \<Longrightarrow> row_persisted am ids p skip desc v f tup tup"
  using assms unfolding heap_correct_def slot_for_def row_persisted_def
  by (simp_all split: option.splits) (fastforce, metis nth_mem option.distinct(1))

text \<open>The tuple that a trigger works on, and the columns that it passes over.\<close>

definition trigger_row :: "'t trigger_data \<Rightarrow> 't \<Rightarrow> (attr \<Rightarrow> bool) \<Rightarrow> bool" where
  "trigger_row td tup skip \<longleftrightarrow>
     tg_event td = TRIGGER_INSERT \<and> tg_trigtuple td = tup \<and> skip = (\<lambda>_. False)
     \<or> tg_event td = TRIGGER_UPDATE \<and> tg_newtuple td = Some tup \<and> skip = attisdropped"


text \<open>Rows as lists of values, and a relation with an integer, a plain and a null column.\<close>

definition list_am :: "u64 option list heap_am" where
  "list_am = \<lparr>heap_getattr = (\<lambda>tup n desc. tup ! (n - 1)),
     heap_modify_tuple = (\<lambda>tup desc slots. map (\<lambda>i. if repl_col (slots ! i)
       then if repl_isnull (slots ! i) then None else repl_value (slots ! i) else tup ! i) [0..<length desc])\<rparr>"

lemma heap_correct_list: "heap_correct list_am desc"
  by (simp add: heap_correct_def list_am_def)

definition sample_typid :: "string \<Rightarrow> oid" where
  "sample_typid n = (if n = ''kv_int4'' then 101 else if n = ''kv_float4'' then 102 else if n = ''kv_text'' then 103 else 104)"

definition sample_ext :: "worker_state \<Rightarrow> unit ext" where
  "sample_ext s = \<lparr>ext_init = False, ext_oids = \<lparr>kv_int4_oid = 0, kv_float4_oid = 0, kv_text_oid = 0, kv_timestamp_oid = 0\<rparr>,
     prev_ExecutorStart = NoHook, prev_ExecutorEnd = NoHook, executor_depth = 0, clear_outer_executor = False,
     xact_callback_registered = False, ExecutorStart_hook = NoHook, ExecutorEnd_hook = NoHook, xact_callbacks = 0,
     ext_ws = s, ext_pg = ()\<rparr>"

definition sample_td :: "u64 option list trigger_data" where
  "sample_td = \<lparr>tg_event = TRIGGER_INSERT, tg_relid = 16384,
     tg_attrs = [\<lparr>atttypid = 101, attisdropped = False\<rparr>, \<lparr>atttypid = 23, attisdropped = False\<rparr>, \<lparr>atttypid = 103, attisdropped = False\<rparr>],
     tg_trigtuple = [Some (idx2local 0), Some 5, None], tg_newtuple = None\<rparr>"

lemma one_temporary_fm: "kv_fm (snd (putInt 0 v True 0 (kv_init f))) = kv_fm (kv_init f)"
  by (simp add: putInt_def zoom_def bindE_def ret_def split: prod.split sum.split)

lemma one_temporary_space:
  "kv_usable (snd (putInt 0 v True 0 (kv_init (\<lambda>_. True)))) 16384"
  "part_space 3 16384 (snd (putInt 0 v True 0 (kv_init (\<lambda>_. True))))"
  using kv_init_usable [of "\<lambda>_. True" 16384] unfolding kv_usable_def part_space_def one_temporary_fm
  by (simp_all add: RID_LOCAL_PARTITION_val kv_init_def fm_abs_def store_of_def fs_fresh_def ts_fresh_def
      MAX_ARRAY_ELE_NUM_def KV_MMAP_SIZE_def PAGE_SIZE_def text_store_sizes STRING_LENGTH_def)


section \<open>A temporary that is promoted twice\<close>

lemma freed_reads_zero:
  assumes "kv_ok k" "islocal r" "int_of (kv_view k) r = Some v" "freeLocalInt r k = (Inr (), k')"
  shows "getInt r k' = (Inr 0, k')"
proof -
  have "ls_content (lk_int (kv_local k)) (local2idx r) = Some v" "ls_invar (lk_int (kv_local k))"
    using assms by (simp_all add: kv_view_def view_of_def field_val_def kv_ok_def local_ok_def)
  then show ?thesis
    using assms(2,4)
    by (auto simp: freeLocalInt_def getInt_def lk_eraseInt_def lk_getInt_def zoom_def ls_erase_def ls_get_def ls_content_def
        ls_invar_def split: if_splits)
qed

lemma put_free_int:
  assumes "kv_ok k" "kv_usable k p" "groomInt w p k"
  shows "\<exists>key k1 k2. putInt INVALID_RID w False p k = (Inr key, k1) \<and> freeLocalInt r k1 = (Inr (), k2) \<and> kv_ok k1 \<and> kv_ok k2
    \<and> \<not> islocal key \<and> int_of (kv_view k) key = None \<and> int_of (kv_view k1) = (int_of (kv_view k))(key \<mapsto> w)
    \<and> (\<forall>x. \<not> islocal x \<longrightarrow> int_of (kv_view k2) x = int_of (kv_view k1) x)"
proof -
  from int_field.put_global_spec [OF assms] obtain key k1 where
    k1: "putInt INVALID_RID w False p k = (Inr key, k1)" "\<not> islocal key" "int_of (kv_view k) key = None"
      "kv_view k1 = int_of_update (\<lambda>m. m(key \<mapsto> w)) (kv_view k)" "kv_ok k1"
    by blast
  from int_field.free_spec [OF k1(5), of r] obtain k2 where
    "freeLocalInt r k1 = (Inr (), k2)" "kv_ok k2"
      "kv_view k2 = (if islocal r then int_of_update (\<lambda>m. m(r := None)) (kv_view k1) else kv_view k1)"
    by blast
  with k1 show ?thesis by fastforce
qed

lemma promote_int_run:
  assumes "kv_ok k" "kv_usable k p" "groomInt w p k" "getInt r k = (Inr w, k)" "islocal r"
  shows "\<exists>key k1 k2. promote_field putInt getInt freeLocalInt r INVALID_RID p k = (Inr key, k2)
    \<and> freeLocalInt r k1 = (Inr (), k2) \<and> kv_ok k1 \<and> kv_ok k2 \<and> \<not> islocal key \<and> int_of (kv_view k) key = None
    \<and> int_of (kv_view k1) = (int_of (kv_view k))(key \<mapsto> w)
    \<and> (\<forall>x. \<not> islocal x \<longrightarrow> int_of (kv_view k2) x = int_of (kv_view k1) x)"
proof -
  from put_free_int [OF assms(1-3), of r] obtain key k1 k2 where
    "putInt INVALID_RID w False p k = (Inr key, k1)" "freeLocalInt r k1 = (Inr (), k2)" "kv_ok k1" "kv_ok k2"
      "\<not> islocal key" "int_of (kv_view k) key = None" "int_of (kv_view k1) = (int_of (kv_view k))(key \<mapsto> w)"
      "\<forall>x. \<not> islocal x \<longrightarrow> int_of (kv_view k2) x = int_of (kv_view k1) x"
    by blast
  moreover from this(1,2) have "promote_field putInt getInt freeLocalInt r INVALID_RID p k = (Inr key, k2)"
    using assms(4) by (simp add: promote_field_def bindE_def ret_def)
  ultimately show ?thesis by blast
qed

lemma get_temporary:
  assumes "kv_ok k" "islocal r" "int_of (kv_view k) r = Some v"
  shows "getInt r k = (Inr v, k)"
proof -
  from int_field.get_spec [OF assms(1,3)] obtain k' where "getInt r k = (Inr v, k')" by blast
  with assms(2) show ?thesis
    by (auto simp: getInt_def lk_getInt_def zoom_def ls_get_def split: if_splits)
qed

text \<open>
  A row that uses one temporary in two columns loses a value: the first promotion stores the
  value and frees the temporary, the second succeeds as well and stores 0.
\<close>

theorem promote_twice_stores_zero:
  assumes "kv_ok (ws_kv s)" "islocal r" "int_of (kv_view (ws_kv s)) r = Some v" "kv_usable (ws_kv s) p"
    "part_space 2 p (ws_kv s)" "promote_type ids ty = CMD_PROMOTE_INT"
  shows "\<exists>key1 u key2 s'. send_promote_req m lib ids ty r p s = (Inr key1, u)
    \<and> send_promote_req m lib ids ty r p u = (Inr key2, s')
    \<and> int_of (kv_view (ws_kv s')) key1 = Some v \<and> int_of (kv_view (ws_kv s')) key2 = Some 0"
proof -
  let ?f = "promote_field putInt getInt freeLocalInt"
  have f: "promote_fun (promote_type ids ty) = Some ?f" "0 < sint (promote_type ids ty)"
    by (simp_all add: assms(6) promote_fun_def, simp add: cmd_defs)
  have space: "part_space (Suc 1) p (ws_kv s)"
    using assms(5) by (simp add: numeral_2_eq_2)
  from promote_int_run [OF assms(1,4) _ get_temporary [OF assms(1-3)] assms(2)] space_scalar [OF space] obtain key1 k1 k2 where
    one: "?f r INVALID_RID p (ws_kv s) = (Inr key1, k2)" "freeLocalInt r k1 = (Inr (), k2)" "kv_ok k1" "kv_ok k2"
      "\<not> islocal key1" "int_of (kv_view k1) = (int_of (kv_view (ws_kv s)))(key1 \<mapsto> v)"
      "\<forall>x. \<not> islocal x \<longrightarrow> int_of (kv_view k2) x = int_of (kv_view k1) x"
    by blast
  from promote_typed [OF assms(1) _ assms(4) space f(1), of r "WInt v"] one(1) assms(3,6) have
    ready: "kv_usable k2 p" "part_space (Suc 0) p k2"
    using assms(4) by auto
  have "getInt r k2 = (Inr 0, k2)"
    using one(5,6) assms(2,3) by (intro freed_reads_zero [OF one(3) assms(2) _ one(2), of v]) auto
  from promote_int_run [OF one(4) ready(1) _ this assms(2)] space_scalar [OF ready(2)] obtain key2 k3 k4 where
    two: "?f r INVALID_RID p k2 = (Inr key2, k4)" "\<not> islocal key2" "int_of (kv_view k2) key2 = None"
      "int_of (kv_view k3) = (int_of (kv_view k2))(key2 \<mapsto> 0)"
      "\<forall>x. \<not> islocal x \<longrightarrow> int_of (kv_view k4) x = int_of (kv_view k3) x"
    by blast
  from send_promote [OF f one(1)] obtain u where
    u: "answers m lib (PromoteRequest (promote_type ids ty) r INVALID_RID p) s key1 u" "ws_kv u = k2"
    by blast
  from send_promote [OF f, of r INVALID_RID p u key2 k4 m lib] two(1) u(2) obtain s' where
    "answers m lib (PromoteRequest (promote_type ids ty) r INVALID_RID p) u key2 s'" "ws_kv s' = k4"
    by blast
  with u one(5-7) two show ?thesis
    unfolding send_promote_req_def by (intro exI [of _ key1] exI [of _ u] exI [of _ key2] exI [of _ s']) (auto simp: answers_call)
qed

theorem promote_twice_stores_zero_witness:
  "\<exists>key1 u key2 s'. send_promote_req libm0 plain_gcm (known_oids sample_typid (sample_ext ws_init)) 101 (idx2local 0) 16384
      (worker_of (snd (putInt 0 7 True 0 (kv_init (\<lambda>_. True))))) = (Inr key1, u)
    \<and> send_promote_req libm0 plain_gcm (known_oids sample_typid (sample_ext ws_init)) 101 (idx2local 0) 16384 u = (Inr key2, s')
    \<and> int_of (kv_view (ws_kv s')) key1 = Some 7 \<and> int_of (kv_view (ws_kv s')) key2 = Some 0"
proof -
  have "part_space 2 16384 (snd (putInt 0 7 True 0 (kv_init (\<lambda>_. True))))"
    using one_temporary_space(2) [of 7] by (auto simp: part_space_def Let_def)
  then show ?thesis
    using one_temporary one_temporary_space(1)
    by (intro promote_twice_stores_zero)
      (auto simp: worker_of_def promote_type_def known_oids_def sample_typid_def sample_ext_def)
qed

end
