(* ===== verification/Zeno_Hooks.thy ===== *)
theory Zeno_Hooks
  imports Zeno_Trigger
begin

text \<open>
  The life of temporaries in a session: the executor hooks drop them when the outermost query
  ends, and the transaction hook drops them on abort.
\<close>

section \<open>Clearing\<close>

definition persistent :: "fields \<Rightarrow> fields" where
  "persistent f =
     \<lparr>int_of = (\<lambda>r. if islocal r then None else int_of f r), float_of = (\<lambda>r. if islocal r then None else float_of f r),
      time_of = (\<lambda>r. if islocal r then None else time_of f r), text_of = (\<lambda>r. if islocal r then None else text_of f r)\<rparr>"

lemma view_clear: "kv_view (k\<lparr>kv_local := lk_empty\<rparr>) = persistent (kv_view k)"
  by (simp add: persistent_def kv_view_def view_of_def field_val_def lk_empty_def ls_content_def ls_empty_def fun_eq_iff)

lemma kv_ok_clear: "kv_ok k \<Longrightarrow> kv_ok (k\<lparr>kv_local := lk_empty\<rparr>)"
  using kv_ok_init [of "\<lambda>_. True"] by (simp add: kv_ok_def kv_init_def)

lemma clear_req_run: "\<exists>s'. send_local_clear_req m lib s = (Inr (), s') \<and> ws_kv s' = (ws_kv s)\<lparr>kv_local := lk_empty\<rparr>"
  using send_clear [of m lib s] by (auto simp: send_local_clear_req_def dest!: answers_call)

section \<open>Events of a session\<close>

text \<open>
  What PostgreSQL does between two transaction events: executors start and end, and in between the
  backend's requests change the field store.
\<close>

datatype exec_event =
    Start "query_desc option" i32
  | Finish "query_desc option"
  | Work "kv_state \<Rightarrow> kv_state"

primrec exec_one :: "libm \<Rightarrow> mbedtls \<Rightarrow> 'pg executor \<Rightarrow> exec_event \<Rightarrow> ('pg ext, unit) kvm" where
  "exec_one m lib ex (Start q fl) = kvdb_ExecutorStart ex q fl"
| "exec_one m lib ex (Finish q) = kvdb_ExecutorEnd m lib ex q"
| "exec_one m lib ex (Work f) = on_ext (\<lambda>e. e\<lparr>ext_ws := (ext_ws e)\<lparr>ws_kv := f (ws_kv (ext_ws e))\<rparr>\<rparr>)"

primrec exec_events :: "libm \<Rightarrow> mbedtls \<Rightarrow> 'pg executor \<Rightarrow> exec_event list \<Rightarrow> ('pg ext, unit) kvm" where
  "exec_events m lib ex [] = ret ()"
| "exec_events m lib ex (ev # evs) = bindE (exec_one m lib ex ev) (\<lambda>_. exec_events m lib ex evs)"

text \<open>Complete executions, nested at most \<open>n\<close> deep.\<close>

inductive nested :: "nat \<Rightarrow> exec_event list \<Rightarrow> bool" where
  nested_Nil: "nested n []"
| nested_Work: "nested n evs \<Longrightarrow> nested n (Work f # evs)"
| nested_Exec: "nested n body \<Longrightarrow> nested (Suc n) evs \<Longrightarrow> nested (Suc n) (Start q fl # body @ Finish q' # evs)"

primrec works :: "exec_event list \<Rightarrow> kv_state \<Rightarrow> kv_state" where
  "works [] k = k"
| "works (ev # evs) k = works evs (case ev of Work f \<Rightarrow> f k | _ \<Rightarrow> k)"

lemma works_append: "works (evs @ evs') k = works evs' (works evs k)"
  by (induction evs arbitrary: k) auto

text \<open>The executor functions of PostgreSQL and of other extensions return.\<close>

definition executor_returns :: "'pg executor \<Rightarrow> bool" where
  "executor_returns ex \<longleftrightarrow> (\<forall>h q fl s. (\<exists>s'. run_start ex h q fl s = (Inr (), s')) \<and> (\<exists>s'. run_end ex h q s = (Inr (), s')))"

lemma exec_events_append: "exec_events m lib ex (evs @ evs') e =
    bindE (exec_events m lib ex evs) (\<lambda>_. exec_events m lib ex evs') e"
  by (induction evs arbitrary: e) (auto simp: bindE_def ret_def split: prod.splits sum.splits)

lemma executor_start:
  assumes "executor_returns ex" "sint (executor_depth e) < 2 ^ 31 - 1"
  shows "\<exists>e'. kvdb_ExecutorStart ex q fl e = (Inr (), e') \<and> executor_depth e' = executor_depth e + 1 \<and> ext_ws e' = ext_ws e
    \<and> clear_outer_executor e' = (if executor_depth e = 0
        then (case q of None \<Rightarrow> False | Some d \<Rightarrow> operation d = CMD_SELECT) else clear_outer_executor e)"
proof -
  obtain pg where "run_start ex (prev_ExecutorStart e) q fl (ext_pg e) = (Inr (), pg)"
    using assms(1) unfolding executor_returns_def by blast
  with assms(2) show ?thesis
    by (auto simp: kvdb_ExecutorStart_def bindE_def on_ext_def zoom_def)
qed

lemma executor_end:
  assumes "executor_returns ex" "sint (executor_depth e) > - (2 ^ 31)"
  shows "\<exists>e'. kvdb_ExecutorEnd m lib ex q e = (Inr (), e') \<and> executor_depth e' = executor_depth e - 1
    \<and> (if executor_depth e = 1 \<and> clear_outer_executor e
       then ws_kv (ext_ws e') = (ws_kv (ext_ws e))\<lparr>kv_local := lk_empty\<rparr> \<and> \<not> clear_outer_executor e'
       else ext_ws e' = ext_ws e \<and> clear_outer_executor e' = clear_outer_executor e)"
proof -
  obtain pg where pg: "run_end ex (prev_ExecutorEnd e) q (ext_pg e) = (Inr (), pg)"
    using assms(1) unfolding executor_returns_def by blast
  obtain s' where "send_local_clear_req m lib (ext_ws e) = (Inr (), s')" "ws_kv s' = (ws_kv (ext_ws e))\<lparr>kv_local := lk_empty\<rparr>"
    using clear_req_run by blast
  moreover have "executor_depth e - 1 = 0 \<longleftrightarrow> executor_depth e = 1"
    by simp
  ultimately show ?thesis
    using assms(2) pg by (auto simp: kvdb_ExecutorEnd_def bindE_def on_ext_def on_ws_def zoom_def ret_def)
qed

lemma sint_succ: "sint (w :: i32) < 2 ^ 31 - 1 \<Longrightarrow> sint (w + 1) = sint w + 1"
  using sint_greater_eq [of w] unfolding sint_eq_iff by (simp add: in_int_def)

lemma nested_run:
  assumes "nested n evs" "executor_returns ex" "0 < sint (executor_depth e)" "sint (executor_depth e) + int n < 2 ^ 31"
  shows "\<exists>e'. exec_events m lib ex evs e = (Inr (), e') \<and> executor_depth e' = executor_depth e
    \<and> clear_outer_executor e' = clear_outer_executor e \<and> ws_kv (ext_ws e') = works evs (ws_kv (ext_ws e))"
  using assms
proof (induction arbitrary: e rule: nested.induct)
  case (nested_Nil n)
  then show ?case by (simp add: ret_def)
next
  case (nested_Work n evs f)
  let ?e = "e\<lparr>ext_ws := (ext_ws e)\<lparr>ws_kv := f (ws_kv (ext_ws e))\<rparr>\<rparr>"
  from nested_Work.IH [of ?e] nested_Work.prems show ?case
    by (simp add: bindE_def on_ext_def)
next
  case (nested_Exec n body evs q fl q')
  let ?d = "executor_depth e"
  have "?d \<noteq> 0" "sint ?d < 2 ^ 31 - 1"
    using nested_Exec.prems by auto
  have d: "sint (?d + 1) = sint ?d + 1"
    using nested_Exec.prems by (intro sint_succ) simp
  from executor_start [OF nested_Exec.prems(1) \<open>sint ?d < _\<close>, of q fl] \<open>?d \<noteq> 0\<close> obtain e1 where
    e1: "kvdb_ExecutorStart ex q fl e = (Inr (), e1)" "executor_depth e1 = ?d + 1" "ext_ws e1 = ext_ws e"
      "clear_outer_executor e1 = clear_outer_executor e"
    by auto
  from nested_Exec.IH(1) [OF nested_Exec.prems(1), of e1] e1(2) d nested_Exec.prems obtain e2 where
    e2: "exec_events m lib ex body e1 = (Inr (), e2)" "executor_depth e2 = ?d + 1"
      "clear_outer_executor e2 = clear_outer_executor e" "ws_kv (ext_ws e2) = works body (ws_kv (ext_ws e))"
    by (auto simp: e1)
  have ne: "?d + 1 \<noteq> 1" "- (2 ^ 31) < sint (executor_depth e2)"
    using nested_Exec.prems d e2(2) by auto
  from executor_end [OF nested_Exec.prems(1) ne(2), of m lib q'] obtain e3 where
    e3: "kvdb_ExecutorEnd m lib ex q' e2 = (Inr (), e3)" "executor_depth e3 = ?d" "ext_ws e3 = ext_ws e2"
      "clear_outer_executor e3 = clear_outer_executor e"
    using ne(1) e2 by auto
  from nested_Exec.IH(2) [OF nested_Exec.prems(1), of e3] nested_Exec.prems obtain e4 where
    "exec_events m lib ex evs e3 = (Inr (), e4)" "executor_depth e4 = ?d"
      "clear_outer_executor e4 = clear_outer_executor e" "ws_kv (ext_ws e4) = works evs (ws_kv (ext_ws e3))"
    by (auto simp: e3)
  with e1 e2 e3 show ?case
    by (simp add: bindE_def exec_events_append works_append)
qed


section \<open>Properties\<close>

definition is_select :: "query_desc option \<Rightarrow> bool" where
  "is_select q \<longleftrightarrow> (case q of None \<Rightarrow> False | Some d \<Rightarrow> operation d = CMD_SELECT)"

text \<open>
  C15. Temporaries live to the end of the outermost query: a query that starts outside every other
  runs all its nested queries, whatever they are, without a clear, and its end drops all temporaries
  exactly when it is a SELECT. The hooks leave the nesting depth at 0.
\<close>

theorem outermost_select_clears:
  assumes "executor_returns ex" "executor_depth e = 0" "nested n body" "int n < 2 ^ 31 - 1"
  shows "\<exists>e'. exec_events m lib ex (Start q fl # body @ [Finish q']) e = (Inr (), e')
    \<and> executor_depth e' = 0 \<and> \<not> clear_outer_executor e'
    \<and> ws_kv (ext_ws e') = (if is_select q then (works body (ws_kv (ext_ws e)))\<lparr>kv_local := lk_empty\<rparr>
        else works body (ws_kv (ext_ws e)))"
proof -
  from executor_start [OF assms(1), of e q fl] assms(2) obtain e1 where
    e1: "kvdb_ExecutorStart ex q fl e = (Inr (), e1)" "executor_depth e1 = 1" "ext_ws e1 = ext_ws e"
      "clear_outer_executor e1 = is_select q"
    by (auto simp: is_select_def)
  from nested_run [OF assms(3,1), of e1 m lib] e1(2) assms(4) obtain e2 where
    e2: "exec_events m lib ex body e1 = (Inr (), e2)" "executor_depth e2 = 1"
      "clear_outer_executor e2 = is_select q" "ws_kv (ext_ws e2) = works body (ws_kv (ext_ws e))"
    by (auto simp: e1)
  from executor_end [OF assms(1), of e2 m lib q'] e2 obtain e3 where
    "kvdb_ExecutorEnd m lib ex q' e2 = (Inr (), e3)" "executor_depth e3 = 0" "\<not> clear_outer_executor e3"
      "ws_kv (ext_ws e3) = (if is_select q then (works body (ws_kv (ext_ws e)))\<lparr>kv_local := lk_empty\<rparr>
        else works body (ws_kv (ext_ws e)))"
    by (auto split: if_splits)
  with e1 e2 show ?thesis
    by (simp add: bindE_def exec_events_append ret_def)
qed

definition quiet_executor :: "unit executor" where
  "quiet_executor = \<lparr>run_start = (\<lambda>_ _ _. ret ()), run_end = (\<lambda>_ _. ret ())\<rparr>"

lemma quiet_executor_returns: "executor_returns quiet_executor"
  by (simp add: executor_returns_def quiet_executor_def ret_def)

abbreviation query :: "cmd_type \<Rightarrow> query_desc option" where
  "query c \<equiv> Some \<lparr>operation = c\<rparr>"

theorem outermost_select_clears_witness:
  "\<exists>e'. exec_events libm0 plain_gcm quiet_executor
      [Start (query CMD_SELECT) 0, Start (query CMD_INSERT) 0, Work (\<lambda>k. snd (putInt 0 7 True 0 k)), Finish None, Finish None]
      (sample_ext ws_init) = (Inr (), e')
    \<and> ws_kv (ext_ws e') = (snd (putInt 0 7 True 0 (kv_init (\<lambda>_. True))))\<lparr>kv_local := lk_empty\<rparr>"
proof -
  have "nested 1 [Start (query CMD_INSERT) 0, Work (\<lambda>k. snd (putInt 0 7 True 0 k)), Finish None]"
    using nested_Exec [OF nested_Work [OF nested_Nil] nested_Nil, of 0 "query CMD_INSERT" 0 "\<lambda>k. snd (putInt 0 7 True 0 k)" None]
    by simp
  from outermost_select_clears [OF quiet_executor_returns _ this, of "sample_ext ws_init" libm0 plain_gcm "query CMD_SELECT" 0 None]
  show ?thesis
    by (auto simp: sample_ext_def is_select_def)
qed

text \<open>
  An abort resets the depth, however deep the executors were nested, and drops every temporary
  of the worker, of whatever type and whichever backend created it, and no persistent field. Every
  other transaction event leaves the extension and the field store alone.
\<close>

theorem abort_resets:
  "\<exists>e'. kv_xact_commit_hook m lib ev e = (Inr (), e')
    \<and> (if ev = XACT_EVENT_ABORT
       then executor_depth e' = 0 \<and> \<not> clear_outer_executor e'
         \<and> kv_view (ws_kv (ext_ws e')) = persistent (kv_view (ws_kv (ext_ws e)))
       else e' = e)"
proof -
  obtain s' where "send_local_clear_req m lib (ext_ws e) = (Inr (), s')" "ws_kv s' = (ws_kv (ext_ws e))\<lparr>kv_local := lk_empty\<rparr>"
    using clear_req_run by blast
  then show ?thesis
    by (auto simp: kv_xact_commit_hook_def view_clear bindE_def on_ext_def on_ws_def zoom_def ret_def)
qed

text \<open>
  A query whose end hook does not run, as when its error is caught in a subtransaction, stops the
  clearing: from then on complete queries of every kind, SELECTs included, leave the temporaries in
  place, until the transaction aborts.
\<close>

theorem unclosed_query_stops_clearing:
  assumes "executor_returns ex" "executor_depth e = 0" "nested n evs" "int n < 2 ^ 31 - 1"
  shows "\<exists>e'. exec_events m lib ex (Start q fl # evs) e = (Inr (), e') \<and> executor_depth e' = 1
    \<and> ws_kv (ext_ws e') = works evs (ws_kv (ext_ws e))"
proof -
  from executor_start [OF assms(1), of e q fl] assms(2) obtain e1 where
    "kvdb_ExecutorStart ex q fl e = (Inr (), e1)" "executor_depth e1 = 1" "ext_ws e1 = ext_ws e"
    by auto
  with nested_run [OF assms(3,1), of e1 m lib] assms(4) show ?thesis
    by (auto simp: bindE_def)
qed

theorem unclosed_query_stops_clearing_witness:
  "\<exists>e'. exec_events libm0 plain_gcm quiet_executor
      [Start (query CMD_SELECT) 0, Start (query CMD_SELECT) 0, Work (\<lambda>k. snd (putInt 0 7 True 0 k)), Finish None]
      (sample_ext ws_init) = (Inr (), e')
    \<and> ws_kv (ext_ws e') = snd (putInt 0 7 True 0 (kv_init (\<lambda>_. True)))"
proof -
  have "nested 1 [Start (query CMD_SELECT) 0, Work (\<lambda>k. snd (putInt 0 7 True 0 k)), Finish None]"
    using nested_Exec [OF nested_Work [OF nested_Nil] nested_Nil, of 0 "query CMD_SELECT" 0 "\<lambda>k. snd (putInt 0 7 True 0 k)" None]
    by simp
  from unclosed_query_stops_clearing [OF quiet_executor_returns _ this, of "sample_ext ws_init" libm0 plain_gcm "query CMD_SELECT" 0]
  show ?thesis
    by (auto simp: sample_ext_def)
qed

end
