(* ===== verification/Zeno_Float_Props.thy ===== *)
theory Zeno_Float_Props
  imports Zeno_Tee_Ops Complex_Main
begin

text \<open>
  Float arithmetic against the real numbers: what the bit patterns of \<^verbatim>\<open>Zeno_Float\<close> stand for, and
  that the float operators of \<^verbatim>\<open>tee.cpp\<close> store correctly rounded results.
\<close>

section \<open>Correct rounding\<close>

definition fp_real :: "fp_format \<Rightarrow> nat \<Rightarrow> real" where
  "fp_real F b = real_of_int (fp_val F b) / 2 ^ fp_unit F"

text \<open>
  \<open>r\<close> is the rounded \<open>x\<close>: no floating-point number is nearer to \<open>x\<close>, or \<open>x\<close> is beyond all of them
  and \<open>r\<close> is the infinity of its sign.
\<close>

definition rounded :: "fp_format \<Rightarrow> real \<Rightarrow> nat \<Rightarrow> bool" where
  "rounded F x r \<longleftrightarrow> \<not> is_nan F r \<and>
     (if is_inf F r then (fp_sign F r \<longleftrightarrow> x < 0) \<and> (\<forall>c. is_fin F c \<longrightarrow> \<bar>fp_real F c\<bar> < \<bar>x\<bar>)
      else \<forall>c. \<bar>fp_real F r - x\<bar> \<le> \<bar>fp_real F c - x\<bar>)"

lemma mag_of_mono: "a < b \<Longrightarrow> mag_of F a < mag_of F b"
proof (erule lift_Suc_mono_less [rotated])
  fix a
  obtain k m where a: "a = k * 2 ^ mbits F + m" "canonical F k m" "m < 2 ^ Suc (mbits F)"
    by (rule pattern_scaled)
  then have "mag_of F (k * 2 ^ mbits F + m) = m * 2 ^ k" "mag_of F (k * 2 ^ mbits F + Suc m) = Suc m * 2 ^ k"
    by (intro mag_of_scaled; auto simp: canonical_def)+
  with a(1) show "mag_of F a < mag_of F (Suc a)"
    by simp
qed

text \<open>A larger exponent range has the same patterns below its own infinity.\<close>

lemma fp_round_abs_wide:
  obtains e where "fp_round_abs (F\<lparr>ebits := e\<rparr>) n d < fp_inf (F\<lparr>ebits := e\<rparr>)"
    "fp_round_abs F n d = min (fp_inf F) (fp_round_abs (F\<lparr>ebits := e\<rparr>) n d)"
proof -
  define a where "a = (let k = bit_length (n div d) - Suc (mbits F) in k * 2 ^ mbits F + round_half_even n (d * 2 ^ k))"
  let ?F = "F\<lparr>ebits := Suc a\<rparr>"
  have "a < 2 ^ Suc a - 1"
    using less_exp [of a] unfolding power_Suc by linarith
  also have "\<dots> \<le> fp_inf ?F"
    by (simp add: fp_inf_def)
  finally have "a < fp_inf ?F" .
  moreover have "fp_round_abs ?F n d = min (fp_inf ?F) a" "fp_round_abs F n d = min (fp_inf F) a"
    by (simp_all add: fp_round_abs_def a_def Let_def)
  ultimately show thesis
    using that [of "Suc a"] by simp
qed

lemma fp_round_abs_overflow:
  assumes "0 < d" "fp_round_abs F n d = fp_inf F" "c < fp_inf F"
  shows "mag_of F c * d < n"
proof (rule ccontr)
  assume "\<not> mag_of F c * d < n"
  obtain e where a: "fp_round_abs (F\<lparr>ebits := e\<rparr>) n d < fp_inf (F\<lparr>ebits := e\<rparr>)"
    "fp_round_abs F n d = min (fp_inf F) (fp_round_abs (F\<lparr>ebits := e\<rparr>) n d)"
    by (rule fp_round_abs_wide)
  let ?a = "fp_round_abs (F\<lparr>ebits := e\<rparr>) n d"
  have "mag_of F c < mag_of F ?a"
    using a(2) assms(2,3) by (intro mag_of_mono) simp
  then have "int (mag_of F c) * int d < int (mag_of F ?a) * int d"
    using assms(1) by simp
  moreover have "mag_of (F\<lparr>ebits := e\<rparr>) = mag_of F"
    by (simp add: mag_of_def fun_eq_iff)
  with fp_round_abs_nearest [OF assms(1) a(1), of c]
  have "\<bar>int (mag_of F ?a) * int d - int n\<bar> \<le> \<bar>int (mag_of F c) * int d - int n\<bar>"
    by simp
  moreover have "int n \<le> int (mag_of F c) * int d"
    using \<open>\<not> _\<close> by (metis not_less of_nat_le_iff of_nat_mult)
  ultimately show False by linarith
qed

lemma fp_real_abs: "\<bar>fp_real F c\<bar> = real (fp_mag F c) / 2 ^ fp_unit F"
  by (simp add: fp_real_def fp_val_def)

lemma fp_real_0: "fp_real F b = 0 \<longleftrightarrow> fp_mag F b = 0"
  by (simp add: fp_real_def fp_val_def)

lemma fp_round_rounded:
  assumes "0 < d" "0 < ebits F"
  shows "rounded F (real_of_int (signed_int s (int n)) / (real d * 2 ^ fp_unit F)) (fp_round F s n d)"
proof (cases "is_inf F (fp_round F s n d)")
  case True
  let ?x = "real_of_int (signed_int s (int n)) / (real d * 2 ^ fp_unit F)"
  have over: "fp_round_abs F n d = fp_inf F"
    using True by (simp add: is_inf_def fp_round_def fp_round_abs_less)
  have x: "\<bar>?x\<bar> = real n / (real d * 2 ^ fp_unit F)"
    by (simp add: signed_int_def)
  have "\<bar>fp_real F c\<bar> < \<bar>?x\<bar>" if "is_fin F c" for c
  proof -
    have "fp_mag F c * d < n"
      using fp_round_abs_overflow [OF assms(1) over, of "fp_abs F c"] that by (simp add: fp_mag_def is_fin_def)
    then have "real (fp_mag F c * d) < real n"
      by (simp only: of_nat_less_iff)
    then show ?thesis
      unfolding x fp_real_abs using assms by (simp add: field_simps)
  qed
  moreover have "0 < n"
    using fp_round_abs_overflow [OF assms(1) over, of 0] one_less_power [of "2 :: nat" "ebits F"] assms(2)
    by (auto simp: fp_inf_def mag_of_def)
  then have "?x < 0 \<longleftrightarrow> s"
    using assms by (simp add: signed_int_def divide_less_0_iff zero_less_mult_iff mult_less_0_iff)
  ultimately show ?thesis
    using True fp_inf_less [of F] by (simp add: rounded_def is_nan_def over fp_round_def)
next
  case False
  have scale: "\<bar>fp_real F c - real_of_int (signed_int s (int n)) / (real d * 2 ^ fp_unit F)\<bar> =
      real_of_int \<bar>fp_val F c * int d - signed_int s (int n)\<bar> / (real d * 2 ^ fp_unit F)" for c
  proof -
    have "fp_real F c - real_of_int (signed_int s (int n)) / (real d * 2 ^ fp_unit F) =
        real_of_int (fp_val F c * int d - signed_int s (int n)) / (real d * 2 ^ fp_unit F)"
      using assms by (simp add: fp_real_def field_simps)
    then show ?thesis
      by (simp add: abs_mult)
  qed
  have "\<not> is_nan F (fp_round F s n d)"
    using fp_round_abs_le [of F n d] by (simp add: is_nan_def fp_round_def fp_round_abs_less)
  with False fp_round_nearest [OF assms(1) False] show ?thesis
    unfolding rounded_def scale if_not_P [OF False]
    by (intro conjI allI divide_right_mono mult_nonneg_nonneg) (simp_all only: of_int_le_iff, simp_all)
qed

lemma finite_flags: "is_fin F a \<Longrightarrow> \<not> is_nan F a" "is_fin F a \<Longrightarrow> \<not> is_inf F a"
  by (auto simp: is_fin_def is_nan_def is_inf_def)

lemma fp_neg_val: "fp_val F (fp_neg F b) = - fp_val F b" "is_fin F (fp_neg F b) = is_fin F b"
proof -
  have "fp_abs F b < 2 ^ (mbits F + ebits F)"
    by (simp add: fp_abs_def)
  then show "fp_val F (fp_neg F b) = - fp_val F b" "is_fin F (fp_neg F b) = is_fin F b"
    by (simp_all add: fp_neg_def fp_val_def fp_mag_def is_fin_def)
qed

section \<open>The four operations\<close>

lemma fp_add_rounded:
  assumes "is_fin F a" "is_fin F b" "0 < ebits F"
  shows "rounded F (fp_real F a + fp_real F b) (fp_add F a b)"
proof -
  let ?v = "fp_val F a + fp_val F b"
  have x: "fp_real F a + fp_real F b = real_of_int ?v / 2 ^ fp_unit F"
    by (simp add: fp_real_def add_divide_distrib)
  show ?thesis
  proof (cases "?v = 0")
    case True
    with assms(1,2) have z: "fp_add F a b = fp_pack F (fp_sign F a \<and> fp_sign F b) 0"
      by (simp add: fp_add_def finite_flags)
    have "\<not> is_nan F (fp_add F a b)" "\<not> is_inf F (fp_add F a b)" "fp_val F (fp_add F a b) = 0"
      using assms(1) by (auto simp: z is_nan_def is_inf_def is_fin_def fp_val_pack mag_of_def signed_int_def)
    then show ?thesis
      unfolding x True by (simp add: rounded_def fp_real_def)
  next
    case False
    with assms(1,2) have "fp_add F a b = fp_round F (?v < 0) (nat \<bar>?v\<bar>) 1"
      by (simp add: fp_add_def Let_def finite_flags)
    moreover have "signed_int (?v < 0) (int (nat \<bar>?v\<bar>)) = ?v"
      by (simp add: signed_int_def)
    ultimately show ?thesis
      using fp_round_rounded [OF _ assms(3), of 1 "?v < 0" "nat \<bar>?v\<bar>"] unfolding x by simp
  qed
qed

lemma fp_sub_rounded:
  assumes "is_fin F a" "is_fin F b" "0 < ebits F"
  shows "rounded F (fp_real F a - fp_real F b) (fp_sub F a b)"
  using fp_add_rounded [of F a "fp_neg F b"] assms
  by (simp add: fp_sub_def finite_flags fp_neg_val fp_real_def)

lemma fp_mult_rounded:
  assumes "is_fin F a" "is_fin F b" "0 < ebits F"
  shows "rounded F (fp_real F a * fp_real F b) (fp_mult F a b)"
proof -
  let ?s = "fp_sign F a \<noteq> fp_sign F b" and ?n = "fp_mag F a * fp_mag F b"
  have "fp_mult F a b = fp_round F ?s ?n (2 ^ fp_unit F)"
    using assms by (simp add: fp_mult_def finite_flags)
  moreover have "fp_real F a * fp_real F b = real_of_int (signed_int ?s (int ?n)) / (real (2 ^ fp_unit F) * 2 ^ fp_unit F)"
    by (simp add: fp_real_def fp_val_def signed_int_def)
  ultimately show ?thesis
    using fp_round_rounded [OF _ assms(3), of "2 ^ fp_unit F" ?s ?n] by simp
qed

lemma fp_div_rounded:
  assumes "is_fin F a" "is_fin F b" "0 < ebits F" "fp_real F b \<noteq> 0"
  shows "rounded F (fp_real F a / fp_real F b) (fp_div F a b)"
proof -
  let ?s = "fp_sign F a \<noteq> fp_sign F b" and ?n = "fp_mag F a * 2 ^ fp_unit F"
  have b: "fp_mag F b \<noteq> 0"
    using assms(4) by (simp add: fp_real_0)
  then have "fp_div F a b = fp_round F ?s ?n (fp_mag F b)"
    using assms by (simp add: fp_div_def finite_flags)
  moreover have "fp_real F a / fp_real F b = real_of_int (signed_int ?s (int ?n)) / (real (fp_mag F b) * 2 ^ fp_unit F)"
    using b by (simp add: fp_real_def fp_val_def signed_int_def)
  ultimately show ?thesis
    using fp_round_rounded [OF _ assms(3), of "fp_mag F b" ?s ?n] b by simp
qed

lemma fp_round_less: "fp_round F s n d < 2 ^ Suc (mbits F + ebits F)"
  unfolding fp_round_def by (intro fp_pack_less fp_round_abs_less)

lemma finite_results_fit:
  assumes "is_fin F a" "is_fin F b"
  shows "fp_add F a b < 2 ^ Suc (mbits F + ebits F)" "fp_sub F a b < 2 ^ Suc (mbits F + ebits F)"
    "fp_mult F a b < 2 ^ Suc (mbits F + ebits F)" "fp_real F b \<noteq> 0 \<Longrightarrow> fp_div F a b < 2 ^ Suc (mbits F + ebits F)"
proof -
  have add: "fp_add F a c < 2 ^ Suc (mbits F + ebits F)" if "is_fin F c" for c
    using assms that fp_round_less fp_pack_less [of 0 F] by (auto simp: fp_add_def Let_def finite_flags)
  from add [OF assms(2)] show "fp_add F a b < 2 ^ Suc (mbits F + ebits F)" .
  from add [of "fp_neg F b"] assms show "fp_sub F a b < 2 ^ Suc (mbits F + ebits F)"
    by (simp add: fp_sub_def finite_flags fp_neg_val)
  show "fp_mult F a b < 2 ^ Suc (mbits F + ebits F)"
    using assms fp_round_less by (auto simp: fp_mult_def Let_def finite_flags)
  show "fp_div F a b < 2 ^ Suc (mbits F + ebits F)" if "fp_real F b \<noteq> 0"
    using assms that fp_round_less by (auto simp: fp_div_def Let_def finite_flags fp_real_0)
qed

abbreviation f32_real :: "f32 \<Rightarrow> real" where
  "f32_real w \<equiv> fp_real binary32 (unat w)"

lemma f32_op_rounded:
  assumes "is_fin binary32 (unat a)" "is_fin binary32 (unat b)"
  shows "rounded binary32 (f32_real a + f32_real b) (unat (f32_add a b))"
    "rounded binary32 (f32_real a - f32_real b) (unat (f32_sub a b))"
    "rounded binary32 (f32_real a * f32_real b) (unat (f32_mult a b))"
    "f32_real b \<noteq> 0 \<Longrightarrow> rounded binary32 (f32_real a / f32_real b) (unat (f32_div a b))"
proof -
  have e: "0 < ebits binary32" "Suc (mbits binary32 + ebits binary32) = 32"
    by (simp_all add: binary32_def)
  have "unat (of_nat x :: f32) = x" if "x < 2 ^ 32" for x
    using that by (simp add: unat_of_nat take_bit_nat_eq_self_iff)
  then show "rounded binary32 (f32_real a + f32_real b) (unat (f32_add a b))"
    "rounded binary32 (f32_real a - f32_real b) (unat (f32_sub a b))"
    "rounded binary32 (f32_real a * f32_real b) (unat (f32_mult a b))"
    "f32_real b \<noteq> 0 \<Longrightarrow> rounded binary32 (f32_real a / f32_real b) (unat (f32_div a b))"
    using finite_results_fit [OF assms, unfolded e(2)] fp_add_rounded [OF assms e(1)] fp_sub_rounded [OF assms e(1)]
      fp_mult_rounded [OF assms e(1)] fp_div_rounded [OF assms e(1)]
    by (simp_all only: f32_op_def simp_thms)
qed

text \<open>
  C10. Float arithmetic is correctly rounded: for finite operands, and a divisor other than zero, the
  four operators store a new temporary with the floating-point number nearest to the exact result
  over the reals, or with the infinity of its sign when the result is beyond all finite floats.
\<close>

theorem float_ops_rounded:
  assumes "kv_ok s" "roomFloat s" "float_of (kv_view s) l = Some a" "float_of (kv_view s) r = Some b"
    "is_fin binary32 (unat a)" "is_fin binary32 (unat b)"
    "(f, x) \<in> {(kv_float_add, f32_real a + f32_real b), (kv_float_sub, f32_real a - f32_real b),
       (kv_float_mult, f32_real a * f32_real b)} \<or> f32_real b \<noteq> 0 \<and> (f, x) = (kv_float_div, f32_real a / f32_real b)"
  shows "\<exists>key s' w. f l r s = (Inr key, s') \<and> islocal key \<and> float_of (kv_view s) key = None \<and> rounded binary32 x (unat w)
    \<and> kv_view s' = (kv_view s)\<lparr>float_of := (float_of (kv_view s))(key \<mapsto> w)\<rparr> \<and> kv_ok s'"
proof -
  have run: "\<exists>key s'. bindE (getFloat l) (\<lambda>x. bindE (getFloat r) (\<lambda>y. bindE (lift_sum (Inr (op x y)))
        (\<lambda>z. putFloat INVALID_RID z True RID_DEFAULT_PARTITION))) s = (Inr key, s') \<and> islocal key \<and> float_of (kv_view s) key = None
      \<and> kv_view s' = (kv_view s)\<lparr>float_of := (float_of (kv_view s))(key \<mapsto> op a b)\<rparr> \<and> kv_ok s'" for op
    using float_field.calc [where op = "\<lambda>x y. Inr (op x y)", OF assms(1-4) refl] by fastforce
  from assms(7) show ?thesis
    using run [of f32_add] run [of f32_sub] run [of f32_mult] run [of f32_div] f32_op_rounded [OF assms(5,6)]
    by (auto simp: kv_float_add_def kv_float_sub_def kv_float_mult_def kv_float_div_def)
qed

theorem float_ops_rounded_witness:
  "\<exists>s l key s' w. float_of (kv_view s) l = Some 0x3FC00000 \<and> kv_float_mult l l s = (Inr key, s')
    \<and> float_of (kv_view s') key = Some w \<and> rounded binary32 (9 / 4) (unat w)"
proof -
  obtain l s where l: "putFloat INVALID_RID 0x3FC00000 True 0 (kv_init (\<lambda>_. True)) = (Inr l, s)"
    "float_of (kv_view s) l = Some 0x3FC00000" "kv_ok s"
    using float_field.put_local_spec [OF kv_ok_init kv_init_room(2)] by fastforce
  then have room: "roomFloat s"
    by (auto simp: roomFloat_def putFloat_def kv_init_def lk_empty_def lk_putFloat_def ls_put_def ls_empty_def
        zoom_def bindE_def ls_room_def ret_def)
  have x: "is_fin binary32 (unat (0x3FC00000 :: f32))" "fp_real binary32 0x3FC00000 = 3 / 2"
    by (simp_all add: is_fin_def fp_abs_def fp_inf_def binary32_def fp_real_def fp_val_def fp_sign_def fp_mag_def mag_of_def fp_unit_def)
  have "\<exists>key s' w. kv_float_mult l l s = (Inr key, s') \<and> islocal key \<and> float_of (kv_view s) key = None
      \<and> rounded binary32 (9 / 4) (unat w) \<and> kv_view s' = (kv_view s)\<lparr>float_of := (float_of (kv_view s))(key \<mapsto> w)\<rparr> \<and> kv_ok s'"
    by (rule float_ops_rounded [where f = kv_float_mult, OF l(3) room l(2,2) x(1,1)]) (simp add: x(2))
  then obtain key s' w where "kv_float_mult l l s = (Inr key, s')" "rounded binary32 (9 / 4) (unat w)"
    "kv_view s' = (kv_view s)\<lparr>float_of := (float_of (kv_view s))(key \<mapsto> w)\<rparr>"
    by blast
  with l(2) show ?thesis
    by (intro exI [of _ s] exI [of _ l] exI [of _ key] exI [of _ s'] exI [of _ w]) simp
qed

end
