(* ===== verification/Zeno_Concurrent_Text.thy ===== *)
theory Zeno_Concurrent_Text
  imports Zeno_File_Map Zeno_Rpc
begin

text \<open>
  The text store of one partition under the concurrent workers of the server
  (\<^verbatim>\<open>FileMapKVStore<char *>::put\<close> and \<^verbatim>\<open>replace\<close> in
  \<^verbatim>\<open>src/src/privacy_zone/include/file-map-operator.hpp\<close>). All workers map the same file, so the two
  operations of the sequential model split here at their accesses to shared memory: the two atomic
  \<^verbatim>\<open>fetch_add\<close>s, the store to \<^verbatim>\<open>offsets[key]\<close>, each byte of the \<^verbatim>\<open>memcpy\<close> and the terminating NUL. A
  schedule interleaves these steps of any number of workers below \<open>ops_worker_count\<close>; the aligned
  store to \<^verbatim>\<open>offsets[key]\<close> is one step.

  The invariant \<open>shared_inv\<close> says that reservations are disjoint and that a completed put is intact;
  \<open>solo_put\<close> says that a put that no other worker disturbs computes \<open>ts_put\<close>.
\<close>

section \<open>Steps\<close>

text \<open>
  Where a worker is in \<^verbatim>\<open>put\<close> or \<^verbatim>\<open>replace\<close>: outside; before it draws a key; with a key; with space
  reserved; copying, with the number of bytes already copied; aborted by a failed check. The flag
  tells \<^verbatim>\<open>put\<close> from \<^verbatim>\<open>replace\<close>.
\<close>

datatype text_pc =
    Idle
  | PutStart "byte list"
  | Keyed bool rid "byte list"
  | Reserved bool rid nat "byte list"
  | Copying bool rid nat "byte list" nat
  | Aborted

text \<open>
  One text store in a shared mapping and the workers on it. The last three components are history:
  the start of the reservation that owns a byte, the completed puts with their positions, and the
  keys on which a replace has begun.
\<close>

record shared_text =
  sh_store :: text_store
  sh_pc :: "nat \<Rightarrow> text_pc"
  sh_own :: "nat \<Rightarrow> nat"
  sh_done :: "(rid \<times> nat \<times> byte list) set"
  sh_touched :: "rid set"

abbreviation goto :: "shared_text \<Rightarrow> nat \<Rightarrow> text_pc \<Rightarrow> shared_text" where
  "goto s p pc \<equiv> s\<lparr>sh_pc := (sh_pc s)(p := pc)\<rparr>"

inductive text_step :: "shared_text \<Rightarrow> shared_text \<Rightarrow> bool" where
  begin_put: "p < ops_worker_count \<Longrightarrow> sh_pc s p = Idle \<Longrightarrow> is_text v \<Longrightarrow> length v < 2 ^ 32 - 1 \<Longrightarrow>
    text_step s (goto s p (PutStart v))"
| draw: "sh_pc s p = PutStart v \<Longrightarrow> key = ts_cur_rid (sh_store s) \<Longrightarrow>
    text_step s (goto (s\<lparr>sh_store := (sh_store s)\<lparr>ts_cur_rid := key + 1\<rparr>\<rparr>) p
      (if unat key < TEXT_MAX_ELE_NUM then Keyed True key v else Aborted))"
| begin_replace: "p < ops_worker_count \<Longrightarrow> sh_pc s p = Idle \<Longrightarrow> is_text v \<Longrightarrow> length v < 2 ^ 32 - 1 \<Longrightarrow>
    text_step s (goto (s\<lparr>sh_touched := insert key (sh_touched s)\<rparr>) p
      (if unat key < TEXT_MAX_ELE_NUM then Keyed False key v else Aborted))"
| reserve: "sh_pc s p = Keyed b key v \<Longrightarrow> pos = ts_cur_offset (sh_store s) \<Longrightarrow> len = of_nat (length v + 1) \<Longrightarrow>
    text_step s (goto (s\<lparr>sh_store := (sh_store s)\<lparr>ts_cur_offset := pos + len\<rparr>,
        sh_own := (\<lambda>i. if unat pos \<le> i \<and> i \<le> unat pos + length v then unat pos else sh_own s i)\<rparr>) p
      (if pos + len \<le> of_nat STORE_SIZE then Reserved b key (unat pos) v else Aborted))"
| point: "sh_pc s p = Reserved b key pos v \<Longrightarrow>
    text_step s (goto (s\<lparr>sh_store := (sh_store s)\<lparr>ts_offsets := (ts_offsets (sh_store s))(unat key := of_nat pos)\<rparr>\<rparr>) p
      (Copying b key pos v 0))"
| copy: "sh_pc s p = Copying b key pos v i \<Longrightarrow> i < length v \<Longrightarrow>
    text_step s (goto (s\<lparr>sh_store := (sh_store s)\<lparr>ts_store := (ts_store (sh_store s))(pos + i := v ! i)\<rparr>\<rparr>) p
      (Copying b key pos v (i + 1)))"
| finish: "sh_pc s p = Copying b key pos v (length v) \<Longrightarrow>
    text_step s (goto (s\<lparr>sh_store := (sh_store s)\<lparr>ts_store := (ts_store (sh_store s))(pos + length v := 0)\<rparr>,
        sh_done := (if b then insert (key, pos, v) (sh_done s) else sh_done s)\<rparr>) p Idle)"

definition shared_init :: shared_text where
  "shared_init = \<lparr>sh_store = ts_fresh, sh_pc = (\<lambda>_. Idle), sh_own = (\<lambda>_. 0), sh_done = {}, sh_touched = {}\<rparr>"

inductive text_reach :: "shared_text \<Rightarrow> bool" where
  init: "text_reach shared_init"
| step: "text_reach s \<Longrightarrow> text_step s s' \<Longrightarrow> text_reach s'"

section \<open>The invariant\<close>

fun flight :: "text_pc \<Rightarrow> (nat \<times> byte list) option" where
  "flight (Reserved b key pos v) = Some (pos, v)"
| "flight (Copying b key pos v i) = Some (pos, v)"
| "flight _ = None"

fun put_key :: "text_pc \<Rightarrow> rid option" where
  "put_key (Keyed b key v) = (if b then Some key else None)"
| "put_key (Reserved b key pos v) = (if b then Some key else None)"
| "put_key (Copying b key pos v i) = (if b then Some key else None)"
| "put_key _ = None"

fun op_text :: "text_pc \<Rightarrow> byte list option" where
  "op_text (PutStart v) = Some v"
| "op_text (Keyed b key v) = Some v"
| "op_text (Reserved b key pos v) = Some v"
| "op_text (Copying b key pos v i) = Some v"
| "op_text _ = None"

fun replace_key :: "text_pc \<Rightarrow> rid option" where
  "replace_key (Keyed b key v) = (if b then None else Some key)"
| "replace_key (Reserved b key pos v) = (if b then None else Some key)"
| "replace_key (Copying b key pos v i) = (if b then None else Some key)"
| "replace_key _ = None"

text \<open>The bytes of a reservation, with its NUL.\<close>

definition extent :: "shared_text \<Rightarrow> nat \<Rightarrow> byte list \<Rightarrow> bool" where
  "extent s pos v \<longleftrightarrow> pos + length v < unat (ts_cur_offset (sh_store s)) \<and> pos + length v < STORE_SIZE
     \<and> (\<forall>i \<le> length v. sh_own s (pos + i) = pos)"

definition aborted :: "shared_text \<Rightarrow> nat set" where
  "aborted s = {p. sh_pc s p = Aborted}"

definition counters_ok :: "shared_text \<Rightarrow> bool" where
  "counters_ok s \<longleftrightarrow> (\<forall>p \<ge> ops_worker_count. sh_pc s p = Idle)
     \<and> (\<forall>p v. op_text (sh_pc s p) = Some v \<longrightarrow> is_text v \<and> length v < 2 ^ 32 - 1)
     \<and> unat (ts_cur_rid (sh_store s)) \<le> TEXT_MAX_ELE_NUM + card (aborted s)
     \<and> unat (ts_cur_offset (sh_store s)) \<le> STORE_SIZE + 2 ^ 32 * card (aborted s)"

definition flights_ok :: "shared_text \<Rightarrow> bool" where
  "flights_ok s \<longleftrightarrow> (\<forall>p pos v. flight (sh_pc s p) = Some (pos, v) \<longrightarrow> extent s pos v)
     \<and> (\<forall>p q pos v w. flight (sh_pc s p) = Some (pos, v) \<longrightarrow> flight (sh_pc s q) = Some (pos, w) \<longrightarrow> p = q)"

definition keys_ok :: "shared_text \<Rightarrow> bool" where
  "keys_ok s \<longleftrightarrow> (\<forall>p key. put_key (sh_pc s p) = Some key \<longrightarrow> key < ts_cur_rid (sh_store s) \<and> unat key < TEXT_MAX_ELE_NUM)
     \<and> (\<forall>p q key. put_key (sh_pc s p) = Some key \<longrightarrow> put_key (sh_pc s q) = Some key \<longrightarrow> p = q)"

definition touched_ok :: "shared_text \<Rightarrow> bool" where
  "touched_ok s \<longleftrightarrow> (\<forall>p key. replace_key (sh_pc s p) = Some key \<longrightarrow> key \<in> sh_touched s)"

fun copy_ok :: "shared_text \<Rightarrow> text_pc \<Rightarrow> bool" where
  "copy_ok s (Copying b key pos v i) \<longleftrightarrow> i \<le> length v \<and> (\<forall>j < i. ts_store (sh_store s) (pos + j) = v ! j)
     \<and> (b \<longrightarrow> key \<notin> sh_touched s \<longrightarrow> ts_offsets (sh_store s) (unat key) = of_nat pos)"
| "copy_ok s _ \<longleftrightarrow> True"

definition copies_ok :: "shared_text \<Rightarrow> bool" where
  "copies_ok s \<longleftrightarrow> (\<forall>p. copy_ok s (sh_pc s p))"

definition done_at :: "shared_text \<Rightarrow> rid \<Rightarrow> nat \<Rightarrow> byte list \<Rightarrow> bool" where
  "done_at s key pos v \<longleftrightarrow> extent s pos v \<and> is_text v \<and> key < ts_cur_rid (sh_store s) \<and> unat key < TEXT_MAX_ELE_NUM
     \<and> (\<forall>j < length v. ts_store (sh_store s) (pos + j) = v ! j) \<and> ts_store (sh_store s) (pos + length v) = 0
     \<and> (key \<notin> sh_touched s \<longrightarrow> ts_offsets (sh_store s) (unat key) = of_nat pos)"

definition done_ok :: "shared_text \<Rightarrow> bool" where
  "done_ok s \<longleftrightarrow> (\<forall>key pos v. (key, pos, v) \<in> sh_done s \<longrightarrow> done_at s key pos v
       \<and> (\<forall>p. put_key (sh_pc s p) \<noteq> Some key) \<and> (\<forall>p w. flight (sh_pc s p) \<noteq> Some (pos, w)))
     \<and> (\<forall>key pos v pos' v'. (key, pos, v) \<in> sh_done s \<longrightarrow> (key, pos', v') \<in> sh_done s \<longrightarrow> pos' = pos \<and> v' = v)"

definition shared_inv :: "shared_text \<Rightarrow> bool" where
  "shared_inv s \<longleftrightarrow> counters_ok s \<and> flights_ok s \<and> keys_ok s \<and> touched_ok s \<and> copies_ok s \<and> done_ok s"

lemma shared_inv_init: "shared_inv shared_init"
  by (simp add: shared_inv_def shared_init_def counters_ok_def flights_ok_def keys_ok_def touched_ok_def copies_ok_def done_ok_def ts_fresh_def)

lemma aborted_finite: "counters_ok s \<Longrightarrow> finite (aborted s) \<and> card (aborted s) \<le> ops_worker_count"
proof -
  assume "counters_ok s"
  then have "aborted s \<subseteq> {..<ops_worker_count}"
    unfolding counters_ok_def aborted_def by (metis (mono_tags, lifting) lessThan_iff mem_Collect_eq not_le subsetI text_pc.distinct(9))
  then show ?thesis
    using finite_subset card_mono [of "{..<ops_worker_count}"] by fastforce
qed

lemma aborted_goto: "sh_pc s p \<noteq> Aborted \<Longrightarrow> sh_pc s' = (sh_pc s)(p := pc) \<Longrightarrow>
    aborted s' = (if pc = Aborted then insert p (aborted s) else aborted s)"
  by (auto simp: aborted_def)

lemma card_aborted:
  assumes "counters_ok s" "sh_pc s p \<noteq> Aborted" "sh_pc s' = (sh_pc s)(p := pc)"
  shows "card (aborted s') = card (aborted s) + (if pc = Aborted then 1 else 0)"
  using aborted_goto [OF assms(2,3)] aborted_finite [OF assms(1)] assms(2) by (auto simp: aborted_def)

lemma counters_bounds:
  assumes "counters_ok s"
  shows "unat (ts_cur_rid (sh_store s)) < 2 ^ 40" "unat (ts_cur_offset (sh_store s)) < 2 ^ 41"
  using assms aborted_finite [OF assms]
  by (auto simp: counters_ok_def ops_worker_count_def OPS_WORKER_NUM_def MAX_REGION_NUM_val text_store_sizes)

lemma offset_advance:
  assumes "counters_ok s" "length v < 2 ^ 32 - 1"
  shows "unat (ts_cur_offset (sh_store s) + of_nat (length v + 1)) = unat (ts_cur_offset (sh_store s)) + length v + 1"
proof -
  have "unat (of_nat n :: u64) = n" if "n < 2 ^ 40" for n
    using that by (simp add: unsigned_of_nat take_bit_nat_eq_self)
  from this [of "length v + 1"] assms(2) have "unat (of_nat (length v + 1) :: u64) = length v + 1"
    by simp
  then show ?thesis
    using counters_bounds(2) [OF assms(1)] assms(2) by (subst unat_plus_if') simp
qed

lemma counters_text: "counters_ok s \<Longrightarrow> op_text (sh_pc s p) = Some v \<Longrightarrow> is_text v \<and> length v < 2 ^ 32 - 1"
  unfolding counters_ok_def by blast

lemma counters_goto:
  assumes "counters_ok s" "sh_pc s p \<noteq> Aborted" "sh_pc s' = (sh_pc s)(p := pc)" "sh_pc s p \<noteq> Idle \<or> p < ops_worker_count"
    "\<And>v. op_text pc = Some v \<Longrightarrow> is_text v \<and> length v < 2 ^ 32 - 1"
    "unat (ts_cur_rid (sh_store s')) \<le> TEXT_MAX_ELE_NUM + card (aborted s) + (if pc = Aborted then 1 else 0)"
    "unat (ts_cur_offset (sh_store s')) \<le> STORE_SIZE + 2 ^ 32 * (card (aborted s) + (if pc = Aborted then 1 else 0))"
  shows "counters_ok s'"
proof -
  have "p < ops_worker_count"
    using assms(1,4) unfolding counters_ok_def by (meson not_le)
  then show ?thesis
    using assms card_aborted [OF assms(1-3)] unfolding counters_ok_def by auto
qed

lemma counters_step: "text_step s s' \<Longrightarrow> counters_ok s \<Longrightarrow> counters_ok s'"
proof (induction rule: text_step.induct)
  case (draw s p v key)
  with counters_text [of s p v] counters_bounds(1) [OF draw.prems] show ?case
    by (intro counters_goto [OF draw.prems, of p])
      (auto simp: unat_succ counters_ok_def split: if_splits)
next
  case (reserve s p b key v pos len)
  with counters_text [of s p v] have v: "is_text v" "length v < 2 ^ 32 - 1" by simp_all
  note adv = offset_advance [OF reserve.prems v(2)]
  have "pos + len \<le> of_nat STORE_SIZE \<longleftrightarrow> unat pos + length v + 1 \<le> STORE_SIZE"
    using STORE_SIZE_lt adv unfolding reserve.hyps by (simp add: word_le_nat_alt unsigned_of_nat take_bit_nat_eq_self)
  with reserve v adv show ?case
    by (intro counters_goto [OF reserve.prems, of p]) (auto simp: counters_ok_def split: if_splits)
next
  case (begin_put p s v)
  then show ?case
    by (intro counters_goto [OF begin_put.prems, of p]) (auto simp: counters_ok_def)
next
  case (begin_replace p s v key)
  then show ?case
    by (intro counters_goto [OF begin_replace.prems, of p]) (auto simp: counters_ok_def split: if_splits)
next
  case (point s p b key pos v)
  with counters_text [of s p v] show ?case
    by (intro counters_goto [OF point.prems, of p]) (auto simp: counters_ok_def)
next
  case (copy s p b key pos v i)
  with counters_text [of s p v] show ?case
    by (intro counters_goto [OF copy.prems, of p]) (auto simp: counters_ok_def)
next
  case (finish s p b key pos v)
  then show ?case
    by (intro counters_goto [OF finish.prems, of p]) (auto simp: counters_ok_def)
qed

lemma reserve_ok:
  assumes "counters_ok s" "sh_pc s p = Keyed b key v" "pos = ts_cur_offset (sh_store s)" "len = of_nat (length v + 1)"
  shows "unat (pos + len) = unat pos + length v + 1"
    "pos + len \<le> of_nat STORE_SIZE \<longleftrightarrow> unat pos + length v + 1 \<le> STORE_SIZE"
proof -
  have v: "length v < 2 ^ 32 - 1"
    using counters_text [OF assms(1), of p v] assms(2) by simp
  show adv: "unat (pos + len) = unat pos + length v + 1"
    using offset_advance [OF assms(1) v] assms(3,4) by simp
  then show "pos + len \<le> of_nat STORE_SIZE \<longleftrightarrow> unat pos + length v + 1 \<le> STORE_SIZE"
    using STORE_SIZE_lt by (simp add: word_le_nat_alt unsigned_of_nat take_bit_nat_eq_self)
qed

text \<open>A reservation lies behind all earlier ones.\<close>

lemma extent_reserve:
  assumes "extent s pos v" "off = ts_cur_offset (sh_store s)" "unat off \<le> unat (ts_cur_offset (sh_store s'))"
    "sh_own s' = (\<lambda>i. if unat off \<le> i \<and> i \<le> n then unat off else sh_own s i)"
  shows "extent s' pos v" "pos \<noteq> unat off"
  using assms by (auto simp: extent_def)

lemma extent_cong: "ts_cur_offset (sh_store s') = ts_cur_offset (sh_store s) \<Longrightarrow> sh_own s' = sh_own s \<Longrightarrow>
    extent s' pos v = extent s pos v"
  by (simp add: extent_def)

lemma flights_goto:
  assumes "flights_ok s" "sh_pc u = sh_pc s" "flight pc = None \<or> flight pc = flight (sh_pc s p)"
    "ts_cur_offset (sh_store u) = ts_cur_offset (sh_store s)" "sh_own u = sh_own s"
  shows "flights_ok (goto u p pc)"
proof -
  have "flight (sh_pc (goto u p pc) q) = Some x \<Longrightarrow> flight (sh_pc s q) = Some x" for q x
    using assms(2,3) by (auto split: if_splits)
  moreover have "extent (goto u p pc) pos v = extent s pos v" for pos v
    using assms(4,5) by (simp add: extent_def)
  ultimately show ?thesis
    using assms(1) unfolding flights_ok_def by blast
qed

lemma flights_step: "text_step s s' \<Longrightarrow> counters_ok s \<Longrightarrow> flights_ok s \<Longrightarrow> flights_ok s'"
proof (induction rule: text_step.induct)
  case (reserve s p b key v pos len)
  let ?s = "goto (s\<lparr>sh_store := (sh_store s)\<lparr>ts_cur_offset := pos + len\<rparr>,
        sh_own := (\<lambda>i. if unat pos \<le> i \<and> i \<le> unat pos + length v then unat pos else sh_own s i)\<rparr>) p
      (if pos + len \<le> of_nat STORE_SIZE then Reserved b key (unat pos) v else Aborted)"
  note ok = reserve_ok [OF reserve.prems(1) reserve.hyps]
  have old: "extent ?s pos' w" "pos' \<noteq> unat pos" if "extent s pos' w" for pos' w
    using extent_reserve [OF that, of pos ?s "unat pos + length v"] reserve.hyps ok(1) by simp_all
  have new: "extent ?s (unat pos) v" if "pos + len \<le> of_nat STORE_SIZE"
    using that ok by (simp add: extent_def)
  have fl: "flight (sh_pc ?s q) = Some (pos', w) \<Longrightarrow> (q = p \<and> pos' = unat pos \<and> w = v \<and> pos + len \<le> of_nat STORE_SIZE)
      \<or> (q \<noteq> p \<and> flight (sh_pc s q) = Some (pos', w))" for q pos' w
    by (auto split: if_splits)
  from reserve.prems(2) have s: "flight (sh_pc s q) = Some (pos', w) \<Longrightarrow> extent s pos' w" for q pos' w
    unfolding flights_ok_def by blast
  from reserve.prems(2) have inj: "flight (sh_pc s q) = Some (pos', w) \<Longrightarrow> flight (sh_pc s q') = Some (pos', w') \<Longrightarrow> q = q'" for q q' pos' w w'
    unfolding flights_ok_def by blast
  show ?case
    unfolding flights_ok_def
  proof (intro conjI allI impI)
    show "extent ?s pos' w" if "flight (sh_pc ?s q) = Some (pos', w)" for q pos' w
      using fl [OF that] new s old(1) by blast
    show "q = q'" if "flight (sh_pc ?s q) = Some (pos', w)" "flight (sh_pc ?s q') = Some (pos', w')" for q q' pos' w w'
      using fl [OF that(1)] fl [OF that(2)] inj s old(2) by blast
  qed
qed (rule flights_goto, assumption, simp, simp, simp, simp)+

lemma keys_goto:
  assumes "keys_ok s" "sh_pc u = sh_pc s" "put_key pc = None \<or> put_key pc = put_key (sh_pc s p)"
    "ts_cur_rid (sh_store u) = ts_cur_rid (sh_store s)"
  shows "keys_ok (goto u p pc)"
proof -
  have "put_key (sh_pc (goto u p pc) q) = Some x \<Longrightarrow> put_key (sh_pc s q) = Some x" for q x
    using assms(2,3) by (auto split: if_splits)
  moreover have "ts_cur_rid (sh_store (goto u p pc)) = ts_cur_rid (sh_store s)"
    using assms(4) by simp
  ultimately show ?thesis
    using assms(1) unfolding keys_ok_def by metis
qed

lemma keys_step: "text_step s s' \<Longrightarrow> counters_ok s \<Longrightarrow> keys_ok s \<Longrightarrow> keys_ok s'"
proof (induction rule: text_step.induct)
  case (draw s p v key)
  have less: "j < key + 1 \<longleftrightarrow> j < key \<or> j = key" for j
    using draw.hyps counters_bounds(1) [OF draw.prems(1)] by (intro less_succ_iff) simp
  let ?s = "goto (s\<lparr>sh_store := (sh_store s)\<lparr>ts_cur_rid := key + 1\<rparr>\<rparr>) p
      (if unat key < TEXT_MAX_ELE_NUM then Keyed True key v else Aborted)"
  have pk: "put_key (sh_pc ?s q) = Some j \<Longrightarrow> (q = p \<and> j = key \<and> unat key < TEXT_MAX_ELE_NUM)
      \<or> (q \<noteq> p \<and> put_key (sh_pc s q) = Some j)" for q j
    by (auto split: if_splits)
  from draw.prems(2) draw.hyps(2) have s: "put_key (sh_pc s q) = Some j \<Longrightarrow> j < key \<and> unat j < TEXT_MAX_ELE_NUM" for q j
    unfolding keys_ok_def by blast
  from draw.prems(2) have inj: "put_key (sh_pc s q) = Some j \<Longrightarrow> put_key (sh_pc s q') = Some j \<Longrightarrow> q = q'" for q q' j
    unfolding keys_ok_def by blast
  show ?case
    unfolding keys_ok_def
  proof (intro conjI allI impI)
    show "j < ts_cur_rid (sh_store ?s)" "unat j < TEXT_MAX_ELE_NUM" if "put_key (sh_pc ?s q) = Some j" for q j
      using pk [OF that] s less by auto
    show "q = q'" if "put_key (sh_pc ?s q) = Some j" "put_key (sh_pc ?s q') = Some j" for q q' j
      using pk [OF that(1)] pk [OF that(2)] inj s by blast
  qed
qed (rule keys_goto, assumption, simp, simp, simp)+

lemma touched_goto:
  assumes "touched_ok s" "sh_pc u = sh_pc s" "sh_touched s \<subseteq> sh_touched u"
    "\<And>key. replace_key pc = Some key \<Longrightarrow> replace_key (sh_pc s p) = Some key \<or> key \<in> sh_touched u"
  shows "touched_ok (goto u p pc)"
  using assms unfolding touched_ok_def by (auto split: if_splits)

lemma touched_step: "text_step s s' \<Longrightarrow> touched_ok s \<Longrightarrow> touched_ok s'"
proof (induction rule: text_step.induct)
qed (rule touched_goto, assumption, simp, force, force split: if_splits)+

text \<open>Two processes write to different bytes, and a new pointer belongs to another key.\<close>

lemma flightsD:
  assumes "flights_ok s"
  shows "flight (sh_pc s p) = Some (pos, v) \<Longrightarrow> extent s pos v"
    "flight (sh_pc s p) = Some (pos, v) \<Longrightarrow> flight (sh_pc s q) = Some (pos, w) \<Longrightarrow> p = q"
  using assms unfolding flights_ok_def by blast+

lemma keysD:
  assumes "keys_ok s"
  shows "put_key (sh_pc s p) = Some key \<Longrightarrow> key < ts_cur_rid (sh_store s)"
    "put_key (sh_pc s p) = Some key \<Longrightarrow> unat key < TEXT_MAX_ELE_NUM"
    "put_key (sh_pc s p) = Some key \<Longrightarrow> put_key (sh_pc s q) = Some key \<Longrightarrow> p = q"
  using assms unfolding keys_ok_def by blast+

lemma other_byte:
  assumes "flight (sh_pc s p) = Some (pos, v)" "flights_ok s" "extent s pos' w" "pos \<noteq> pos'" "i \<le> length v" "j \<le> length w"
  shows "pos' + j \<noteq> pos + i"
proof
  assume eq: "pos' + j = pos + i"
  have "sh_own s (pos + i) = pos" "sh_own s (pos' + j) = pos'"
    using flightsD(1) [OF assms(2,1)] assms(3,5,6) by (auto simp: extent_def)
  with eq assms(4) show False by simp
qed

lemma other_key:
  assumes "sh_pc s p = Reserved b key pos v" "touched_ok s" "key' \<notin> sh_touched s" "b \<Longrightarrow> key' \<noteq> key"
  shows "unat key' \<noteq> unat key"
proof -
  have "\<not> b \<Longrightarrow> key \<in> sh_touched s"
    using assms(1,2) unfolding touched_ok_def by (metis option.inject replace_key.simps(2))
  with assms(3,4) have "key' \<noteq> key" by blast
  then show ?thesis by (simp add: word_unat_eq_iff)
qed

lemma copy_ok_frame:
  assumes "copy_ok s pc" "sh_touched s \<subseteq> sh_touched s'"
    "\<And>pos v j. flight pc = Some (pos, v) \<Longrightarrow> j < length v \<Longrightarrow> ts_store (sh_store s') (pos + j) = ts_store (sh_store s) (pos + j)"
    "\<And>key. put_key pc = Some key \<Longrightarrow> key \<notin> sh_touched s' \<Longrightarrow> ts_offsets (sh_store s') (unat key) = ts_offsets (sh_store s) (unat key)"
  shows "copy_ok s' pc"
  using assms by (cases pc) (auto split: if_splits)

lemma copies_goto:
  assumes "copies_ok s" "copy_ok (goto u p pc) pc"
    "\<And>q. q \<noteq> p \<Longrightarrow> copy_ok s (sh_pc s q) \<Longrightarrow> copy_ok (goto u p pc) (sh_pc s q)" "sh_pc u = sh_pc s"
  shows "copies_ok (goto u p pc)"
  using assms unfolding copies_ok_def by simp

lemma copies_step:
  "text_step s s' \<Longrightarrow> flights_ok s \<Longrightarrow> keys_ok s \<Longrightarrow> touched_ok s \<Longrightarrow> copies_ok s \<Longrightarrow> copies_ok s'"
proof (induction rule: text_step.induct)
  case (point s p b key pos v)
  show ?case
  proof (rule copies_goto [OF point.prems(4)])
    fix q assume "q \<noteq> p" and ok: "copy_ok s (sh_pc s q)"
    then have "key' \<noteq> key" if "put_key (sh_pc s q) = Some key'" b for key'
      using keysD(3) [OF point.prems(2), of q key p] that point.hyps by auto
    then have "unat key' \<noteq> unat key" if "put_key (sh_pc s q) = Some key'" "key' \<notin> sh_touched s" for key'
      using other_key [OF point.hyps point.prems(3)] that by blast
    then show "copy_ok (goto (s\<lparr>sh_store := (sh_store s)\<lparr>ts_offsets := (ts_offsets (sh_store s))(unat key := of_nat pos)\<rparr>\<rparr>) p
      (Copying b key pos v 0)) (sh_pc s q)"
      by (intro copy_ok_frame [OF ok]) auto
  qed simp_all
next
  case (copy s p b key pos v i)
  have fl: "flight (sh_pc s p) = Some (pos, v)"
    using copy.hyps by simp
  show ?case
  proof (rule copies_goto [OF copy.prems(4)])
    fix q assume "q \<noteq> p" and ok: "copy_ok s (sh_pc s q)"
    then have "pos' + j \<noteq> pos + i" if "flight (sh_pc s q) = Some (pos', w)" "j < length w" for pos' w j
      using other_byte [OF fl copy.prems(1) flightsD(1) [OF copy.prems(1) that(1)], of i j]
        flightsD(2) [OF copy.prems(1) fl, of q] that copy.hyps(2) by auto
    then show "copy_ok (goto (s\<lparr>sh_store := (sh_store s)\<lparr>ts_store := (ts_store (sh_store s))(pos + i := v ! i)\<rparr>\<rparr>) p
      (Copying b key pos v (i + 1))) (sh_pc s q)"
      by (intro copy_ok_frame [OF ok]) auto
  next
    have "copy_ok s (sh_pc s p)"
      using copy.prems(4) by (simp add: copies_ok_def)
    with copy.hyps show "copy_ok (goto (s\<lparr>sh_store := (sh_store s)\<lparr>ts_store := (ts_store (sh_store s))(pos + i := v ! i)\<rparr>\<rparr>) p
      (Copying b key pos v (i + 1))) (Copying b key pos v (i + 1))"
      by (auto simp: less_Suc_eq)
  qed simp
next
  case (finish s p b key pos v)
  have fl: "flight (sh_pc s p) = Some (pos, v)"
    using finish.hyps by simp
  show ?case
  proof (rule copies_goto [OF finish.prems(4)])
    fix q assume "q \<noteq> p" and ok: "copy_ok s (sh_pc s q)"
    then have "pos' + j \<noteq> pos + length v" if "flight (sh_pc s q) = Some (pos', w)" "j < length w" for pos' w j
      using other_byte [OF fl finish.prems(1) flightsD(1) [OF finish.prems(1) that(1)], of "length v" j]
        flightsD(2) [OF finish.prems(1) fl, of q] that by auto
    then show "copy_ok (goto (s\<lparr>sh_store := (sh_store s)\<lparr>ts_store := (ts_store (sh_store s))(pos + length v := 0)\<rparr>,
        sh_done := (if b then insert (key, pos, v) (sh_done s) else sh_done s)\<rparr>) p Idle) (sh_pc s q)"
      by (intro copy_ok_frame [OF ok]) auto
  qed simp_all
next
  case (begin_put p s v)
  then show ?case by (intro copies_goto) (auto elim: copy_ok_frame)
next
  case (draw s p v key)
  then show ?case by (intro copies_goto) (auto elim: copy_ok_frame)
next
  case (begin_replace p s v key)
  then show ?case by (intro copies_goto) (auto elim: copy_ok_frame)
next
  case (reserve s p b key v pos len)
  then show ?case by (intro copies_goto) (auto elim: copy_ok_frame)
qed

lemma doneD:
  assumes "done_ok s" "(key, pos, v) \<in> sh_done s"
  shows "done_at s key pos v" "put_key (sh_pc s p) \<noteq> Some key" "flight (sh_pc s p) \<noteq> Some (pos, w)"
    "(key, pos', v') \<in> sh_done s \<Longrightarrow> pos' = pos \<and> v' = v"
  using assms unfolding done_ok_def by blast+

lemma done_frame:
  assumes "done_at s key pos v" "\<And>pos v. extent s pos v \<Longrightarrow> extent s' pos v" "ts_cur_rid (sh_store s) \<le> ts_cur_rid (sh_store s')"
    "\<And>j. j \<le> length v \<Longrightarrow> ts_store (sh_store s') (pos + j) = ts_store (sh_store s) (pos + j)" "sh_touched s \<subseteq> sh_touched s'"
    "key \<notin> sh_touched s' \<Longrightarrow> ts_offsets (sh_store s') (unat key) = ts_offsets (sh_store s) (unat key)"
  shows "done_at s' key pos v"
  using assms by (auto simp: done_at_def intro: less_le_trans)

text \<open>Steps that complete no put and take neither a key nor a position.\<close>

lemma done_goto:
  assumes "done_ok s" "sh_pc u = sh_pc s" "sh_done u = sh_done s"
    "put_key pc = None \<or> put_key pc = put_key (sh_pc s p) \<or> (\<forall>pos v. (the (put_key pc), pos, v) \<notin> sh_done s)"
    "flight pc = None \<or> flight pc = flight (sh_pc s p) \<or> (\<forall>key v. (key, fst (the (flight pc)), v) \<notin> sh_done s)"
    "\<And>key pos v. (key, pos, v) \<in> sh_done s \<Longrightarrow> done_at s key pos v \<Longrightarrow> done_at (goto u p pc) key pos v"
  shows "done_ok (goto u p pc)"
proof -
  have "put_key (sh_pc (goto u p pc) q) \<noteq> Some key" if "(key, pos, v) \<in> sh_done s" for q key pos v
    using doneD(2) [OF assms(1) that] assms(2,4) that by (auto split: if_splits)
  moreover have "flight (sh_pc (goto u p pc) q) \<noteq> Some (pos, w)" if "(key, pos, v) \<in> sh_done s" for q key pos v w
    using doneD(3) [OF assms(1) that] assms(2,5) that by (auto split: if_splits)
  moreover have "sh_done (goto u p pc) = sh_done s"
    using assms(3) by simp
  ultimately show ?thesis
    using assms(1,6) unfolding done_ok_def by metis
qed

lemma done_extent: "done_at s key pos v \<Longrightarrow> extent s pos v"
  by (simp add: done_at_def)

lemma done_write:
  assumes "done_ok s" "flights_ok s" "flight (sh_pc s p) = Some (pos, v)" "i \<le> length v" "(key', pos', w) \<in> sh_done s"
    "sh_store u = (sh_store s)\<lparr>ts_store := (ts_store (sh_store s))(pos + i := x)\<rparr>" "sh_own u = sh_own s" "sh_touched u = sh_touched s"
  shows "done_at u key' pos' w"
proof (rule done_frame [OF doneD(1) [OF assms(1,5)]])
  fix j assume "j \<le> length w"
  moreover have "pos \<noteq> pos'"
    using doneD(3) [OF assms(1,5)] assms(3) by blast
  ultimately have "pos' + j \<noteq> pos + i"
    using other_byte [OF assms(3,2) done_extent [OF doneD(1) [OF assms(1,5)]] _ assms(4)] by blast
  with assms(6) show "ts_store (sh_store u) (pos' + j) = ts_store (sh_store s) (pos' + j)"
    by simp
qed (use assms in \<open>auto simp: extent_def\<close>)

lemma done_finish:
  assumes "sh_pc s p = Copying b key pos v (length v)" "counters_ok s" "flights_ok s" "keys_ok s" "copies_ok s" "done_ok s"
    and u: "sh_store u = (sh_store s)\<lparr>ts_store := (ts_store (sh_store s))(pos + length v := 0)\<rparr>"
      "sh_done u = (if b then insert (key, pos, v) (sh_done s) else sh_done s)"
      "sh_pc u = (sh_pc s)(p := Idle)" "sh_own u = sh_own s" "sh_touched u = sh_touched s"
  shows "done_ok u"
proof -
  have fl: "flight (sh_pc s p) = Some (pos, v)" and tv: "is_text v"
    using assms(1) counters_text [OF assms(2), of p v] by simp_all
  have old: "done_at u key' pos' w" if "(key', pos', w) \<in> sh_done s" for key' pos' w
    using done_write [OF assms(6,3) fl _ that u(1,4,5)] by simp
  have other: "put_key (sh_pc u q) \<noteq> Some key'" "flight (sh_pc u q) \<noteq> Some (pos', w')"
    if "(key', pos', w) \<in> sh_done s" for q key' pos' w w'
    using doneD(2,3) [OF assms(6) that] u(3) by (auto split: if_splits)
  show ?thesis
  proof (cases b)
    case True
    then have key: "put_key (sh_pc s p) = Some key"
      using assms(1) by simp
    have "copy_ok s (sh_pc s p)"
      using assms(5) by (simp add: copies_ok_def)
    with assms(1) have "done_at u key pos v"
      using True tv flightsD(1) [OF assms(3) fl] keysD(1,2) [OF assms(4) key] u by (auto simp: done_at_def extent_def)
    moreover have "put_key (sh_pc u q) \<noteq> Some key" "flight (sh_pc u q) \<noteq> Some (pos, w)" for q w
      using keysD(3) [OF assms(4) key, of q] flightsD(2) [OF assms(3) fl, of q] u(3) by (auto split: if_splits)
    moreover have "(key, pos', w) \<notin> sh_done s" for pos' w
      using doneD(2) [OF assms(6)] key by blast
    ultimately show ?thesis
      using True old other doneD(4) [OF assms(6)] u(2) unfolding done_ok_def by (auto split: if_splits)
  next
    case False
    with old other doneD(4) [OF assms(6)] u(2) show ?thesis
      unfolding done_ok_def by auto
  qed
qed

lemma done_step:
  "text_step s s' \<Longrightarrow> counters_ok s \<Longrightarrow> flights_ok s \<Longrightarrow> keys_ok s \<Longrightarrow> touched_ok s \<Longrightarrow> copies_ok s \<Longrightarrow> done_ok s \<Longrightarrow> done_ok s'"
proof (induction rule: text_step.induct)
  case (begin_put p s v)
  then show ?case by (intro done_goto [OF begin_put.prems(6)]) (auto elim!: done_frame simp: extent_def)
next
  case (draw s p v key)
  have "key \<le> key + 1"
    using less_succ_iff [of key key] draw.hyps(2) counters_bounds(1) [OF draw.prems(1)] by auto
  moreover have "(key, pos, w) \<notin> sh_done s" for pos w
    using doneD(1) [OF draw.prems(6), of key pos w] draw.hyps(2) by (auto simp: done_at_def)
  ultimately show ?case
    using draw by (intro done_goto [OF draw.prems(6)]) (auto elim!: done_frame simp: extent_def)
next
  case (begin_replace p s v key)
  then show ?case by (intro done_goto [OF begin_replace.prems(6)]) (auto elim!: done_frame simp: extent_def)
next
  case (reserve s p b key v pos len)
  note ok = reserve_ok [OF reserve.prems(1) reserve.hyps]
  let ?s = "goto (s\<lparr>sh_store := (sh_store s)\<lparr>ts_cur_offset := pos + len\<rparr>,
        sh_own := (\<lambda>i. if unat pos \<le> i \<and> i \<le> unat pos + length v then unat pos else sh_own s i)\<rparr>) p
      (if pos + len \<le> of_nat STORE_SIZE then Reserved b key (unat pos) v else Aborted)"
  have old: "extent ?s pos' w" "pos' \<noteq> unat pos" if "extent s pos' w" for pos' w
    using extent_reserve [OF that, of pos ?s "unat pos + length v"] reserve.hyps ok(1) by simp_all
  have "(key', unat pos, w) \<notin> sh_done s" for key' w
    using old(2) done_extent [OF doneD(1) [OF reserve.prems(6)]] by blast
  moreover have "done_at ?s key' pos' w" if "done_at s key' pos' w" for key' pos' w
    using that by (rule done_frame) (use old in auto)
  ultimately show ?case
    using reserve by (intro done_goto [OF reserve.prems(6)]) auto
next
  case (point s p b key pos v)
  have "key' \<noteq> key" if "(key', pos', w) \<in> sh_done s" b for key' pos' w
    using doneD(2) [OF point.prems(6) that(1), of p] point.hyps that(2) by auto
  then have "unat key' \<noteq> unat key" if "(key', pos', w) \<in> sh_done s" "key' \<notin> sh_touched s" for key' pos' w
    using other_key [OF point.hyps point.prems(4)] that by blast
  with point show ?case
    by (intro done_goto [OF point.prems(6)]) (auto elim!: done_frame simp: extent_def)
next
  case (copy s p b key pos v i)
  then have fl: "flight (sh_pc s p) = Some (pos, v)" "i \<le> length v" by simp_all
  from copy show ?case
    by (intro done_goto [OF copy.prems(6)]) (auto intro: done_write [OF copy.prems(6,2) fl])
next
  case (finish s p b key pos v)
  then show ?case by (intro done_finish [OF finish.hyps finish.prems(1,2,3,5,6)]) simp_all
qed

lemma shared_inv_reach: "text_reach s \<Longrightarrow> shared_inv s"
proof (induction rule: text_reach.induct)
  case (step s s')
  then show ?case
    using counters_step flights_step keys_step touched_step copies_step done_step
    unfolding shared_inv_def by meson
qed (rule shared_inv_init)

section \<open>A put that is not disturbed\<close>

lemma wr_bytes_Cons: "wr_bytes m a (b # bs) = wr_bytes (m(a := b)) (Suc a) bs"
  by (auto simp: wr_bytes_def fun_eq_iff nth_Cons' Suc_le_eq)

lemma wr_bytes_snoc: "wr_bytes m a (bs @ [b]) = (wr_bytes m a bs)(a + length bs := b)"
  by (auto simp: wr_bytes_def fun_eq_iff nth_append)

lemma copy_all:
  assumes "text_reach s" "sh_pc s p = Copying b key pos v i" "i \<le> length v"
  shows "text_reach (goto (s\<lparr>sh_store := (sh_store s)\<lparr>ts_store := wr_bytes (ts_store (sh_store s)) (pos + i) (drop i v)\<rparr>\<rparr>) p
    (Copying b key pos v (length v)))"
  using assms
proof (induction "length v - i" arbitrary: i s)
  case 0
  then have "i = length v" by simp
  with 0 show ?case by (simp add: wr_bytes_Nil fun_upd_idem)
next
  case (Suc n)
  then have i: "i < length v" "n = length v - (i + 1)" by simp_all
  note st = text_reach.step [OF Suc.prems(1) text_step.copy [OF Suc.prems(2) i(1)]]
  from Suc.hyps(1) [OF i(2) st] i(1) show ?case
    by (simp add: Cons_nth_drop_Suc [OF i(1), symmetric] wr_bytes_Cons)
qed

text \<open>Undisturbed, the steps of a put compute \<open>ts_put\<close>.\<close>

lemma solo_put:
  assumes "text_reach s" "p < ops_worker_count" "sh_pc s p = Idle" "is_text v" "length v < 2 ^ 32 - 1"
    "ts_put v (sh_store s) = (Inr key, st')"
  shows "\<exists>s'. text_reach s' \<and> sh_store s' = st' \<and> sh_pc s' = sh_pc s \<and> sh_touched s' = sh_touched s
    \<and> (\<exists>pos. (key, pos, v) \<in> sh_done s')"
proof -
  let ?t = "sh_store s"
  let ?pos = "ts_cur_offset ?t" and ?len = "of_nat (length v + 1) :: u64"
  have key: "key = ts_cur_rid ?t" "unat key < TEXT_MAX_ELE_NUM"
    and fit: "?pos + ?len \<le> of_nat STORE_SIZE"
    and st': "st' = ?t\<lparr>ts_cur_rid := key + 1, ts_cur_offset := ?pos + ?len, ts_offsets := (ts_offsets ?t)(unat key := ?pos),
      ts_store := wr_bytes (ts_store ?t) (unat ?pos) (v @ [0])\<rparr>"
    using assms(4,6) by (auto simp: ts_put_def ts_write_def Let_def bindE_def ret_def split: if_splits)
  define s1 where "s1 = goto s p (PutStart v)"
  define s2 where "s2 = goto (s1\<lparr>sh_store := (sh_store s1)\<lparr>ts_cur_rid := key + 1\<rparr>\<rparr>) p (Keyed True key v)"
  define s3 where "s3 = goto (s2\<lparr>sh_store := (sh_store s2)\<lparr>ts_cur_offset := ?pos + ?len\<rparr>,
    sh_own := (\<lambda>i. if unat ?pos \<le> i \<and> i \<le> unat ?pos + length v then unat ?pos else sh_own s2 i)\<rparr>) p (Reserved True key (unat ?pos) v)"
  define s4 where "s4 = goto (s3\<lparr>sh_store := (sh_store s3)\<lparr>ts_offsets := (ts_offsets (sh_store s3))(unat key := ?pos)\<rparr>\<rparr>) p
    (Copying True key (unat ?pos) v 0)"
  define s5 where "s5 = goto (s4\<lparr>sh_store := (sh_store s4)\<lparr>ts_store := wr_bytes (ts_store (sh_store s4)) (unat ?pos) v\<rparr>\<rparr>) p
    (Copying True key (unat ?pos) v (length v))"
  define s6 where "s6 = goto (s5\<lparr>sh_store := (sh_store s5)\<lparr>ts_store := (ts_store (sh_store s5))(unat ?pos + length v := 0)\<rparr>,
    sh_done := insert (key, unat ?pos, v) (sh_done s5)\<rparr>) p Idle"
  have "text_step s s1" "text_step s1 s2" "text_step s2 s3" "text_step s3 s4"
    using text_step.begin_put [OF assms(2-5)] text_step.draw [of s1 p v key] text_step.reserve [of s2 p True key v ?pos ?len]
      text_step.point [of s3 p True key "unat ?pos" v] key fit
    by (simp_all add: s1_def s2_def s3_def s4_def)
  then have "text_reach s4"
    by (meson assms(1) text_reach.step)
  from copy_all [OF this, of p True key "unat ?pos" v 0] have "text_reach s5"
    by (simp add: s4_def s5_def)
  moreover have "text_step s5 s6"
    using text_step.finish [of s5 p True key "unat ?pos" v] by (simp add: s5_def s6_def)
  ultimately have "text_reach s6"
    by (rule text_reach.step)
  moreover have "sh_store s6 = st'" "sh_pc s6 = sh_pc s" "sh_touched s6 = sh_touched s" "(key, unat ?pos, v) \<in> sh_done s6"
    using assms(3) by (simp_all add: s6_def s5_def s4_def s3_def s2_def s1_def st' wr_bytes_snoc fun_upd_idem_iff)
  ultimately show ?thesis by blast
qed

section \<open>Properties\<close>


lemma first_put:
  assumes "is_text v" "length v < 2 ^ 32 - 1"
  shows "ts_put v ts_fresh = (Inr 0, \<lparr>ts_cur_rid = 1, ts_cur_offset = of_nat (length v + 1), ts_offsets = (\<lambda>_. 0)(0 := 0),
    ts_store = wr_bytes (\<lambda>_. 0) 0 (v @ [0])\<rparr>)"
proof -
  have "length v + 1 \<le> STORE_SIZE"
    using assms(2) by (simp add: text_store_sizes)
  then have "ts_fits v (ts_fresh\<lparr>ts_cur_rid := 1\<rparr>)"
    using assms(1) by (simp add: ts_fits_def ts_fresh_def)
  from ts_write_ok [OF this, of 0] assms(1) show ?thesis
    by (simp add: ts_put_def Let_def bindE_def ret_def ts_fresh_def text_store_sizes)
qed


text \<open>
  A replace points the key at its new position before it has written the string: another
  worker that reads the key in between sees neither the old string nor the new one, here the
  empty string instead of \<^verbatim>\<open>ab\<close> or \<^verbatim>\<open>cd\<close>.
\<close>

theorem replace_publishes_early:
  "\<exists>s pos. text_reach s \<and> (0, pos, [97, 98]) \<in> sh_done s \<and> sh_pc s 1 = Copying False 0 3 [99, 100] 0
    \<and> ts_get 0 (sh_store s) = (Inr [], sh_store s)"
proof -
  let ?w = "[99, 100] :: byte list"
  have n: "1 < ops_worker_count"
    by (simp add: ops_worker_count_def OPS_WORKER_NUM_def MAX_REGION_NUM_val)
  obtain s pos where s: "text_reach s" "sh_pc s 1 = Idle" "(0, pos, [97, 98]) \<in> sh_done s"
    "sh_store s = \<lparr>ts_cur_rid = 1, ts_cur_offset = 3, ts_offsets = (\<lambda>_. 0)(0 := 0), ts_store = wr_bytes (\<lambda>_. 0) 0 [97, 98, 0]\<rparr>"
    using solo_put [OF text_reach.init, of 0 "[97, 98]" 0] first_put [of "[97, 98]"] n
    by (auto simp: shared_init_def is_text_def)
  define s1 where "s1 = goto (s\<lparr>sh_touched := insert 0 (sh_touched s)\<rparr>) 1 (Keyed False 0 ?w)"
  define s2 where "s2 = goto (s1\<lparr>sh_store := (sh_store s1)\<lparr>ts_cur_offset := 6\<rparr>,
    sh_own := (\<lambda>i. if 3 \<le> i \<and> i \<le> 3 + length ?w then 3 else sh_own s1 i)\<rparr>) 1 (Reserved False 0 3 ?w)"
  define s3 where "s3 = goto (s2\<lparr>sh_store := (sh_store s2)\<lparr>ts_offsets := (ts_offsets (sh_store s2))(0 := 3)\<rparr>\<rparr>) 1 (Copying False 0 3 ?w 0)"
  have "text_step s s1"
    using text_step.begin_replace [OF n s(2), of ?w 0] by (simp add: s1_def is_text_def TEXT_MAX_ELE_NUM_def)
  moreover have "sh_pc s1 1 = Keyed False 0 ?w" "3 = ts_cur_offset (sh_store s1)" "(3 :: u64) = of_nat (length ?w + 1)"
    by (simp_all add: s1_def s(4))
  note reserved = text_step.reserve [OF this]
  have "unat (3 :: u64) = 3" "(3 :: u64) + 3 = 6" "(6 :: u64) \<le> of_nat STORE_SIZE"
    by (simp_all add: text_store_sizes)
  with reserved have "text_step s1 s2"
    by (simp only: s2_def if_True)
  moreover have "text_step s2 s3"
    using text_step.point [of s2 1 False 0 3 ?w] by (simp add: s2_def s3_def)
  ultimately have "text_reach s3"
    by (meson s(1) text_reach.step)
  moreover have "sh_store s3 = \<lparr>ts_cur_rid = 1, ts_cur_offset = 6, ts_offsets = (\<lambda>_. 0)(0 := 3), ts_store = wr_bytes (\<lambda>_. 0) 0 [97, 98, 0]\<rparr>"
    by (simp add: s3_def s2_def s1_def s(4))
  then have "ts_get 0 (sh_store s3) = (Inr [], sh_store s3)"
    by (simp add: ts_get_def ts_get_pos_def bindE_def read_cstr.simps [of _ 3] wr_bytes_def text_store_sizes)
  ultimately show ?thesis
    using s(3) by (intro exI [of _ s3] exI [of _ pos]) (simp add: s3_def s2_def s1_def)
qed

end
