(* ===== verification/Zeno_Kernel.thy ===== *)
theory Zeno_Kernel
  imports Zeno_Prelude "HOL-Library.State_Monad"
begin

text \<open>
  What the kernel modules under \<^verbatim>\<open>src/tools/drivers\<close> use of Linux. The kernel is not part of the
  repository: it is the parameter \<open>kern\<close> of every driver function, which answers each call, and may
  answer it differently each time. A driver function is a program of the state monad over the
  driver's own state and the trace of the calls it has made with their answers.

  The second half is the specification side: \<open>res_step\<close> says what each call acquires, releases and
  needs, by its documentation, and \<open>resources\<close> reads a trace as the resources held after it. A trace
  that releases what it does not hold, or touches memory that is free, has no such reading. The
  assertion \<open>post\<close> and its rules carry the proofs about driver functions.
\<close>

section \<open>Calls\<close>

datatype kmutex = MinorLock | InfoLock | PmuctlLock

text \<open>The objects of one device, named by the variable that points to them.\<close>

datatype kptr =
    Idev
  | MapDir
  | PortioDir
  | MapObj nat
  | PortObj nat
  | Listener
  | Info
  | IvshmemInfo
  | DevresPtr
  | CdevObj
  | PageBuf

datatype kcall =
    MutexLock kmutex
  | MutexUnlock kmutex
  | Kalloc kptr
  | Kfree kptr
  | KobjectCreateAndAdd kptr
  | KobjectInit kptr
  | KobjectAdd kptr
  | KobjectUevent kptr
  | KobjectPut "kptr option"
  | IdrAlloc
  | IdrFind int
  | IdrRemove int
  | IdrDestroy
  | DeviceInitialize
  | DevSetName
  | DeviceAdd
  | DeviceDel
  | DeviceUnregister
  | GetDevice
  | PutDevice
  | TryModuleGet
  | ModulePut
  | RequestIrq int
  | FreeIrq int
  | WakeUpInterruptible
  | KillFasync
  | FasyncHelper
  | InfoHandler int
  | InfoOpen
  | InfoRelease
  | InfoMmap
  | InfoIrqcontrol i32
  | CopyToUser "byte list"
  | CopyFromUser
  | AllocChrdevRegion
  | UnregisterChrdevRegion
  | CdevAlloc
  | CdevAdd
  | CdevDel
  | ClassRegister
  | ClassUnregister
  | DevresAlloc
  | DevresFree
  | DevresAdd
  | PciEnableDevice
  | PciRequestRegions
  | PciResourceStart
  | PciResourceLen
  | PciSetMaster
  | PciSetDrvdata "kptr option"
  | PciReleaseRegions
  | PciDisableDevice
  | VirtToPage u64
  | VmallocToPage u64
  | GetPage int
  | RemapPfnRange u64 u64 u64
  | MiscRegister
  | MiscDeregister

type_synonym ktrace = "(kcall \<times> int) list"
type_synonym kernel = "ktrace \<Rightarrow> kcall \<Rightarrow> int"
type_synonym ('s, 'a) drv = "('s \<times> ktrace, 'a) state"

abbreviation yield :: "'a \<Rightarrow> ('s, 'a) drv" where
  "yield \<equiv> State_Monad.return"

definition call :: "kernel \<Rightarrow> kcall \<Rightarrow> ('s, int) drv" where
  "call kern c = State (\<lambda>(s, tr). let r = kern tr c in (r, (s, tr @ [(c, r)])))"

definition look :: "('s \<Rightarrow> 'a) \<Rightarrow> ('s, 'a) drv" where
  "look f = State (\<lambda>(s, tr). (f s, (s, tr)))"

definition modify :: "('s \<Rightarrow> 's) \<Rightarrow> ('s, unit) drv" where
  "modify f = State (\<lambda>(s, tr). ((), (f s, tr)))"

definition ENOMEM :: int where "ENOMEM = 12"
definition EIO :: int where "EIO = 5"
definition E2BIG :: int where "E2BIG = 7"
definition EAGAIN :: int where "EAGAIN = 11"
definition EFAULT :: int where "EFAULT = 14"
definition ENODEV :: int where "ENODEV = 19"
definition EINVAL :: int where "EINVAL = 22"
definition ENOTTY :: int where "ENOTTY = 25"
definition ENOSPC :: int where "ENOSPC = 28"
definition ENOSYS :: int where "ENOSYS = 38"
definition ERESTARTSYS :: int where "ERESTARTSYS = 512"
definition EPROBE_DEFER :: int where "EPROBE_DEFER = 517"
definition ENOTSUPP :: int where "ENOTSUPP = 524"

lemmas errno_defs = ENOMEM_def EIO_def E2BIG_def EAGAIN_def EFAULT_def ENODEV_def EINVAL_def ENOTTY_def ENOSPC_def
  ENOSYS_def ERESTARTSYS_def EPROBE_DEFER_def ENOTSUPP_def

section \<open>Resources\<close>

datatype res =
    Mem kptr
  | Lock kmutex
  | Minor int
  | DevRef
  | DevAdded
  | Irq int
  | ModRef
  | Chrdev
  | CdevAdded
  | ClassReg
  | DevresAdded
  | PciEnabled
  | PciRegions
  | MiscReg

type_synonym held = "res \<Rightarrow> nat"

definition acq :: "res \<Rightarrow> held \<Rightarrow> held option" where
  "acq r M = Some (M(r := Suc (M r)))"

definition rel :: "res \<Rightarrow> held \<Rightarrow> held option" where
  "rel r M = (case M r of 0 \<Rightarrow> None | Suc n \<Rightarrow> Some (M(r := n)))"

definition use_of :: "res \<Rightarrow> held \<Rightarrow> held option" where
  "use_of r M = (if M r = 0 then None else Some M)"

text \<open>
  Dropping a reference to the device; the last one calls \<^verbatim>\<open>uio_device_release\<close>, which frees the
  structure. A mutex inside the device can only be used while the device is allocated.
\<close>

definition drop_ref :: "held \<Rightarrow> held option" where
  "drop_ref M = Option.bind (rel DevRef M) (\<lambda>M. if M DevRef = 0 then rel (Mem Idev) M else Some M)"

fun mutex_mem :: "kmutex \<Rightarrow> held \<Rightarrow> held option" where
  "mutex_mem InfoLock M = use_of (Mem Idev) M"
| "mutex_mem _ M = Some M"

fun res_step :: "kcall \<Rightarrow> int \<Rightarrow> held \<Rightarrow> held option" where
  "res_step (MutexLock l) r M = Option.bind (mutex_mem l M) (acq (Lock l))"
| "res_step (MutexUnlock l) r M = Option.bind (mutex_mem l M) (rel (Lock l))"
| "res_step (Kalloc p) r M = (if r = 0 then Some M else acq (Mem p) M)"
| "res_step (Kfree p) r M = rel (Mem p) M"
| "res_step (KobjectCreateAndAdd p) r M = (if r = 0 then Some M else acq (Mem p) M)"
| "res_step (KobjectInit p) r M = use_of (Mem p) M"
| "res_step (KobjectAdd p) r M = use_of (Mem p) M"
| "res_step (KobjectUevent p) r M = use_of (Mem p) M"
| "res_step (KobjectPut None) r M = Some M"
| "res_step (KobjectPut (Some p)) r M = rel (Mem p) M"
| "res_step IdrAlloc r M = (if 0 \<le> r then acq (Minor r) M else Some M)"
| "res_step (IdrRemove n) r M = rel (Minor n) M"
| "res_step DeviceInitialize r M = Option.bind (use_of (Mem Idev) M) (acq DevRef)"
| "res_step DevSetName r M = use_of DevRef M"
| "res_step DeviceAdd r M = Option.bind (use_of DevRef M) (if r = 0 then acq DevAdded else Some)"
| "res_step DeviceDel r M = rel DevAdded M"
| "res_step DeviceUnregister r M = Option.bind (rel DevAdded M) drop_ref"
| "res_step GetDevice r M = Option.bind (use_of (Mem Idev) M) (acq DevRef)"
| "res_step PutDevice r M = drop_ref M"
| "res_step TryModuleGet r M = Option.bind (use_of (Mem Idev) M) (if r = 0 then Some else acq ModRef)"
| "res_step ModulePut r M = Option.bind (use_of (Mem Idev) M) (rel ModRef)"
| "res_step (RequestIrq n) r M = Option.bind (use_of (Mem Idev) M) (if r = 0 then acq (Irq n) else Some)"
| "res_step (FreeIrq n) r M = rel (Irq n) M"
| "res_step WakeUpInterruptible r M = use_of (Mem Idev) M"
| "res_step KillFasync r M = use_of (Mem Idev) M"
| "res_step FasyncHelper r M = use_of (Mem Idev) M"
| "res_step AllocChrdevRegion r M = (if r = 0 then acq Chrdev M else Some M)"
| "res_step UnregisterChrdevRegion r M = rel Chrdev M"
| "res_step CdevAlloc r M = (if r = 0 then Some M else acq (Mem CdevObj) M)"
| "res_step CdevAdd r M = Option.bind (use_of (Mem CdevObj) M) (if r = 0 then acq CdevAdded else Some)"
| "res_step CdevDel r M = Option.bind (rel CdevAdded M) (rel (Mem CdevObj))"
| "res_step ClassRegister r M = (if r = 0 then acq ClassReg M else Some M)"
| "res_step ClassUnregister r M = rel ClassReg M"
| "res_step DevresAlloc r M = (if r = 0 then Some M else acq (Mem DevresPtr) M)"
| "res_step DevresFree r M = rel (Mem DevresPtr) M"
| "res_step DevresAdd r M = Option.bind (rel (Mem DevresPtr) M) (acq DevresAdded)"
| "res_step PciEnableDevice r M = (if r = 0 then acq PciEnabled M else Some M)"
| "res_step PciRequestRegions r M = (if r = 0 then acq PciRegions M else Some M)"
| "res_step PciReleaseRegions r M = rel PciRegions M"
| "res_step PciDisableDevice r M = rel PciEnabled M"
| "res_step MiscRegister r M = (if r = 0 then acq MiscReg M else Some M)"
| "res_step MiscDeregister r M = rel MiscReg M"
| "res_step _ r M = Some M"

definition res_steps :: "ktrace \<Rightarrow> held \<Rightarrow> held option" where
  "res_steps tr M = fold (\<lambda>(c, r) H. Option.bind H (res_step c r)) tr (Some M)"

abbreviation resources :: "ktrace \<Rightarrow> held option" where
  "resources tr \<equiv> res_steps tr (\<lambda>_. 0)"

lemma res_steps_Nil [simp]: "res_steps [] = Some"
  by (rule ext) (simp add: res_steps_def)

lemma fold_failed: "fold (\<lambda>(c, r) H. Option.bind H (res_step c r)) tr None = None"
  by (induction tr) auto

lemma res_steps_Cons [simp]: "res_steps ((c, r) # tr) M = Option.bind (res_step c r M) (res_steps tr)"
  by (cases "res_step c r M") (simp_all add: res_steps_def fold_failed)

lemma res_steps_append [simp]: "res_steps (tr @ tr') M = Option.bind (res_steps tr M) (res_steps tr')"
  by (induction tr arbitrary: M) (auto split: bind_split)

text \<open>The resources of a set, held once each on top of \<open>M\<close>.\<close>

definition also_held :: "res set \<Rightarrow> held \<Rightarrow> held" where
  "also_held A M = (\<lambda>r. if r \<in> A then Suc (M r) else M r)"

lemma also_held_empty [simp]: "also_held {} M = M"
  by (simp add: also_held_def)

lemma also_held_in [simp]: "r \<in> A \<Longrightarrow> also_held A M r = Suc (M r)"
  and also_held_out [simp]: "r \<notin> A \<Longrightarrow> also_held A M r = M r"
  by (simp_all add: also_held_def)

lemma acq_also [simp]: "r \<notin> A \<Longrightarrow> acq r (also_held A M) = Some (also_held (insert r A) M)"
  by (auto simp: acq_def also_held_def)

lemma rel_also [simp]: "r \<in> A \<Longrightarrow> rel r (also_held A M) = Some (also_held (A - {r}) M)"
  by (auto simp: rel_def also_held_def)

lemma use_also [simp]: "r \<in> A \<Longrightarrow> use_of r (also_held A M) = Some (also_held A M)"
  by (simp add: use_of_def)

lemma also_held_also: "A \<inter> B = {} \<Longrightarrow> also_held A (also_held B M) = also_held (A \<union> B) M"
  by (rule ext) (auto simp: also_held_def)

section \<open>Assertions\<close>

text \<open>What holds of the answer and the state after a driver program.\<close>

definition post :: "('s, 'a) drv \<Rightarrow> ('a \<Rightarrow> 's \<times> ktrace \<Rightarrow> bool) \<Rightarrow> 's \<times> ktrace \<Rightarrow> bool" where
  "post m Q z \<longleftrightarrow> (case run_state m z of (a, z') \<Rightarrow> Q a z')"

named_theorems drv_post

lemma post_yield [drv_post]: "post (yield a) Q z \<longleftrightarrow> Q a z"
  by (simp add: post_def)

lemma post_bind [drv_post]: "post (State_Monad.bind m f) Q z \<longleftrightarrow> post m (\<lambda>a. post (f a) Q) z"
  by (simp add: post_def split: prod.splits)

lemma post_bind_fun: "post (State_Monad.bind m f) Q = post m (\<lambda>a. post (f a) Q)"
  by (rule ext) (rule post_bind)

lemma post_look [drv_post]: "post (look f) Q (s, tr) \<longleftrightarrow> Q (f s) (s, tr)"
  by (simp add: post_def look_def)

lemma post_modify [drv_post]: "post (modify f) Q (s, tr) \<longleftrightarrow> Q () (f s, tr)"
  by (simp add: post_def modify_def)

lemma post_if [drv_post]: "post (if b then m else n) Q z \<longleftrightarrow> (if b then post m Q z else post n Q z)"
  by simp

lemma post_let [drv_post]: "post (Let v f) Q z \<longleftrightarrow> post (f v) Q z"
  by simp

lemma post_mono: "post m Q z \<Longrightarrow> (\<And>a z'. Q a z' \<Longrightarrow> R a z') \<Longrightarrow> post m R z"
  by (auto simp: post_def split: prod.splits)

lemma postD: "post m Q z \<Longrightarrow> run_state m z = (a, z') \<Longrightarrow> Q a z'"
  by (simp add: post_def)

lemma post_run: "(\<And>a z'. run_state m z = (a, z') \<Longrightarrow> Q a z') \<Longrightarrow> post m Q z"
  by (auto simp: post_def split: prod.splits)

lemma post_call_eq: "post (call kern c) Q (s, tr) \<longleftrightarrow> Q (kern tr c) (s, tr @ [(c, kern tr c)])"
  by (simp add: post_def call_def Let_def)

text \<open>
  A call: whatever the kernel answers. Only the resources held matter to what follows, so the
  trace is forgotten.
\<close>

lemma post_call:
  assumes "res_steps tr M = Some K" "\<And>r. res_step c r K = Some K'" "\<And>r tr'. res_steps tr' M = Some K' \<Longrightarrow> Q r (s, tr')"
  shows "post (call kern c) Q (s, tr)"
  using assms by (simp add: post_call_eq)

lemma post_call_any:
  assumes "res_steps tr M = Some K" "\<And>r tr'. res_steps tr' M = res_step c r K \<Longrightarrow> Q r (s, tr')"
  shows "post (call kern c) Q (s, tr)"
  using assms by (simp add: post_call_eq)

text \<open>A call whose effect depends on whether it answers 0.\<close>

lemma post_call_split:
  assumes "res_steps tr M = Some K" "res_step c 0 K = Some K'" "\<And>r. r \<noteq> 0 \<Longrightarrow> res_step c r K = Some L"
    and "\<And>tr'. res_steps tr' M = Some K' \<Longrightarrow> Q 0 (s, tr')" "\<And>r tr'. r \<noteq> 0 \<Longrightarrow> res_steps tr' M = Some L \<Longrightarrow> Q r (s, tr')"
  shows "post (call kern c) Q (s, tr)"
  using assms by (cases "kern tr c = 0") (simp_all add: post_call_eq)

end
