(* ===== verification/Zeno_Uio.thy ===== *)
theory Zeno_Uio
  imports Zeno_Kernel
begin

text \<open>
  The userspace I/O module the repository carries with one change (\<^verbatim>\<open>uio.c\<close>) and the driver that
  exports the shared memory of the virtual machine through it (\<^verbatim>\<open>uio-ivshmem.c\<close>, both under
  \<^verbatim>\<open>src/tools/drivers/ivshmem-driver\<close>): registration of the class and of a device, with every error
  path, and their reverse.

  The arrays \<^verbatim>\<open>mem\<close> and \<^verbatim>\<open>port\<close> of \<^verbatim>\<open>uio_info\<close> are lists, whose lengths are \<^verbatim>\<open>MAX_UIO_MAPS\<close> and
  \<^verbatim>\<open>MAX_UIO_PORT_REGIONS\<close>. A pointer field is the flag that it is not NULL. \<open>listener_count\<close> is the
  \<^verbatim>\<open>event_count\<close> of the listener of one open file.
\<close>

section \<open>State\<close>

datatype uio_memtype = UIO_MEM_NONE | UIO_MEM_PHYS | UIO_MEM_LOGICAL | UIO_MEM_VIRTUAL | UIO_MEM_IOVA

record uio_mem =
  mem_name :: "string option"
  mem_addr :: u64
  mem_offs :: u64
  mem_size :: u64
  mem_memtype :: uio_memtype
  mem_map :: bool

record uio_port =
  port_name :: "string option"
  port_start :: u64
  port_size :: u64
  port_porttype :: int
  port_portio :: bool

record uio_info =
  info_name :: "string option"
  info_version :: "string option"
  info_mem :: "uio_mem list"
  info_port :: "uio_port list"
  info_irq :: int
  info_has_open :: bool
  info_has_release :: bool
  info_has_mmap :: bool
  info_has_irqcontrol :: bool
  info_uio_dev :: bool

record uio_device =
  idev_minor :: int
  idev_event :: i32
  idev_info :: bool
  idev_map_dir :: bool
  idev_portio_dir :: bool

record uio_state =
  class_registered :: bool
  ucdev :: bool
  uinfo :: uio_info
  uidev :: uio_device
  listener_count :: i32

definition UIO_IRQ_CUSTOM :: int where "UIO_IRQ_CUSTOM = -1"

definition zeroed_device :: uio_device where
  "zeroed_device = \<lparr>idev_minor = 0, idev_event = 0, idev_info = False, idev_map_dir = False, idev_portio_dir = False\<rparr>"

abbreviation upd_info :: "(uio_info \<Rightarrow> uio_info) \<Rightarrow> (uio_state, unit) drv" where
  "upd_info f \<equiv> modify (\<lambda>s. s\<lparr>uinfo := f (uinfo s)\<rparr>)"

abbreviation upd_idev :: "(uio_device \<Rightarrow> uio_device) \<Rightarrow> (uio_state, unit) drv" where
  "upd_idev f \<equiv> modify (\<lambda>s. s\<lparr>uidev := f (uidev s)\<rparr>)"

section \<open>The attribute directories of a device\<close>

text \<open>
  The two loops of \<^verbatim>\<open>uio_dev_add_attributes\<close> are the same code on two arrays: \<open>dir\<close> is the directory,
  \<open>ent\<close> the entry of an index, \<open>sizes\<close> the sizes of the array from index \<open>i\<close> on. A loop ends at the
  first empty slot, or leaves by \<^verbatim>\<open>goto err_map\<close> or \<^verbatim>\<open>goto err_map_kobj\<close> with its index.
\<close>

datatype attr_exit = Complete nat | ErrEntry nat int | ErrEntryKobj nat int

definition add_dir :: "kernel \<Rightarrow> kptr \<Rightarrow> (bool \<Rightarrow> uio_state \<Rightarrow> uio_state) \<Rightarrow> bool \<Rightarrow> (uio_state, bool) drv" where
  "add_dir kern dir set_dir found =
    (if found then yield True
     else do {
       r \<leftarrow> call kern (KobjectCreateAndAdd dir);
       modify (set_dir (r \<noteq> 0));
       yield (r \<noteq> 0)
     })"

definition add_entry :: "kernel \<Rightarrow> (nat \<Rightarrow> kptr) \<Rightarrow> (nat \<Rightarrow> uio_state \<Rightarrow> uio_state) \<Rightarrow> nat \<Rightarrow> (uio_state, attr_exit option) drv" where
  "add_entry kern ent set_ent i = do {
     r \<leftarrow> call kern (Kalloc (ent i));
     if r = 0 then yield (Some (ErrEntry i (- ENOMEM)))
     else do {
       call kern (KobjectInit (ent i));
       modify (set_ent i);
       r \<leftarrow> call kern (KobjectAdd (ent i));
       if r \<noteq> 0 then yield (Some (ErrEntryKobj i r))
       else do {
         r \<leftarrow> call kern (KobjectUevent (ent i));
         if r \<noteq> 0 then yield (Some (ErrEntryKobj i r)) else yield None
       }
     }
   }"

fun add_entries :: "kernel \<Rightarrow> kptr \<Rightarrow> (nat \<Rightarrow> kptr) \<Rightarrow> (bool \<Rightarrow> uio_state \<Rightarrow> uio_state) \<Rightarrow> (nat \<Rightarrow> uio_state \<Rightarrow> uio_state)
    \<Rightarrow> nat \<Rightarrow> bool \<Rightarrow> u64 list \<Rightarrow> (uio_state, attr_exit) drv" where
  "add_entries kern dir ent set_dir set_ent i found [] = yield (Complete i)"
| "add_entries kern dir ent set_dir set_ent i found (sz # sizes) =
    (if sz = 0 then yield (Complete i)
     else do {
       have_dir \<leftarrow> add_dir kern dir set_dir found;
       if \<not> have_dir then yield (ErrEntry i (- ENOMEM))
       else do {
         x \<leftarrow> add_entry kern ent set_ent i;
         case x of
           Some exit \<Rightarrow> yield exit
         | None \<Rightarrow> add_entries kern dir ent set_dir set_ent (Suc i) True sizes
       }
     })"

definition set_map_dir :: "bool \<Rightarrow> uio_state \<Rightarrow> uio_state" where
  "set_map_dir b s = s\<lparr>uidev := (uidev s)\<lparr>idev_map_dir := b\<rparr>\<rparr>"

definition set_map :: "nat \<Rightarrow> uio_state \<Rightarrow> uio_state" where
  "set_map i s = s\<lparr>uinfo := (uinfo s)\<lparr>info_mem := (info_mem (uinfo s))[i := (info_mem (uinfo s) ! i)\<lparr>mem_map := True\<rparr>]\<rparr>\<rparr>"

definition set_portio_dir :: "bool \<Rightarrow> uio_state \<Rightarrow> uio_state" where
  "set_portio_dir b s = s\<lparr>uidev := (uidev s)\<lparr>idev_portio_dir := b\<rparr>\<rparr>"

definition set_portio :: "nat \<Rightarrow> uio_state \<Rightarrow> uio_state" where
  "set_portio i s = s\<lparr>uinfo := (uinfo s)\<lparr>info_port := (info_port (uinfo s))[i := (info_port (uinfo s) ! i)\<lparr>port_portio := True\<rparr>]\<rparr>\<rparr>"

definition map_sizes :: "uio_state \<Rightarrow> u64 list" where
  "map_sizes s = map mem_size (info_mem (uinfo s))"

definition portio_sizes :: "uio_state \<Rightarrow> u64 list" where
  "portio_sizes s = map port_size (info_port (uinfo s))"

definition add_maps :: "kernel \<Rightarrow> (uio_state, attr_exit) drv" where
  "add_maps kern = do {
     sizes \<leftarrow> look map_sizes;
     add_entries kern MapDir MapObj set_map_dir set_map 0 False sizes
   }"

definition add_portios :: "kernel \<Rightarrow> (uio_state, attr_exit) drv" where
  "add_portios kern = do {
     sizes \<leftarrow> look portio_sizes;
     add_entries kern PortioDir PortObj set_portio_dir set_portio 0 False sizes
   }"

text \<open>
  The loop that drops the entries below an index, from the last one down, and then the directory;
  \<open>dir_set\<close> and \<open>ent_set\<close> read the two pointer fields, and a NULL pointer is passed on as such.
\<close>

definition some_if :: "bool \<Rightarrow> 'a \<Rightarrow> 'a option" where
  "some_if b a = (if b then Some a else None)"

fun put_entries :: "kernel \<Rightarrow> kptr \<Rightarrow> (nat \<Rightarrow> kptr) \<Rightarrow> (uio_state \<Rightarrow> bool) \<Rightarrow> (nat \<Rightarrow> uio_state \<Rightarrow> bool)
    \<Rightarrow> nat \<Rightarrow> (uio_state, int) drv" where
  "put_entries kern dir ent dir_set ent_set 0 = do { d \<leftarrow> look dir_set; call kern (KobjectPut (some_if d dir)) }"
| "put_entries kern dir ent dir_set ent_set (Suc i) = do {
     e \<leftarrow> look (ent_set i);
     call kern (KobjectPut (some_if e (ent i)));
     put_entries kern dir ent dir_set ent_set i
   }"

definition map_set :: "nat \<Rightarrow> uio_state \<Rightarrow> bool" where
  "map_set i s = mem_map (info_mem (uinfo s) ! i)"

definition portio_set :: "nat \<Rightarrow> uio_state \<Rightarrow> bool" where
  "portio_set i s = port_portio (info_port (uinfo s) ! i)"

definition err_map :: "kernel \<Rightarrow> nat \<Rightarrow> int \<Rightarrow> (uio_state, int) drv" where
  "err_map kern n rv = do { put_entries kern MapDir MapObj (idev_map_dir \<circ> uidev) map_set n; yield rv }"

definition err_portio :: "kernel \<Rightarrow> nat \<Rightarrow> nat \<Rightarrow> int \<Rightarrow> (uio_state, int) drv" where
  "err_portio kern n mi rv = do {
     put_entries kern PortioDir PortObj (idev_portio_dir \<circ> uidev) portio_set n;
     err_map kern mi rv
   }"

definition uio_dev_add_attributes :: "kernel \<Rightarrow> (uio_state, int) drv" where
  "uio_dev_add_attributes kern = do {
     m \<leftarrow> add_maps kern;
     case m of
       ErrEntry mi rv \<Rightarrow> err_map kern mi rv
     | ErrEntryKobj mi rv \<Rightarrow> err_map kern (Suc mi) rv
     | Complete mi \<Rightarrow> do {
         p \<leftarrow> add_portios kern;
         case p of
           ErrEntry pi rv \<Rightarrow> err_portio kern pi mi rv
         | ErrEntryKobj pi rv \<Rightarrow> err_portio kern (Suc pi) mi rv
         | Complete pi \<Rightarrow> yield 0
       }
   }"

text \<open>
  The loop of \<^verbatim>\<open>uio_dev_del_attributes\<close> over one array, given as the sizes and pointer fields of its
  slots.
\<close>

fun del_entries :: "kernel \<Rightarrow> (nat \<Rightarrow> kptr) \<Rightarrow> nat \<Rightarrow> (u64 \<times> bool) list \<Rightarrow> (uio_state, unit) drv" where
  "del_entries kern ent i [] = yield ()"
| "del_entries kern ent i ((sz, e) # slots) =
    (if sz = 0 then yield ()
     else do { call kern (KobjectPut (some_if e (ent i))); del_entries kern ent (Suc i) slots })"

definition uio_dev_del_attributes :: "kernel \<Rightarrow> (uio_state, unit) drv" where
  "uio_dev_del_attributes kern = do {
     slots \<leftarrow> look (\<lambda>s. map (\<lambda>m. (mem_size m, mem_map m)) (info_mem (uinfo s)));
     del_entries kern MapObj 0 slots;
     d \<leftarrow> look (idev_map_dir \<circ> uidev);
     call kern (KobjectPut (some_if d MapDir));
     slots \<leftarrow> look (\<lambda>s. map (\<lambda>p. (port_size p, port_portio p)) (info_port (uinfo s)));
     del_entries kern PortObj 0 slots;
     d \<leftarrow> look (idev_portio_dir \<circ> uidev);
     call kern (KobjectPut (some_if d PortioDir));
     yield ()
   }"

section \<open>Minor numbers\<close>

definition uio_get_minor :: "kernel \<Rightarrow> (uio_state, int) drv" where
  "uio_get_minor kern = do {
     call kern (MutexLock MinorLock);
     retval \<leftarrow> call kern IdrAlloc;
     retval \<leftarrow> (if 0 \<le> retval then do { upd_idev (idev_minor_update (\<lambda>_. retval)); yield 0 }
       else if retval = - ENOSPC then yield (- EINVAL)
       else yield retval);
     call kern (MutexUnlock MinorLock);
     yield retval
   }"

definition uio_free_minor :: "kernel \<Rightarrow> int \<Rightarrow> (uio_state, unit) drv" where
  "uio_free_minor kern minor = do {
     call kern (MutexLock MinorLock);
     call kern (IdrRemove minor);
     call kern (MutexUnlock MinorLock);
     yield ()
   }"

section \<open>The class\<close>

definition uio_major_init :: "kernel \<Rightarrow> (uio_state, int) drv" where
  "uio_major_init kern = do {
     result \<leftarrow> call kern AllocChrdevRegion;
     if result \<noteq> 0 then yield result
     else do {
       cdev \<leftarrow> call kern CdevAlloc;
       if cdev = 0 then do { call kern UnregisterChrdevRegion; yield (- ENOMEM) }
       else do {
         result \<leftarrow> call kern CdevAdd;
         if result \<noteq> 0 then do {
           call kern (KobjectPut (Some CdevObj));
           call kern UnregisterChrdevRegion;
           yield result
         }
         else do { modify (ucdev_update (\<lambda>_. True)); yield 0 }
       }
     }
   }"

definition uio_major_cleanup :: "kernel \<Rightarrow> (uio_state, unit) drv" where
  "uio_major_cleanup kern = do { call kern UnregisterChrdevRegion; call kern CdevDel; yield () }"

definition init_uio_class :: "kernel \<Rightarrow> (uio_state, int) drv" where
  "init_uio_class kern = do {
     rv \<leftarrow> uio_major_init kern;
     if rv \<noteq> 0 then yield rv
     else do {
       rv \<leftarrow> call kern ClassRegister;
       if rv \<noteq> 0 then do { uio_major_cleanup kern; yield rv }
       else do { modify (class_registered_update (\<lambda>_. True)); yield 0 }
     }
   }"

definition release_uio_class :: "kernel \<Rightarrow> (uio_state, unit) drv" where
  "release_uio_class kern = do {
     modify (class_registered_update (\<lambda>_. False));
     call kern ClassUnregister;
     uio_major_cleanup kern
   }"

definition uio_init :: "kernel \<Rightarrow> (uio_state, int) drv" where
  "uio_init kern = init_uio_class kern"

definition uio_exit :: "kernel \<Rightarrow> (uio_state, unit) drv" where
  "uio_exit kern = do { release_uio_class kern; call kern IdrDestroy; yield () }"

section \<open>Devices\<close>

definition wants_irq :: "uio_info \<Rightarrow> bool" where
  "wants_irq i \<longleftrightarrow> info_irq i \<noteq> 0 \<and> info_irq i \<noteq> UIO_IRQ_CUSTOM"

text \<open>The error exits of the registration, each falling through to the next.\<close>

definition err_device_create :: "kernel \<Rightarrow> int \<Rightarrow> (uio_state, int) drv" where
  "err_device_create kern rv = do {
     minor \<leftarrow> look (idev_minor \<circ> uidev);
     uio_free_minor kern minor;
     call kern PutDevice;
     yield rv
   }"

definition err_uio_dev_add_attributes :: "kernel \<Rightarrow> int \<Rightarrow> (uio_state, int) drv" where
  "err_uio_dev_add_attributes kern rv = do { call kern DeviceDel; err_device_create kern rv }"

definition err_request_irq :: "kernel \<Rightarrow> int \<Rightarrow> (uio_state, int) drv" where
  "err_request_irq kern rv = do { uio_dev_del_attributes kern; err_uio_dev_add_attributes kern rv }"

text \<open>
  The registration in three parts: the interrupt, the device with its attributes, and the checks
  and allocations before them.
\<close>

definition register_irq :: "kernel \<Rightarrow> (uio_state, int) drv" where
  "register_irq kern = do {
     upd_info (info_uio_dev_update (\<lambda>_. True));
     i \<leftarrow> look uinfo;
     if wants_irq i then do {
       rv \<leftarrow> call kern (RequestIrq (info_irq i));
       if rv \<noteq> 0 then do {
         upd_info (info_uio_dev_update (\<lambda>_. False));
         err_request_irq kern rv
       }
       else yield 0
     }
     else yield 0
   }"

definition register_dev :: "kernel \<Rightarrow> (uio_state, int) drv" where
  "register_dev kern = do {
     call kern DeviceInitialize;
     rv \<leftarrow> call kern DevSetName;
     if rv \<noteq> 0 then err_device_create kern rv
     else do {
       rv \<leftarrow> call kern DeviceAdd;
       if rv \<noteq> 0 then err_device_create kern rv
       else do {
         rv \<leftarrow> uio_dev_add_attributes kern;
         if rv \<noteq> 0 then err_uio_dev_add_attributes kern rv
         else register_irq kern
       }
     }
   }"

definition uio_register_device :: "kernel \<Rightarrow> bool \<Rightarrow> bool \<Rightarrow> (uio_state, int) drv" where
  "uio_register_device kern parent info = do {
     registered \<leftarrow> look class_registered;
     name \<leftarrow> look (info_name \<circ> uinfo);
     version \<leftarrow> look (info_version \<circ> uinfo);
     if \<not> registered then yield (- EPROBE_DEFER)
     else if \<not> parent \<or> \<not> info \<or> name = None \<or> version = None then yield (- EINVAL)
     else do {
       upd_info (info_uio_dev_update (\<lambda>_. False));
       idev \<leftarrow> call kern (Kalloc Idev);
       if idev = 0 then yield (- ENOMEM)
       else do {
         upd_idev (\<lambda>_. zeroed_device\<lparr>idev_info := True, idev_event := 0\<rparr>);
         rv \<leftarrow> uio_get_minor kern;
         if rv \<noteq> 0 then do { call kern (Kfree Idev); yield rv }
         else register_dev kern
       }
     }
   }"

definition uio_unregister_device :: "kernel \<Rightarrow> bool \<Rightarrow> (uio_state, unit) drv" where
  "uio_unregister_device kern info = do {
     i \<leftarrow> look uinfo;
     if \<not> info \<or> \<not> info_uio_dev i then yield ()
     else do {
       minor \<leftarrow> look (idev_minor \<circ> uidev);
       call kern (MutexLock InfoLock);
       uio_dev_del_attributes kern;
       (if wants_irq i then call kern (FreeIrq (info_irq i)) else yield 0);
       upd_idev (idev_info_update (\<lambda>_. False));
       call kern (MutexUnlock InfoLock);
       call kern WakeUpInterruptible;
       call kern KillFasync;
       call kern DeviceUnregister;
       uio_free_minor kern minor
     }
   }"

definition devm_uio_unregister_device :: "kernel \<Rightarrow> (uio_state, unit) drv" where
  "devm_uio_unregister_device kern = uio_unregister_device kern True"

definition devm_uio_register_device :: "kernel \<Rightarrow> bool \<Rightarrow> bool \<Rightarrow> (uio_state, int) drv" where
  "devm_uio_register_device kern parent info = do {
     ptr \<leftarrow> call kern DevresAlloc;
     if ptr = 0 then yield (- ENOMEM)
     else do {
       rv \<leftarrow> uio_register_device kern parent info;
       if rv \<noteq> 0 then do { call kern DevresFree; yield rv }
       else do { call kern DevresAdd; yield 0 }
     }
   }"

section \<open>The shared-memory device\<close>

text \<open>A \<^verbatim>\<open>uio_info\<close> from \<^verbatim>\<open>kzalloc\<close>: everything is zero, and the arrays have their sizes.\<close>

definition zeroed_mem :: uio_mem where
  "zeroed_mem = \<lparr>mem_name = None, mem_addr = 0, mem_offs = 0, mem_size = 0, mem_memtype = UIO_MEM_NONE, mem_map = False\<rparr>"

definition zeroed_port :: uio_port where
  "zeroed_port = \<lparr>port_name = None, port_start = 0, port_size = 0, port_porttype = 0, port_portio = False\<rparr>"

definition MAX_UIO_MAPS :: nat where "MAX_UIO_MAPS = 5"
definition MAX_UIO_PORT_REGIONS :: nat where "MAX_UIO_PORT_REGIONS = 5"

definition zeroed_info :: uio_info where
  "zeroed_info = \<lparr>info_name = None, info_version = None, info_mem = replicate MAX_UIO_MAPS zeroed_mem,
     info_port = replicate MAX_UIO_PORT_REGIONS zeroed_port, info_irq = 0, info_has_open = False, info_has_release = False,
     info_has_mmap = False, info_has_irqcontrol = False, info_uio_dev = False\<rparr>"

definition out_free :: "kernel \<Rightarrow> (uio_state, int) drv" where
  "out_free kern = do { call kern (Kfree IvshmemInfo); call kern (Kfree Info); yield (- ENODEV) }"

definition out_disable :: "kernel \<Rightarrow> (uio_state, int) drv" where
  "out_disable kern = do { call kern PciDisableDevice; out_free kern }"

definition out_unmap :: "kernel \<Rightarrow> (uio_state, int) drv" where
  "out_unmap kern = do { call kern PciReleaseRegions; out_disable kern }"

definition ivshmem_pci_probe :: "kernel \<Rightarrow> (uio_state, int) drv" where
  "ivshmem_pci_probe kern = do {
     info \<leftarrow> call kern (Kalloc Info);
     if info = 0 then yield (- ENOMEM)
     else do {
       upd_info (\<lambda>_. zeroed_info);
       ivshmem_info \<leftarrow> call kern (Kalloc IvshmemInfo);
       if ivshmem_info = 0 then do { call kern (Kfree Info); yield (- ENOMEM) }
       else do {
         r \<leftarrow> call kern PciEnableDevice;
         if r \<noteq> 0 then out_free kern
         else do {
           r \<leftarrow> call kern PciRequestRegions;
           if r \<noteq> 0 then out_disable kern
           else do {
             addr \<leftarrow> call kern PciResourceStart;
             upd_info (info_mem_update (\<lambda>ms. ms[0 := (ms ! 0)\<lparr>mem_addr := of_int addr\<rparr>]));
             if of_int addr = (0 :: u64) then out_unmap kern
             else do {
               size \<leftarrow> call kern PciResourceLen;
               upd_info (info_mem_update (\<lambda>ms. ms[0 := (ms ! 0)\<lparr>mem_size := of_int size, mem_memtype := UIO_MEM_PHYS,
                 mem_name := Some ''shmem''\<rparr>]));
               call kern PciSetMaster;
               upd_info (info_name_update (\<lambda>_. Some ''uio_ivshmem'') \<circ> info_version_update (\<lambda>_. Some ''0.0.1''));
               r \<leftarrow> uio_register_device kern True True;
               if r \<noteq> 0 then out_unmap kern
               else do { call kern (PciSetDrvdata (Some IvshmemInfo)); yield 0 }
             }
           }
         }
       }
     }
   }"

definition ivshmem_pci_remove :: "kernel \<Rightarrow> (uio_state, unit) drv" where
  "ivshmem_pci_remove kern = do {
     call kern (PciSetDrvdata None);
     uio_unregister_device kern True;
     call kern PciReleaseRegions;
     call kern PciDisableDevice;
     call kern (Kfree Info);
     call kern (Kfree IvshmemInfo);
     yield ()
   }"

end
