(* ===== verification/Zeno_Uio_Resources.thy ===== *)
theory Zeno_Uio_Resources
  imports Zeno_Uio
begin

text \<open>
  That the userspace I/O module and the shared-memory driver give back what they take: whatever the
  kernel answers, a registration or probe that fails leaves the resources as they were, and one that
  succeeds leaves exactly what its reverse gives back. The locale \<open>attr_dir\<close> is the contract of one
  attribute directory of a device, with its two pointer fields; it is interpreted for the memory
  maps and for the port regions.
\<close>

section \<open>One attribute directory\<close>

definition live :: "u64 list \<Rightarrow> nat" where
  "live sizes = length (takeWhile (\<lambda>sz. sz \<noteq> 0) sizes)"

lemma live_simps [simp]: "live [] = 0" "live (sz # sizes) = (if sz = 0 then 0 else Suc (live sizes))"
  by (simp_all add: live_def)

locale attr_dir =
  fixes dir :: kptr and ent :: "nat \<Rightarrow> kptr"
    and set_dir :: "bool \<Rightarrow> uio_state \<Rightarrow> uio_state" and set_ent :: "nat \<Rightarrow> uio_state \<Rightarrow> uio_state"
    and dir_set :: "uio_state \<Rightarrow> bool" and ent_set :: "nat \<Rightarrow> uio_state \<Rightarrow> bool"
    and sizes :: "uio_state \<Rightarrow> u64 list"
  assumes ent_inj: "ent i = ent j \<Longrightarrow> i = j"
    and dir_ent: "dir \<noteq> ent i"
    and dir_set_dir: "dir_set (set_dir b s) = b"
    and dir_set_ent: "dir_set (set_ent i s) = dir_set s"
    and ent_set_ent: "i < length (sizes s) \<Longrightarrow> ent_set j (set_ent i s) \<longleftrightarrow> j = i \<or> ent_set j s"
    and ent_set_dir: "ent_set j (set_dir b s) = ent_set j s"
    and sizes_dir: "sizes (set_dir b s) = sizes s"
    and sizes_ent: "sizes (set_ent i s) = sizes s"
begin

definition ents :: "nat \<Rightarrow> res set" where
  "ents n = (\<lambda>i. Mem (ent i)) ` {..<n}"

definition dirs :: "uio_state \<Rightarrow> res set" where
  "dirs s = (if dir_set s then {Mem dir} else {})"

lemma ents_Suc: "ents (Suc n) = insert (Mem (ent n)) (ents n)"
  by (simp add: ents_def lessThan_Suc)

lemma ents_0 [simp]: "ents 0 = {}"
  by (simp add: ents_def)

lemma ents_fresh [simp]: "Mem (ent i) \<in> ents n \<longleftrightarrow> i < n" "Mem dir \<notin> ents n"
  using ent_inj dir_ent by (auto simp: ents_def)

lemma dirs_set [simp]: "dirs (set_dir b s) = (if b then {Mem dir} else {})" "dirs (set_ent i s) = dirs s"
  by (simp_all add: dirs_def dir_set_dir dir_set_ent)

lemma dirs_ent [simp]: "Mem (ent i) \<notin> dirs s"
  using dir_ent by (auto simp: dirs_def)

text \<open>
  Where the loop that adds the entries stands: it has added \<open>n\<close> of them, and has the directory if
  there is one.
\<close>

definition added :: "held \<Rightarrow> res set \<Rightarrow> held \<Rightarrow> nat \<Rightarrow> uio_state \<times> ktrace \<Rightarrow> bool" where
  "added M A H n z \<longleftrightarrow> res_steps (snd z) M = Some (also_held (A \<union> ents n \<union> dirs (fst z)) H) \<and> (\<forall>i < n. ent_set i (fst z))"

definition add_exit :: "held \<Rightarrow> res set \<Rightarrow> held \<Rightarrow> nat \<Rightarrow> attr_exit \<Rightarrow> uio_state \<times> ktrace \<Rightarrow> bool" where
  "add_exit M A H k x z \<longleftrightarrow> (case x of
     Complete n \<Rightarrow> added M A H n z \<and> n = k \<and> dir_set (fst z) = (0 < n)
   | ErrEntry n e \<Rightarrow> added M A H n z \<and> e \<noteq> 0
   | ErrEntryKobj n e \<Rightarrow> added M A H (Suc n) z \<and> e \<noteq> 0)"

lemma addedD: "added M A H n (s, tr) \<Longrightarrow> res_steps tr M = Some (also_held (A \<union> ents n \<union> dirs s) H)"
  by (simp add: added_def)

lemma added_step:
  assumes "added M A H n (s, tr)" "res_steps tr' M = Some (also_held (A \<union> ents n \<union> dirs s) H)"
  shows "added M A H n (s, tr')"
  using assms by (simp add: added_def)

lemma add_entry_exit:
  assumes a: "added M A H i (s, tr)" and A: "\<And>j. Mem (ent j) \<notin> A" and "dir_set s" "i < length (sizes s)" "P s"
    and P: "\<And>i s. P s \<Longrightarrow> P (set_ent i s)"
  shows "post (add_entry kern ent set_ent i) (\<lambda>x z. P (fst z) \<and> sizes (fst z) = sizes s \<and> dir_set (fst z)
    \<and> (case x of None \<Rightarrow> added M A H (Suc i) z | Some e \<Rightarrow> add_exit M A H n e z)) (s, tr)"
proof -
  let ?K = "\<lambda>s n. also_held (A \<union> ents n \<union> dirs s) H"
  let ?t = "set_ent i s"
  have fresh: "Mem (ent i) \<notin> A \<union> ents i \<union> dirs s"
    using A by simp
  have new: "added M A H (Suc i) (?t, u)" if "res_steps u M = Some (?K s (Suc i))" for u
    using a that assms(4) by (auto simp: added_def ent_set_ent less_Suc_eq)
  have use: "use_of (Mem (ent i)) (?K s (Suc i)) = Some (?K s (Suc i))"
    by (simp add: ents_Suc)
  note [simp] = add_exit_def errno_defs dir_set_ent sizes_ent
  show ?thesis
    unfolding add_entry_def drv_post
    apply (rule post_call_split [OF addedD [OF a], where K' = "?K s i" and L = "?K s (Suc i)"])
    subgoal by simp
    subgoal using fresh by (simp add: ents_Suc)
    subgoal using added_step [OF a] assms by (simp add: drv_post)
    apply (simp only: if_False drv_post)
    apply (rule post_call, assumption, simp add: use)
    apply (simp only: drv_post)
    apply (rule post_call_split, assumption, simp add: use, simp add: use)
    subgoal
      apply (simp only: if_False simp_thms drv_post)
      apply (rule post_call_split, assumption, simp add: use, simp add: use)
      using new assms by (simp_all add: drv_post)
    subgoal using new assms by (simp add: drv_post)
    done
qed

lemma add_entries_exit:
  assumes "added M A H i (s, tr)" "dir_set s = found" "found = (0 < i)" "i + length szs \<le> length (sizes s)" "P s"
    and A: "Mem dir \<notin> A" "\<And>j. Mem (ent j) \<notin> A" and P: "\<And>b s. P s \<Longrightarrow> P (set_dir b s)" "\<And>i s. P s \<Longrightarrow> P (set_ent i s)"
  shows "post (add_entries kern dir ent set_dir set_ent i found szs)
    (\<lambda>x z. add_exit M A H (i + live szs) x z \<and> P (fst z) \<and> sizes (fst z) = sizes s) (s, tr)"
  using assms(1-5)
proof (induction szs arbitrary: i found s tr)
  case Nil
  then show ?case
    by (simp add: drv_post add_exit_def)
next
  case (Cons sz szs)
  have entry: "post (add_entry kern ent set_ent i) (\<lambda>x. post (case x of Some exit \<Rightarrow> yield exit
         | None \<Rightarrow> add_entries kern dir ent set_dir set_ent (Suc i) True szs)
         (\<lambda>x z. add_exit M A H (Suc i + live szs) x z \<and> P (fst z) \<and> sizes (fst z) = sizes s)) (s', tr')"
    if s': "added M A H i (s', tr')" "dir_set s'" "P s'" "sizes s' = sizes s" for s' tr'
  proof (rule post_mono [OF add_entry_exit [where P = P and n = "Suc i + live szs"]])
    show "post (case x of Some exit \<Rightarrow> yield exit | None \<Rightarrow> add_entries kern dir ent set_dir set_ent (Suc i) True szs)
         (\<lambda>x z. add_exit M A H (Suc i + live szs) x z \<and> P (fst z) \<and> sizes (fst z) = sizes s) z"
      if "P (fst z) \<and> sizes (fst z) = sizes s' \<and> dir_set (fst z)
        \<and> (case x of None \<Rightarrow> added M A H (Suc i) z | Some e \<Rightarrow> add_exit M A H (Suc i + live szs) e z)" for x z
      using that s'(4) Cons.prems(4) Cons.IH [of "Suc i" "fst z" "snd z" True] by (cases x) (simp_all add: drv_post)
  qed (use s' A P Cons.prems(4) in auto)
  have dir: "post (add_dir kern dir set_dir found) (\<lambda>b z. P (fst z) \<and> sizes (fst z) = sizes s \<and> added M A H i z
    \<and> dir_set (fst z) = b) (s, tr)"
  proof (cases found)
    case True
    with Cons.prems show ?thesis by (simp add: add_dir_def drv_post)
  next
    case False
    with Cons.prems have "i = 0" "\<not> dir_set s" "res_steps tr M = Some (also_held A H)"
      by (auto simp: added_def dirs_def)
    then show ?thesis
      using False A(1) P Cons.prems(5) unfolding add_dir_def drv_post
      by (auto intro!: post_call_split simp: drv_post added_def dir_set_dir sizes_dir)
  qed
  show ?case
  proof (cases "sz = 0")
    case True
    with Cons.prems show ?thesis
      by (simp add: drv_post add_exit_def)
  next
    case False
    have "post (add_dir kern dir set_dir found) (\<lambda>b. post (if \<not> b then yield (ErrEntry i (- ENOMEM)) else do {
         x \<leftarrow> add_entry kern ent set_ent i;
         case x of Some exit \<Rightarrow> yield exit | None \<Rightarrow> add_entries kern dir ent set_dir set_ent (Suc i) True szs})
         (\<lambda>x z. add_exit M A H (Suc i + live szs) x z \<and> P (fst z) \<and> sizes (fst z) = sizes s)) (s, tr)"
    proof (rule post_mono [OF dir], goal_cases)
      case (1 b z)
      with entry [of "fst z" "snd z"] show ?case
        by (cases b) (simp_all add: drv_post, simp add: add_exit_def errno_defs)
    qed
    with False show ?thesis
      by (simp add: drv_post)
  qed
qed

lemma put_entries_post:
  assumes "res_steps tr M = Some (also_held A H)" "ents n \<union> dirs s \<subseteq> A" "\<And>i. i < n \<Longrightarrow> ent_set i s"
  shows "post (put_entries kern dir ent dir_set ent_set n)
    (\<lambda>_ z. fst z = s \<and> res_steps (snd z) M = Some (also_held (A - ents n - dirs s) H)) (s, tr)"
  using assms
proof (induction n arbitrary: A tr)
  case 0
  then show ?case
    by (auto simp: drv_post some_if_def dirs_def intro!: post_call)
next
  case (Suc n)
  have "Mem (ent n) \<in> A" "ent_set n s" and sub: "ents n \<union> dirs s \<subseteq> A - {Mem (ent n)}"
    using Suc.prems(2,3) by (auto simp: ents_Suc)
  then have step: "res_step (KobjectPut (some_if (ent_set n s) (ent n))) r (also_held A H) = Some (also_held (A - {Mem (ent n)}) H)" for r
    by (simp add: some_if_def)
  have eq: "A - {Mem (ent n)} - ents n = A - ents (Suc n)"
    by (auto simp: ents_Suc)
  show ?case
    unfolding put_entries.simps drv_post
    by (rule post_call [OF Suc.prems(1) step]) (use Suc.IH [OF _ sub] Suc.prems(3) eq in \<open>simp add: drv_post\<close>)
qed

lemma del_entries_post:
  assumes "res_steps tr M = Some (also_held A H)" "\<And>j. i \<le> j \<Longrightarrow> j < i + live (map fst slots) \<Longrightarrow> Mem (ent j) \<in> A"
    "\<And>j. j < live (map fst slots) \<Longrightarrow> snd (slots ! j)"
  shows "post (del_entries kern ent i slots) (\<lambda>_ z. fst z = s
    \<and> res_steps (snd z) M = Some (also_held (A - (\<lambda>j. Mem (ent j)) ` {i..<i + live (map fst slots)}) H)) (s, tr)"
  using assms
proof (induction slots arbitrary: A i tr)
  case Nil
  then show ?case by (simp add: drv_post)
next
  case (Cons slot slots)
  obtain sz e where slot: "slot = (sz, e)" by force
  show ?case
  proof (cases "sz = 0")
    case True
    with Cons.prems slot show ?thesis by (simp add: drv_post)
  next
    case False
    let ?l = "live (map fst slots)"
    have len: "live (map fst (slot # slots)) = Suc ?l"
      using False slot by simp
    have flags: "snd (slots ! j)" if "j < ?l" for j
      using Cons.prems(3) [of "Suc j"] len that by simp
    have mem: "Mem (ent j) \<in> A - {Mem (ent i)}" if "Suc i \<le> j" "j < Suc i + ?l" for j
      using Cons.prems(2) [of j] len that ent_inj [of j i] by auto
    have "e" "Mem (ent i) \<in> A"
      using Cons.prems(2) [of i] Cons.prems(3) [of 0] len slot by simp_all
    then have step: "res_step (KobjectPut (some_if e (ent i))) r (also_held A H) = Some (also_held (A - {Mem (ent i)}) H)" for r
      by (simp add: some_if_def)
    have "{i..<Suc (i + ?l)} = insert i {Suc i..<Suc i + ?l}"
      by auto
    then have eq: "A - {Mem (ent i)} - (\<lambda>j. Mem (ent j)) ` {Suc i..<Suc i + ?l} = A - (\<lambda>j. Mem (ent j)) ` {i..<Suc (i + ?l)}"
      by (simp only: image_insert) blast
    have "post (del_entries kern ent (Suc i) slots) (\<lambda>_ z. fst z = s
        \<and> res_steps (snd z) M = Some (also_held (A - (\<lambda>j. Mem (ent j)) ` {i..<Suc (i + ?l)}) H)) (s, u)"
      if "res_steps u M = Some (also_held (A - {Mem (ent i)}) H)" for u
      using Cons.IH [OF that, of "Suc i"] mem flags eq by simp
    with False show ?thesis
      unfolding slot by (simp add: drv_post) (rule post_call [OF Cons.prems(1) step])
  qed
qed

lemma del_all_post:
  assumes "res_steps tr M = Some (also_held A H)" "ents (live (sizes s)) \<subseteq> A" "map fst slots = sizes s"
    "\<And>i. i < live (sizes s) \<Longrightarrow> snd (slots ! i)"
  shows "post (del_entries kern ent 0 slots) (\<lambda>_ z. fst z = s
    \<and> res_steps (snd z) M = Some (also_held (A - ents (live (sizes s))) H)) (s, tr)"
  using del_entries_post [OF assms(1), of 0 slots kern s] assms(2-) by (auto simp: ents_def atLeast0LessThan)

end

lemma map_update_same: "f y = f (xs ! i) \<Longrightarrow> map f (xs[i := y]) = map f xs"
  by (cases "i < length xs") (auto simp: map_update intro: nth_equalityI simp: nth_list_update)

interpretation maps: attr_dir MapDir MapObj set_map_dir set_map "idev_map_dir \<circ> uidev" map_set map_sizes
  by unfold_locales (auto simp: set_map_dir_def set_map_def map_set_def map_sizes_def map_update_same nth_list_update)

interpretation portios: attr_dir PortioDir PortObj set_portio_dir set_portio "idev_portio_dir \<circ> uidev" portio_set portio_sizes
  by unfold_locales (auto simp: set_portio_dir_def set_portio_def portio_set_def portio_sizes_def map_update_same nth_list_update)

section \<open>Both directories\<close>

text \<open>The part of the state that the attributes do not touch.\<close>

definition core :: "uio_state \<Rightarrow> uio_state \<times> u64 list \<times> u64 list" where
  "core s = (s\<lparr>uinfo := (uinfo s)\<lparr>info_mem := [], info_port := []\<rparr>,
     uidev := (uidev s)\<lparr>idev_map_dir := False, idev_portio_dir := False\<rparr>\<rparr>, map_sizes s, portio_sizes s)"

lemma core_set [simp]: "core (set_map_dir b s) = core s" "core (set_map i s) = core s"
    "core (set_portio_dir b s) = core s" "core (set_portio i s) = core s"
  by (simp_all add: core_def set_map_dir_def set_map_def set_portio_dir_def set_portio_def map_sizes_def portio_sizes_def map_update_same)

lemma flags_set [simp]: "idev_portio_dir (uidev (set_map_dir b s)) = idev_portio_dir (uidev s)"
    "idev_portio_dir (uidev (set_map i s)) = idev_portio_dir (uidev s)"
    "idev_map_dir (uidev (set_portio_dir b s)) = idev_map_dir (uidev s)"
    "idev_map_dir (uidev (set_portio i s)) = idev_map_dir (uidev s)"
    "map_set j (set_portio_dir b s) = map_set j s" "map_set j (set_portio i s) = map_set j s"
  by (simp_all add: set_map_dir_def set_map_def set_portio_dir_def set_portio_def map_set_def)

text \<open>What the attributes of a device hold, and that its pointer fields say so.\<close>

definition attr_held :: "uio_state \<Rightarrow> res set" where
  "attr_held s = maps.ents (live (map_sizes s)) \<union> (if 0 < live (map_sizes s) then {Mem MapDir} else {})
     \<union> portios.ents (live (portio_sizes s)) \<union> (if 0 < live (portio_sizes s) then {Mem PortioDir} else {})"

definition attrs_set :: "uio_state \<Rightarrow> bool" where
  "attrs_set s \<longleftrightarrow> (\<forall>i < live (map_sizes s). map_set i s) \<and> (\<forall>i < live (portio_sizes s). portio_set i s)
     \<and> idev_map_dir (uidev s) = (0 < live (map_sizes s)) \<and> idev_portio_dir (uidev s) = (0 < live (portio_sizes s))"

definition attr_free :: "res set \<Rightarrow> bool" where
  "attr_free A \<longleftrightarrow> Mem MapDir \<notin> A \<and> Mem PortioDir \<notin> A \<and> (\<forall>i. Mem (MapObj i) \<notin> A \<and> Mem (PortObj i) \<notin> A)"

lemma err_map_post:
  assumes "maps.added M A H n (s, tr)" "attr_free A"
  shows "post (err_map kern n rv) (\<lambda>r z. r = rv \<and> fst z = s \<and> res_steps (snd z) M = Some (also_held A H)) (s, tr)"
proof -
  have "A \<union> maps.ents n \<union> maps.dirs s - maps.ents n - maps.dirs s = A"
    using assms(2) by (auto simp: attr_free_def maps.ents_def maps.dirs_def)
  with maps.put_entries_post [OF maps.addedD [OF assms(1)], of n s kern] assms(1) show ?thesis
    unfolding err_map_def drv_post by (auto simp: maps.added_def elim: post_mono)
qed

lemma err_portio_post:
  assumes "portios.added M (A \<union> maps.ents mi \<union> maps.dirs s) H n (s, tr)" "\<forall>i < mi. map_set i s" "attr_free A"
  shows "post (err_portio kern n mi rv) (\<lambda>r z. r = rv \<and> fst z = s \<and> res_steps (snd z) M = Some (also_held A H)) (s, tr)"
proof -
  let ?B = "A \<union> maps.ents mi \<union> maps.dirs s"
  have "?B \<union> portios.ents n \<union> portios.dirs s - portios.ents n - portios.dirs s = ?B"
    using assms(3) by (auto simp: attr_free_def portios.ents_def portios.dirs_def maps.ents_def maps.dirs_def)
  with portios.put_entries_post [OF portios.addedD [OF assms(1)], of n s kern] assms(1)
  have "post (put_entries kern PortioDir PortObj (idev_portio_dir \<circ> uidev) portio_set n)
      (\<lambda>_ z. fst z = s \<and> res_steps (snd z) M = Some (also_held ?B H)) (s, tr)"
    by (auto simp: portios.added_def)
  then show ?thesis
    unfolding err_portio_def drv_post
  proof (rule post_mono, goal_cases)
    case (1 r z)
    then show ?case
      using err_map_post [of M A H mi s "snd z" kern rv] assms(2,3) by (cases z) (simp add: maps.added_def)
  qed
qed

definition bare :: "uio_state \<Rightarrow> bool" where
  "bare s \<longleftrightarrow> \<not> idev_map_dir (uidev s) \<and> \<not> idev_portio_dir (uidev s)"

lemma add_maps_post:
  assumes "res_steps tr M = Some (also_held A H)" "bare s" "attr_free A"
  shows "post (add_maps kern) (\<lambda>x z. maps.add_exit M A H (live (map_sizes s)) x z \<and> core (fst z) = core s
    \<and> \<not> idev_portio_dir (uidev (fst z))) (s, tr)"
  using maps.add_entries_exit [of M A H 0 s tr False "map_sizes s" "\<lambda>t. core t = core s \<and> \<not> idev_portio_dir (uidev t)" kern] assms
  by (auto simp: add_maps_def drv_post maps.added_def maps.dirs_def bare_def attr_free_def elim!: post_mono)

lemma add_portios_post:
  assumes "res_steps tr M = Some (also_held A H)" "\<not> idev_portio_dir (uidev s)" "\<forall>i < n. map_set i s"
    "Mem PortioDir \<notin> A" "\<And>i. Mem (PortObj i) \<notin> A"
  shows "post (add_portios kern) (\<lambda>x z. portios.add_exit M A H (live (portio_sizes s)) x z \<and> core (fst z) = core s
    \<and> idev_map_dir (uidev (fst z)) = idev_map_dir (uidev s) \<and> (\<forall>i < n. map_set i (fst z))) (s, tr)"
  using portios.add_entries_exit [of M A H 0 s tr False "portio_sizes s" "\<lambda>t. core t = core s
      \<and> idev_map_dir (uidev t) = idev_map_dir (uidev s) \<and> (\<forall>i < n. map_set i t)" kern] assms
  by (auto simp: add_portios_def drv_post portios.added_def portios.dirs_def elim!: post_mono)

lemma core_sizes: "core t = core s \<Longrightarrow> map_sizes t = map_sizes s \<and> portio_sizes t = portio_sizes s"
  by (simp add: core_def)

lemma uio_dev_add_attributes_post:
  assumes "res_steps tr M = Some (also_held A H)" "bare s" "attr_free A"
  shows "post (uio_dev_add_attributes kern) (\<lambda>r z. core (fst z) = core s
    \<and> (if r = 0 then res_steps (snd z) M = Some (also_held (A \<union> attr_held s) H) \<and> attrs_set (fst z)
       else res_steps (snd z) M = Some (also_held A H))) (s, tr)"
  unfolding uio_dev_add_attributes_def drv_post
proof (rule post_mono [OF add_maps_post [OF assms]], goal_cases)
  case (1 x z)
  obtain t u where z: "z = (t, u)" by force
  show ?case
  proof (cases x)
    case (Complete mi)
    let ?B = "A \<union> maps.ents mi \<union> maps.dirs t"
    have c: "core t = core s" "\<not> idev_portio_dir (uidev t)"
      and mi: "mi = live (map_sizes s)" "maps.added M A H mi (t, u)" "idev_map_dir (uidev t) = (0 < mi)"
      using 1 z Complete by (auto simp: maps.add_exit_def)
    have B: "Mem PortioDir \<notin> ?B" "\<And>i. Mem (PortObj i) \<notin> ?B"
      using assms(3) by (auto simp: attr_free_def maps.ents_def maps.dirs_def)
    have p: "post (add_portios kern) (\<lambda>x z. portios.add_exit M ?B H (live (portio_sizes t)) x z \<and> core (fst z) = core t
      \<and> idev_map_dir (uidev (fst z)) = idev_map_dir (uidev t) \<and> (\<forall>i < mi. map_set i (fst z))) (t, u)"
      by (rule add_portios_post [OF maps.addedD [OF mi(2)] c(2)]) (use mi B in \<open>auto simp: maps.added_def\<close>)
    show ?thesis
      unfolding Complete attr_exit.case z drv_post
    proof (rule post_mono [OF p], goal_cases)
      case (1 y z)
      obtain t' u' where z: "z = (t', u')" by force
      have t': "core t' = core s" "maps.dirs t' = maps.dirs t" "idev_map_dir (uidev t') = (0 < mi)" "\<forall>i < mi. map_set i t'"
        using 1 c mi z by (auto simp: maps.dirs_def)
      have err: "post (err_portio kern n mi rv) (\<lambda>r z. r = rv \<and> fst z = t' \<and> res_steps (snd z) M = Some (also_held A H)) (t', u')"
        if "portios.added M ?B H n (t', u')" for n rv
        by (rule err_portio_post) (use that t' assms(3) in simp_all)
      show ?case
      proof (cases y)
        case C: (Complete pi)
        have "?B \<union> portios.ents pi \<union> portios.dirs t' = A \<union> attr_held s"
          using 1 C z c t' mi core_sizes [OF c(1)] by (auto simp: portios.add_exit_def attr_held_def maps.dirs_def portios.dirs_def)
        then show ?thesis
          using 1 C z c t' mi core_sizes [OF c(1)] core_sizes [OF t'(1)]
          by (auto simp: drv_post portios.add_exit_def portios.added_def attrs_set_def)
      next
        case (ErrEntry n e)
        then show ?thesis
          using 1 z err [of n e] t'(1) by (auto simp: portios.add_exit_def elim: post_mono)
      next
        case (ErrEntryKobj n e)
        then show ?thesis
          using 1 z err [of "Suc n" e] t'(1) by (auto simp: portios.add_exit_def elim: post_mono)
      qed
    qed
  next
    case (ErrEntry n e)
    then show ?thesis
      using 1 z err_map_post [of M A H n t u kern e] assms(3) by (auto simp: maps.add_exit_def elim: post_mono)
  next
    case (ErrEntryKobj n e)
    then show ?thesis
      using 1 z err_map_post [of M A H "Suc n" t u kern e] assms(3) by (auto simp: maps.add_exit_def elim: post_mono)
  qed
qed

lemma slots_set:
  assumes "attrs_set s"
  shows "i < live (map_sizes s) \<Longrightarrow> snd (map (\<lambda>m. (mem_size m, mem_map m)) (info_mem (uinfo s)) ! i)"
    and "j < live (portio_sizes s) \<Longrightarrow> snd (map (\<lambda>p. (port_size p, port_portio p)) (info_port (uinfo s)) ! j)"
proof -
  have "live zs \<le> length zs" for zs
    by (simp add: live_def length_takeWhile_le)
  from this [of "map_sizes s"] this [of "portio_sizes s"] assms
  show "i < live (map_sizes s) \<Longrightarrow> snd (map (\<lambda>m. (mem_size m, mem_map m)) (info_mem (uinfo s)) ! i)"
    "j < live (portio_sizes s) \<Longrightarrow> snd (map (\<lambda>p. (port_size p, port_portio p)) (info_port (uinfo s)) ! j)"
    by (auto simp: attrs_set_def map_set_def portio_set_def map_sizes_def portio_sizes_def)
qed

lemma put_dir_post:
  assumes "res_steps tr M = Some (also_held A H)" "b \<Longrightarrow> Mem p \<in> A"
    "\<And>u. res_steps u M = Some (also_held (A - (if b then {Mem p} else {})) H) \<Longrightarrow> Q (s, u)"
  shows "post (call kern (KobjectPut (some_if b p))) (\<lambda>_. Q) (s, tr)"
  using assms by (cases b) (auto simp: some_if_def intro: post_call)

lemma uio_dev_del_attributes_post:
  assumes "res_steps tr M = Some (also_held A H)" "attr_held s \<subseteq> A" "attrs_set s"
  shows "post (uio_dev_del_attributes kern) (\<lambda>_ z. fst z = s \<and> res_steps (snd z) M = Some (also_held (A - attr_held s) H)) (s, tr)"
proof -
  let ?m = "live (map_sizes s)" and ?p = "live (portio_sizes s)"
  let ?B = "A - maps.ents ?m" and ?d = "if 0 < ?m then {Mem MapDir} else {}"
  let ?C = "?B - ?d - portios.ents ?p"
  have dirs: "(idev_map_dir \<circ> uidev) s = (0 < ?m)" "(idev_portio_dir \<circ> uidev) s = (0 < ?p)"
    using assms(3) by (simp_all add: attrs_set_def)
  have sub: "maps.ents ?m \<subseteq> A" "portios.ents ?p \<subseteq> ?B - ?d" "0 < ?m \<Longrightarrow> Mem MapDir \<in> ?B" "0 < ?p \<Longrightarrow> Mem PortioDir \<in> ?C"
    using assms(2) by (auto simp: attr_held_def maps.ents_def portios.ents_def)
  have sizes: "map fst (map (\<lambda>m. (mem_size m, mem_map m)) (info_mem (uinfo s))) = map_sizes s"
    "map fst (map (\<lambda>p. (port_size p, port_portio p)) (info_port (uinfo s))) = portio_sizes s"
    by (simp_all add: map_sizes_def portio_sizes_def)
  have last: "?C - (if 0 < ?p then {Mem PortioDir} else {}) = A - attr_held s"
    by (auto simp: attr_held_def)
  have ports: "post (del_entries kern PortObj 0 (map (\<lambda>p. (port_size p, port_portio p)) (info_port (uinfo s))))
      (\<lambda>_ z. fst z = s \<and> res_steps (snd z) M = Some (also_held ?C H)) (s, u)"
    if "res_steps u M = Some (also_held (?B - ?d) H)" for u
    by (rule portios.del_all_post [OF that sub(2) sizes(2) slots_set(2) [OF assms(3)]])
  have maps: "post (del_entries kern MapObj 0 (map (\<lambda>m. (mem_size m, mem_map m)) (info_mem (uinfo s))))
      (\<lambda>_ z. fst z = s \<and> res_steps (snd z) M = Some (also_held ?B H)) (s, tr)"
    by (rule maps.del_all_post [OF assms(1) sub(1) sizes(1) slots_set(1) [OF assms(3)]])
  have finish: "post (call kern (KobjectPut (some_if (0 < ?p) PortioDir)))
      (\<lambda>_ z. fst z = s \<and> res_steps (snd z) M = Some (also_held (A - attr_held s) H)) (s, u)"
    if "res_steps u M = Some (also_held ?C H)" for u
    by (rule put_dir_post [OF that sub(4)]) (use last in simp_all)
  show ?thesis
    unfolding uio_dev_del_attributes_def drv_post
  proof (rule post_mono [OF maps], goal_cases)
    case (1 x z)
    then obtain u where u: "z = (s, u)" "res_steps u M = Some (also_held ?B H)" by (cases z) auto
    show ?case
      unfolding u(1) drv_post dirs
    proof (rule put_dir_post [OF u(2)])
      show "Mem MapDir \<in> ?B" if "0 < ?m"
        by (rule sub(3) [OF that])
    next
      fix v
      assume v: "res_steps v M = Some (also_held (?B - ?d) H)"
      show "post (look (\<lambda>s. map (\<lambda>p. (port_size p, port_portio p)) (info_port (uinfo s)))) (\<lambda>slots. post (del_entries kern PortObj 0 slots)
          (\<lambda>_. post (look (idev_portio_dir \<circ> uidev)) (\<lambda>d. post (call kern (KobjectPut (some_if d PortioDir)))
            (\<lambda>_ z. fst z = s \<and> res_steps (snd z) M = Some (also_held (A - attr_held s) H))))) (s, v)"
        unfolding drv_post
      proof (rule post_mono [OF ports [OF v]], goal_cases)
        case (1 x z)
        then obtain w where "z = (s, w)" "res_steps w M = Some (also_held ?C H)" by (cases z) auto
        then show ?case
          using finish [of w] dirs by (simp add: drv_post)
      qed
    qed
  qed
qed

section \<open>Devices\<close>

lemma drop_last_ref [simp]:
  assumes "DevRef \<in> A" "Mem Idev \<in> A" "H DevRef = 0"
  shows "drop_ref (also_held A H) = Some (also_held (A - {DevRef, Mem Idev}) H)"
proof -
  have "A - {DevRef} - {Mem Idev} = A - {DevRef, Mem Idev}" by auto
  with assms show ?thesis by (simp add: drop_ref_def)
qed

lemma drop_other_ref [simp]:
  assumes "DevRef \<in> A" "H DevRef \<noteq> 0"
  shows "drop_ref (also_held A H) = Some (also_held (A - {DevRef}) H)"
  using assms by (simp add: drop_ref_def)

lemma use_frame [simp]: "H r \<noteq> 0 \<Longrightarrow> use_of r (also_held A H) = Some (also_held A H)"
  by (simp add: use_of_def also_held_def)

lemma uio_get_minor_post:
  assumes "res_steps tr M = Some (also_held A H)" "Lock MinorLock \<notin> A" "\<And>m. Minor m \<notin> A"
  shows "post (uio_get_minor kern) (\<lambda>r z. if r = 0
     then \<exists>m. fst z = s\<lparr>uidev := (uidev s)\<lparr>idev_minor := m\<rparr>\<rparr> \<and> res_steps (snd z) M = Some (also_held (insert (Minor m) A) H)
     else fst z = s \<and> res_steps (snd z) M = Some (also_held A H)) (s, tr)"
proof -
  have unlock: "insert (Lock MinorLock) A - {Lock MinorLock} = A" "insert (Minor m) (insert (Lock MinorLock) A) - {Lock MinorLock} = insert (Minor m) A" for m
    using assms(2) by auto
  have idr: "post (call kern IdrAlloc) Q (s, u)"
    if "res_steps u M = Some (also_held (insert (Lock MinorLock) A) H)"
      and "\<And>r v. 0 \<le> r \<Longrightarrow> res_steps v M = Some (also_held (insert (Minor r) (insert (Lock MinorLock) A)) H) \<Longrightarrow> Q r (s, v)"
      and "\<And>r v. r < 0 \<Longrightarrow> res_steps v M = Some (also_held (insert (Lock MinorLock) A) H) \<Longrightarrow> Q r (s, v)" for u Q
    by (rule post_call_any [OF that(1)]) (use that(2,3) assms(3) in \<open>auto split: if_splits\<close>)
  show ?thesis
    unfolding uio_get_minor_def drv_post
    apply (rule post_call [OF assms(1)], use assms(2) in simp)
    apply (rule idr, assumption)
    subgoal by (simp add: drv_post) (rule post_call, assumption, simp, use assms(2) in \<open>auto simp: unlock\<close>)
    subgoal for _ _ r by (cases "r = - ENOSPC") (simp_all add: errno_defs, (rule post_call, assumption, simp, simp add: assms(2))+)
    done
qed

lemma uio_free_minor_post:
  assumes "res_steps tr M = Some (also_held A H)" "Lock MinorLock \<notin> A" "Minor m \<in> A"
  shows "post (uio_free_minor kern m) (\<lambda>_ z. fst z = s \<and> res_steps (snd z) M = Some (also_held (A - {Minor m}) H)) (s, tr)"
proof -
  have eq: "insert (Lock MinorLock) A - {Minor m} - {Lock MinorLock} = A - {Minor m}"
    using assms(2) by auto
  note [simp] = assms(2,3) eq
  show ?thesis
    using assms(1) unfolding uio_free_minor_def drv_post
    by - ((rule post_call, assumption, simp)+, simp)
qed

text \<open>What a registered device holds, apart from its attributes, and that \<open>A\<close> has nothing of the device.\<close>

definition irq_held :: "uio_state \<Rightarrow> res set" where
  "irq_held s = (if wants_irq (uinfo s) then {Irq (info_irq (uinfo s))} else {})"

definition device_held :: "uio_state \<Rightarrow> res set" where
  "device_held s = {Mem Idev, Minor (idev_minor (uidev s)), DevRef, DevAdded} \<union> attr_held s \<union> irq_held s"

definition dev_free :: "res set \<Rightarrow> bool" where
  "dev_free A \<longleftrightarrow> attr_free A \<and> Mem Idev \<notin> A \<and> DevRef \<notin> A \<and> DevAdded \<notin> A \<and> Lock MinorLock \<notin> A \<and> Lock InfoLock \<notin> A
     \<and> (\<forall>m. Minor m \<notin> A) \<and> (\<forall>n. Irq n \<notin> A)"

lemma err_device_create_post:
  assumes "res_steps tr M = Some (also_held (insert DevRef (insert (Minor (idev_minor (uidev s))) (insert (Mem Idev) A))) H)"
    "dev_free A" "H DevRef = 0"
  shows "post (err_device_create kern rv) (\<lambda>r z. r = rv \<and> fst z = s \<and> res_steps (snd z) M = Some (also_held A H)) (s, tr)"
proof -
  let ?m = "Minor (idev_minor (uidev s))"
  have "insert DevRef (insert ?m (insert (Mem Idev) A)) - {?m} = insert DevRef (insert (Mem Idev) A)"
    "insert DevRef (insert (Mem Idev) A) - {DevRef, Mem Idev} = A"
    using assms(2) by (auto simp: dev_free_def)
  note [simp] = this assms(3)
  have f: "post (uio_free_minor kern (idev_minor (uidev s)))
      (\<lambda>_ z. fst z = s \<and> res_steps (snd z) M = Some (also_held (insert DevRef (insert (Mem Idev) A)) H)) (s, tr)"
    using uio_free_minor_post [OF assms(1), of "idev_minor (uidev s)" kern s] assms(2) by (auto simp: dev_free_def)
  show ?thesis
    unfolding err_device_create_def drv_post comp_apply
  proof (rule post_mono [OF f], goal_cases)
    case (1 x z)
    then obtain u where "z = (s, u)" "res_steps u M = Some (also_held (insert DevRef (insert (Mem Idev) A)) H)"
      by (cases z) auto
    then show ?case
      by (simp only: drv_post) (rule post_call, assumption, simp, simp)
  qed
qed

lemma err_add_attributes_post:
  assumes "res_steps tr M = Some (also_held (insert DevAdded (insert DevRef (insert (Minor (idev_minor (uidev s))) (insert (Mem Idev) A)))) H)"
    "dev_free A" "H DevRef = 0"
  shows "post (err_uio_dev_add_attributes kern rv) (\<lambda>r z. r = rv \<and> fst z = s \<and> res_steps (snd z) M = Some (also_held A H)) (s, tr)"
proof -
  let ?K = "insert DevRef (insert (Minor (idev_minor (uidev s))) (insert (Mem Idev) A))"
  have eq: "insert DevAdded ?K - {DevAdded} = ?K"
    using assms(2) by (auto simp: dev_free_def)
  show ?thesis
    unfolding err_uio_dev_add_attributes_def drv_post
    by (rule post_call [OF assms(1), where K' = "also_held ?K H"])
      (use eq assms(2,3) in \<open>auto intro: err_device_create_post\<close>)
qed

lemma err_request_irq_post:
  assumes "res_steps tr M = Some (also_held (insert DevAdded (insert DevRef (insert (Minor (idev_minor (uidev s))) (insert (Mem Idev) A))) \<union> attr_held s) H)"
    "dev_free A" "H DevRef = 0" "attrs_set s"
  shows "post (err_request_irq kern rv) (\<lambda>r z. r = rv \<and> fst z = s \<and> res_steps (snd z) M = Some (also_held A H)) (s, tr)"
proof -
  let ?K = "insert DevAdded (insert DevRef (insert (Minor (idev_minor (uidev s))) (insert (Mem Idev) A)))"
  have eq: "?K \<union> attr_held s - attr_held s = ?K"
    using assms(2) by (auto simp: dev_free_def attr_free_def attr_held_def maps.ents_def portios.ents_def)
  have "post (uio_dev_del_attributes kern) (\<lambda>_ z. fst z = s \<and> res_steps (snd z) M = Some (also_held ?K H)) (s, tr)"
    using uio_dev_del_attributes_post [OF assms(1) Un_upper2 assms(4), of kern] unfolding eq by simp
  then show ?thesis
    unfolding err_request_irq_def drv_post
  proof (rule post_mono, goal_cases)
    case (1 x z)
    then show ?case
      using err_add_attributes_post [of "snd z" M s A H kern rv] assms(2,3) by (cases z) simp
  qed
qed

lemma core_fields:
  assumes "core t = core s"
  shows "idev_minor (uidev t) = idev_minor (uidev s)" "idev_info (uidev t) = idev_info (uidev s)"
    "info_irq (uinfo t) = info_irq (uinfo s)" "class_registered t = class_registered s"
proof -
  have "fst (core t) = fst (core s)"
    using assms by simp
  from arg_cong [OF this, of "idev_minor \<circ> uidev"] arg_cong [OF this, of "idev_info \<circ> uidev"]
    arg_cong [OF this, of "info_irq \<circ> uinfo"] arg_cong [OF this, of class_registered]
  show "idev_minor (uidev t) = idev_minor (uidev s)" "idev_info (uidev t) = idev_info (uidev s)"
    "info_irq (uinfo t) = info_irq (uinfo s)" "class_registered t = class_registered s"
    by (simp_all add: core_def)
qed

definition registered :: "uio_state \<Rightarrow> bool" where
  "registered s \<longleftrightarrow> info_uio_dev (uinfo s) \<and> idev_info (uidev s) \<and> attrs_set s"

text \<open>Setting the back pointer of \<^verbatim>\<open>uio_info\<close> changes nothing else.\<close>

lemma uio_dev_frame [simp]:
  "attr_held (s\<lparr>uinfo := (uinfo s)\<lparr>info_uio_dev := b\<rparr>\<rparr>) = attr_held s"
  "attrs_set (s\<lparr>uinfo := (uinfo s)\<lparr>info_uio_dev := b\<rparr>\<rparr>) = attrs_set s"
  "irq_held (s\<lparr>uinfo := (uinfo s)\<lparr>info_uio_dev := b\<rparr>\<rparr>) = irq_held s"
  "wants_irq ((uinfo s)\<lparr>info_uio_dev := b\<rparr>) = wants_irq (uinfo s)"
  by (simp_all add: attr_held_def attrs_set_def irq_held_def wants_irq_def map_sizes_def portio_sizes_def map_set_def portio_set_def)

definition reg_outcome :: "held \<Rightarrow> res set \<Rightarrow> held \<Rightarrow> int \<Rightarrow> uio_state \<times> ktrace \<Rightarrow> bool" where
  "reg_outcome M A H r z \<longleftrightarrow> (if r = 0 then registered (fst z) \<and> res_steps (snd z) M = Some (also_held (A \<union> device_held (fst z)) H)
     else res_steps (snd z) M = Some (also_held A H))"

lemma reg_failed: "r \<noteq> 0 \<Longrightarrow> post m (\<lambda>a z. a = r \<and> fst z = t \<and> res_steps (snd z) M = Some (also_held A H)) z0
    \<Longrightarrow> post m (reg_outcome M A H) z0"
  by (erule post_mono) (simp add: reg_outcome_def)

lemma register_irq_post:
  assumes "res_steps tr M = Some (also_held (insert DevAdded (insert DevRef (insert (Minor (idev_minor (uidev s))) (insert (Mem Idev) A))) \<union> attr_held s) H)"
    "dev_free A" "H DevRef = 0" "attrs_set s" "idev_info (uidev s)"
  shows "post (register_irq kern) (reg_outcome M A H) (s, tr)"
proof -
  let ?K = "insert DevAdded (insert DevRef (insert (Minor (idev_minor (uidev s))) (insert (Mem Idev) A))) \<union> attr_held s"
  let ?t = "s\<lparr>uinfo := (uinfo s)\<lparr>info_uio_dev := True\<rparr>\<rparr>"
  have K: "?K \<union> irq_held ?t = A \<union> device_held ?t" "registered ?t"
    using assms(4,5) by (auto simp: device_held_def registered_def)
  have irq: "Irq n \<notin> ?K" for n
    using assms(2) by (auto simp: dev_free_def attr_held_def maps.ents_def portios.ents_def)
  show ?thesis
  proof (cases "wants_irq (uinfo s)")
    case False
    then show ?thesis
      using K assms(1) by (simp add: register_irq_def drv_post irq_held_def reg_outcome_def)
  next
    case True
    have eq: "insert (Irq (info_irq (uinfo s))) ?K = A \<union> device_held ?t"
      using K(1) True by (simp add: irq_held_def)
    show ?thesis
      using True unfolding register_irq_def drv_post
      apply (simp add: drv_post)
      apply (rule post_call_split [OF assms(1), where K' = "also_held (A \<union> device_held ?t) H" and L = "also_held ?K H"])
      subgoal using irq eq by simp
      subgoal by simp
      subgoal using K(2) by (simp add: drv_post reg_outcome_def)
      subgoal for r u
        using err_request_irq_post [of u M "s\<lparr>uinfo := (uinfo s)\<lparr>info_uio_dev := False\<rparr>\<rparr>" A H kern r] assms(2-4)
        by (auto simp: drv_post intro: reg_failed)
      done
  qed
qed

lemma register_dev_post:
  assumes "res_steps tr M = Some (also_held (insert (Minor (idev_minor (uidev s))) (insert (Mem Idev) A)) H)"
    "dev_free A" "H DevRef = 0" "bare s" "idev_info (uidev s)"
  shows "post (register_dev kern) (reg_outcome M A H) (s, tr)"
proof -
  let ?K = "insert (Minor (idev_minor (uidev s))) (insert (Mem Idev) A)"
  let ?L = "insert DevAdded (insert DevRef ?K)"
  have free: "attr_free ?L"
    using assms(2) by (simp add: dev_free_def attr_free_def)
  have notin: "DevRef \<notin> ?K" "DevAdded \<notin> insert DevRef ?K"
    using assms(2) by (auto simp: dev_free_def)
  have err: "post (err_device_create kern r) (reg_outcome M A H) (s, u)"
    if "res_steps u M = Some (also_held (insert DevRef ?K) H)" "r \<noteq> 0" for r u
    using err_device_create_post [OF that(1) assms(2,3), of kern r] that(2) by (rule_tac reg_failed)
  have attrs: "post (uio_dev_add_attributes kern) (\<lambda>r. post (if r \<noteq> 0 then err_uio_dev_add_attributes kern r else register_irq kern)
      (reg_outcome M A H)) (s, u)" if u: "res_steps u M = Some (also_held ?L H)" for u
  proof (rule post_mono [OF uio_dev_add_attributes_post [OF u assms(4) free]], goal_cases)
    case (1 r z)
    obtain t v where z: "z = (t, v)" by force
    have c: "core t = core s" "idev_minor (uidev t) = idev_minor (uidev s)" "idev_info (uidev t)" "attr_held t = attr_held s"
      using 1 core_fields [of t s] core_sizes [of t s] assms(5) by (auto simp: z attr_held_def)
    show ?case
    proof (cases "r = 0")
      case True
      then show ?thesis
        using 1 c register_irq_post [of v M t A H kern] assms(2,3) by (simp add: z)
    next
      case False
      then show ?thesis
        using 1 c err_add_attributes_post [of v M t A H kern r] assms(2,3) by (auto simp: z intro: reg_failed)
    qed
  qed
  show ?thesis
    unfolding register_dev_def drv_post
    apply (rule post_call [OF assms(1), where K' = "also_held (insert DevRef ?K) H"])
    subgoal using notin by simp
    apply (rule post_call_split, assumption, simp, simp)
    subgoal
      apply (simp only: simp_thms if_False drv_post)
      apply (rule post_call_split [where K' = "also_held ?L H" and L = "also_held (insert DevRef ?K) H"], assumption)
      subgoal using notin by simp
      subgoal by simp
      subgoal using attrs unfolding drv_post by simp
      subgoal using err by simp
      done
    subgoal using err by simp
    done
qed

lemma uio_register_device_post:
  assumes "res_steps tr M = Some (also_held A H)" "dev_free A" "H DevRef = 0"
  shows "post (uio_register_device kern parent info) (reg_outcome M A H) (s, tr)"
proof -
  let ?t = "s\<lparr>uinfo := (uinfo s)\<lparr>info_uio_dev := False\<rparr>, uidev := zeroed_device\<lparr>idev_info := True, idev_event := 0\<rparr>\<rparr>"
  have notin: "Lock MinorLock \<notin> insert (Mem Idev) A" "\<And>m. Minor m \<notin> insert (Mem Idev) A" "Mem Idev \<notin> A"
    using assms(2) by (auto simp: dev_free_def)
  have minor: "post (uio_get_minor kern) (\<lambda>r. post (if r \<noteq> 0 then do { call kern (Kfree Idev); yield r } else register_dev kern)
      (reg_outcome M A H)) (?t, u)" if u: "res_steps u M = Some (also_held (insert (Mem Idev) A) H)" for u
  proof (rule post_mono [OF uio_get_minor_post [OF u notin(1,2)]], goal_cases)
    case (1 r z)
    obtain t v where z: "z = (t, v)" by force
    show ?case
    proof (cases "r = 0")
      case True
      then show ?thesis
        using 1 register_dev_post [of v M t A H kern] assms(2,3) by (auto simp: z bare_def zeroed_device_def)
    next
      case False
      then have "res_steps v M = Some (also_held (insert (Mem Idev) A) H)"
        using 1 by (simp add: z)
      then show ?thesis
        using False notin(3) unfolding z by (simp add: drv_post) (rule post_call, assumption, simp, simp add: drv_post reg_outcome_def)
    qed
  qed
  show ?thesis
    using assms(1) notin(3) minor
    apply (simp add: uio_register_device_def drv_post errno_defs reg_outcome_def [of M A H r for r])
    apply (intro impI post_call_split [OF assms(1), where K' = "also_held A H" and L = "also_held (insert (Mem Idev) A) H"])
    apply (simp_all add: drv_post errno_defs reg_outcome_def [of M A H r for r])
    done
qed

text \<open>The device structure outlives its unregistration while someone else holds a reference.\<close>

definition kept :: "held \<Rightarrow> res set" where
  "kept H = (if H DevRef = 0 then {} else {Mem Idev})"

lemma kept_none [simp]: "H DevRef = 0 \<Longrightarrow> kept H = {}"
  by (simp add: kept_def)

lemma uio_unregister_device_post:
  assumes tr: "res_steps tr M = Some (also_held (A \<union> device_held s) H)" and "dev_free A" "registered s"
  shows "post (uio_unregister_device kern True) (\<lambda>_ z. fst z = s\<lparr>uidev := (uidev s)\<lparr>idev_info := False\<rparr>\<rparr>
    \<and> res_steps (snd z) M = Some (also_held (A \<union> kept H) H)) (s, tr)"
proof -
  let ?t = "s\<lparr>uidev := (uidev s)\<lparr>idev_info := False\<rparr>\<rparr>"
  let ?m = "Minor (idev_minor (uidev s))"
  let ?B = "insert (Lock InfoLock) (A \<union> device_held s)"
  let ?C = "insert (Lock InfoLock) (insert DevAdded (insert DevRef (insert ?m (insert (Mem Idev) A))))"
  let ?D = "insert DevAdded (insert DevRef (insert ?m (insert (Mem Idev) A)))"
  have free: "attr_held s \<subseteq> ?B" "?B - attr_held s = ?C \<union> irq_held s" "\<And>n. Irq n \<notin> ?C" "?C - {Lock InfoLock} = ?D"
    "Lock InfoLock \<notin> A \<union> device_held s" "Mem Idev \<in> device_held s" "?D - {DevAdded} = insert DevRef (insert ?m (insert (Mem Idev) A))"
    "insert DevRef (insert ?m (insert (Mem Idev) A)) - {DevRef, Mem Idev} = insert ?m A" "insert ?m (A \<union> kept H) - {?m} = A \<union> kept H"
    "Lock MinorLock \<notin> insert ?m (A \<union> kept H)" "insert DevRef (insert ?m (insert (Mem Idev) A)) - {DevRef} = insert ?m (insert (Mem Idev) A)"
    using assms(2) by (auto simp: dev_free_def attr_free_def device_held_def attr_held_def irq_held_def maps.ents_def portios.ents_def kept_def)
  have reg: "info_uio_dev (uinfo s)" "attrs_set s"
    using assms(3) by (simp_all add: registered_def)
  have minor: "post (uio_free_minor kern (idev_minor (uidev s))) (\<lambda>_ z. fst z = ?t \<and> res_steps (snd z) M = Some (also_held (A \<union> kept H) H)) (?t, u)"
    if "res_steps u M = Some (also_held (insert ?m (A \<union> kept H)) H)" for u
    using uio_free_minor_post [OF that free(10), of "idev_minor (uidev s)" kern ?t] free(9) by simp
  let ?E = "insert DevRef (insert ?m (insert (Mem Idev) A))"
  have unreg: "rel DevAdded (also_held ?D H) = Some (also_held ?E H)"
    using free(7) by (subst rel_also) simp_all
  have drop: "drop_ref (also_held ?E H) = Some (also_held (insert ?m (A \<union> kept H)) H)"
    using free(8) free(11) unfolding kept_def by (cases "H DevRef = 0") (subst drop_last_ref, simp_all)
  have tail: "post (call kern (MutexUnlock InfoLock)) (\<lambda>_. post (call kern WakeUpInterruptible) (\<lambda>_. post (call kern KillFasync)
      (\<lambda>_. post (call kern DeviceUnregister) (\<lambda>_. post (uio_free_minor kern (idev_minor (uidev s)))
        (\<lambda>_ z. fst z = ?t \<and> res_steps (snd z) M = Some (also_held (A \<union> kept H) H)))))) (?t, u)"
    if u: "res_steps u M = Some (also_held ?C H)" for u
    apply (rule post_call [OF u, where K' = "also_held ?D H"])
    subgoal using free(4) by simp
    apply (rule post_call [where K' = "also_held ?D H"], assumption, simp)
    apply (rule post_call [where K' = "also_held ?D H"], assumption, simp)
    apply (rule post_call [where K' = "also_held (insert ?m (A \<union> kept H)) H"], assumption)
    subgoal using unreg drop by simp
    by (rule minor)
  have irq: "post (if wants_irq (uinfo s) then call kern (FreeIrq (info_irq (uinfo s))) else yield 0) (\<lambda>_ z. fst z = s
      \<and> res_steps (snd z) M = Some (also_held ?C H)) (s, u)"
    if u: "res_steps u M = Some (also_held (?C \<union> irq_held s) H)" for u
  proof (cases "wants_irq (uinfo s)")
    case True
    then have "rel (Irq (info_irq (uinfo s))) (also_held (?C \<union> irq_held s) H) = Some (also_held ?C H)"
      using free(3) by (subst rel_also) (simp_all add: irq_held_def)
    then have "post (call kern (FreeIrq (info_irq (uinfo s)))) (\<lambda>_ z. fst z = s \<and> res_steps (snd z) M = Some (also_held ?C H)) (s, u)"
      by (intro post_call [OF u, where K' = "also_held ?C H"]) (simp_all del: Un_insert_left)
    with True show ?thesis by simp
  next
    case False
    with u show ?thesis by (simp add: drv_post irq_held_def)
  qed
  show ?thesis
    using reg(1) unfolding uio_unregister_device_def drv_post
    apply (simp add: drv_post)
    apply (rule post_call [OF tr, where K' = "also_held ?B H"])
    subgoal using free(5,6) by simp
    subgoal for _ u
      apply (rule post_mono [OF uio_dev_del_attributes_post [OF _ free(1) reg(2)]], assumption)
      subgoal for _ z
        using irq [of "snd z"] tail unfolding free(2)
        by (cases z) (auto simp: drv_post elim!: post_mono)
      done
    done
qed

section \<open>The class, managed devices and the shared-memory device\<close>

lemma out_free_post:
  assumes "res_steps tr M = Some (also_held (insert (Mem IvshmemInfo) (insert (Mem Info) A)) H)" "Mem Info \<notin> A" "Mem IvshmemInfo \<notin> A"
  shows "post (out_free kern) (\<lambda>r z. r \<noteq> 0 \<and> res_steps (snd z) M = Some (also_held A H)) (s, tr)"
  using assms unfolding out_free_def drv_post
  by - ((rule post_call, assumption, simp)+, simp add: errno_defs)

lemma out_disable_post:
  assumes "res_steps tr M = Some (also_held (insert PciEnabled (insert (Mem IvshmemInfo) (insert (Mem Info) A))) H)"
    "Mem Info \<notin> A" "Mem IvshmemInfo \<notin> A" "PciEnabled \<notin> A"
  shows "post (out_disable kern) (\<lambda>r z. r \<noteq> 0 \<and> res_steps (snd z) M = Some (also_held A H)) (s, tr)"
  unfolding out_disable_def drv_post
  by (rule post_call [OF assms(1), where K' = "also_held (insert (Mem IvshmemInfo) (insert (Mem Info) A)) H"])
    (use assms(2-) in \<open>auto intro: out_free_post\<close>)

abbreviation pci_held :: "res set" where
  "pci_held \<equiv> {PciRegions, PciEnabled, Mem IvshmemInfo, Mem Info}"

lemma out_unmap_post:
  assumes "res_steps tr M = Some (also_held (pci_held \<union> A) H)" "pci_held \<inter> A = {}"
  shows "post (out_unmap kern) (\<lambda>r z. r \<noteq> 0 \<and> res_steps (snd z) M = Some (also_held A H)) (s, tr)"
proof -
  have "pci_held \<union> A - {PciRegions} = insert PciEnabled (insert (Mem IvshmemInfo) (insert (Mem Info) A))"
    using assms(2) by auto
  then show ?thesis
    unfolding out_unmap_def drv_post
    by (intro post_call [OF assms(1), where K' = "also_held (insert PciEnabled (insert (Mem IvshmemInfo) (insert (Mem Info) A))) H"])
      (use assms(2) in \<open>auto intro: out_disable_post\<close>)
qed

text \<open>What a probed device holds.\<close>

definition probe_outcome :: "held \<Rightarrow> int \<Rightarrow> uio_state \<times> ktrace \<Rightarrow> bool" where
  "probe_outcome M r z \<longleftrightarrow> (if r = 0 then registered (fst z) \<and> res_steps (snd z) M = Some (also_held (pci_held \<union> device_held (fst z)) (\<lambda>_. 0))
     else res_steps (snd z) M = Some (\<lambda>_. 0))"

lemma dev_free_pci: "dev_free pci_held"
  by (simp add: dev_free_def attr_free_def)

lemma ivshmem_pci_probe_post:
  assumes "res_steps tr M = Some (\<lambda>_. 0)"
  shows "post (ivshmem_pci_probe kern) (probe_outcome M) (s, tr)"
proof -
  let ?K = "\<lambda>A. also_held A (\<lambda>_. 0)"
  have failed: "post m (probe_outcome M) z" if "post m (\<lambda>r z. r \<noteq> 0 \<and> res_steps (snd z) M = Some (?K {})) z" for m :: "(uio_state, int) drv" and z
    using that by (rule post_mono) (simp add: probe_outcome_def)
  have reg: "post (uio_register_device kern True True) (\<lambda>r. post (if r \<noteq> 0 then out_unmap kern
      else do { call kern (PciSetDrvdata (Some IvshmemInfo)); yield 0 }) (probe_outcome M)) (t, u)"
    if u: "res_steps u M = Some (?K pci_held)" for t u
  proof (rule post_mono [OF uio_register_device_post [OF u dev_free_pci refl]], goal_cases)
    case (1 r z)
    obtain t' u' where z: "z = (t', u')" by force
    show ?case
    proof (cases "r = 0")
      case False
      then show ?thesis
        using 1 out_unmap_post [of u' M "{}" "\<lambda>_. 0" kern t'] by (auto simp: reg_outcome_def z intro: failed)
    next
      case True
      then have "registered t'" "res_steps u' M = Some (?K (pci_held \<union> device_held t'))"
        using 1 by (simp_all add: reg_outcome_def z)
      then show ?thesis
        using True unfolding z by (simp add: drv_post) (rule post_call, assumption, simp, simp add: drv_post probe_outcome_def)
    qed
  qed
  have start: "res_steps tr M = Some (?K {})"
    using assms by simp
  show ?thesis
    unfolding ivshmem_pci_probe_def drv_post
    apply (rule post_call_split [OF start, where K' = "?K {}" and L = "?K {Mem Info}"])
    subgoal by simp
    subgoal by (simp del: also_held_empty)
    subgoal by (simp add: probe_outcome_def errno_defs)
    apply (simp only: if_False drv_post)
    apply (rule post_call_split [where K' = "?K {Mem Info}" and L = "?K {Mem IvshmemInfo, Mem Info}"], assumption)
    subgoal by simp
    subgoal by simp
    subgoal by simp (rule post_call, assumption, simp, simp add: probe_outcome_def errno_defs)
    apply (simp only: if_False drv_post)
    apply (rule post_call_split [where K' = "?K {PciEnabled, Mem IvshmemInfo, Mem Info}"], assumption, simp, simp)
     prefer 2
    subgoal by (auto intro!: failed out_free_post)
    apply (simp only: simp_thms if_False drv_post)
    apply (rule post_call_split [where K' = "?K pci_held"], assumption, simp, simp)
     prefer 2
    subgoal by (auto intro!: failed out_disable_post)
    apply (simp only: simp_thms if_False drv_post)
    apply (rule post_call [where K' = "?K pci_held"], assumption, simp)
    subgoal for _ _ _ _ _ _ addr v
      apply (cases "of_int addr = (0 :: u64)")
      subgoal by (auto simp: drv_post intro!: failed out_unmap_post)
      apply (simp only: if_False drv_post)
      apply (rule post_call [where K' = "?K pci_held"], assumption, simp)
      apply (simp only: drv_post)
      apply (rule post_call [where K' = "?K pci_held"], assumption, simp)
      using reg unfolding drv_post by simp
    done
qed

lemma ivshmem_pci_remove_post:
  assumes "registered s" "res_steps tr M = Some (also_held (pci_held \<union> device_held s) (\<lambda>_. 0))"
  shows "post (ivshmem_pci_remove kern) (\<lambda>_ z. res_steps (snd z) M = Some (\<lambda>_. 0)) (s, tr)"
proof -
  have tail: "post (call kern PciReleaseRegions) (\<lambda>_. post (call kern PciDisableDevice) (\<lambda>_. post (call kern (Kfree Info))
      (\<lambda>_. post (call kern (Kfree IvshmemInfo)) (\<lambda>_ z. res_steps (snd z) M = Some (\<lambda>_. 0))))) (t, u)"
    if "res_steps u M = Some (also_held pci_held (\<lambda>_. 0))" for t u
    using that by - ((rule post_call, assumption, simp add: insert_Diff_if)+, simp)
  show ?thesis
    unfolding ivshmem_pci_remove_def drv_post
    apply (rule post_call [OF assms(2), where K' = "also_held (pci_held \<union> device_held s) (\<lambda>_. 0)"], simp)
    apply (rule post_mono [OF uio_unregister_device_post [OF _ dev_free_pci assms(1)]], assumption)
    subgoal for _ _ _ z
      using tail [of "snd z" "fst z"] by (cases z) auto
    done
qed

lemma uio_init_post:
  assumes "res_steps tr M = Some (\<lambda>_. 0)"
  shows "post (uio_init kern) (\<lambda>r z. if r = 0 then class_registered (fst z)
      \<and> res_steps (snd z) M = Some (also_held {ClassReg, CdevAdded, Mem CdevObj, Chrdev} (\<lambda>_. 0))
    else res_steps (snd z) M = Some (\<lambda>_. 0)) (s, tr)"
proof -
  let ?K = "\<lambda>A. also_held A (\<lambda>_. 0)"
  have start: "res_steps tr M = Some (?K {})"
    using assms by simp
  show ?thesis
    unfolding uio_init_def init_uio_class_def uio_major_init_def uio_major_cleanup_def drv_post
    apply (rule post_call_split [OF start, where K' = "?K {Chrdev}" and L = "?K {}"])
    subgoal by (simp del: also_held_empty)
    subgoal by simp
     prefer 2
    subgoal by (simp add: drv_post)
    apply (simp only: simp_thms if_False drv_post)
    apply (rule post_call_split [where K' = "?K {Chrdev}" and L = "?K {Mem CdevObj, Chrdev}"], assumption, simp, simp)
    subgoal by (simp add: errno_defs) (rule post_call, assumption, simp, simp)
    apply (simp only: if_False drv_post)
    apply (rule post_call_split [where K' = "?K {CdevAdded, Mem CdevObj, Chrdev}"], assumption, simp, simp)
     prefer 2
    subgoal by simp ((rule post_call, assumption, simp add: insert_Diff_if)+, simp)
    apply (simp only: simp_thms if_False drv_post)
    apply (rule post_call_split [where K' = "?K {ClassReg, CdevAdded, Mem CdevObj, Chrdev}"], assumption, simp, simp)
    subgoal by (simp add: drv_post)
    subgoal by simp ((rule post_call, assumption, simp add: insert_Diff_if)+, simp)
    done
qed

lemma uio_exit_post:
  assumes "res_steps tr M = Some (also_held {ClassReg, CdevAdded, Mem CdevObj, Chrdev} (\<lambda>_. 0))"
  shows "post (uio_exit kern) (\<lambda>_ z. \<not> class_registered (fst z) \<and> res_steps (snd z) M = Some (\<lambda>_. 0)) (s, tr)"
  using assms unfolding uio_exit_def release_uio_class_def uio_major_cleanup_def drv_post
  by - ((rule post_call, assumption, simp add: insert_Diff_if)+, simp)

lemma devm_uio_register_device_post:
  assumes "res_steps tr M = Some (also_held A H)" "dev_free A" "H DevRef = 0" "Mem DevresPtr \<notin> A" "DevresAdded \<notin> A"
  shows "post (devm_uio_register_device kern parent info) (\<lambda>r z. if r = 0
      then registered (fst z) \<and> res_steps (snd z) M = Some (also_held (insert DevresAdded (A \<union> device_held (fst z))) H)
      else res_steps (snd z) M = Some (also_held A H)) (s, tr)"
proof -
  let ?B = "insert (Mem DevresPtr) A"
  have free: "dev_free ?B" and dev: "Mem DevresPtr \<notin> device_held t" "DevresAdded \<notin> device_held t" for t
    using assms(2) by (auto simp: dev_free_def attr_free_def device_held_def attr_held_def irq_held_def maps.ents_def portios.ents_def)
  show ?thesis
    unfolding devm_uio_register_device_def drv_post
    apply (rule post_call_split [OF assms(1), where K' = "also_held A H" and L = "also_held ?B H"], simp)
    subgoal using assms(4) by simp
    subgoal by (simp add: errno_defs)
    apply (simp only: if_False drv_post)
    apply (rule post_mono [OF uio_register_device_post [where H = H, OF _ free assms(3)]], assumption)
    subgoal for _ _ r z
    proof (cases z)
      case (Pair t u)
      assume "reg_outcome M ?B H r z"
      then show ?thesis
        using assms(4,5) dev [of t] unfolding Pair
        by (cases "r = 0") (simp_all add: reg_outcome_def post_call_eq)
    qed
    done
qed

section \<open>Properties\<close>

text \<open>
  C12. Registration is all or nothing: whatever the kernel answers to each call, a registration that
  fails has given back every allocation, reference, minor number, lock and interrupt it took, each
  once and in an order in which nothing is used after it is freed, and one that succeeds holds
  exactly the device with its attribute directories and its interrupt.
\<close>

theorem uio_register_all_or_nothing:
  "case run_state (uio_register_device kern parent info) (s, []) of (r, s', tr) \<Rightarrow>
     resources tr = Some (also_held (if r = 0 then device_held s' else {}) (\<lambda>_. 0))"
proof -
  have "post (uio_register_device kern parent info) (reg_outcome (\<lambda>_. 0) {} (\<lambda>_. 0)) (s, [])"
    by (rule uio_register_device_post) (simp_all add: dev_free_def attr_free_def)
  then show ?thesis
    by (auto simp: post_def reg_outcome_def split: prod.splits)
qed

text \<open>
  C26. Probing the shared-memory device and, if that succeeded, removing it leaves nothing behind,
  at whichever call the kernel makes the probe fail.
\<close>

theorem ivshmem_probe_remove_balanced:
  "case run_state (do { r \<leftarrow> ivshmem_pci_probe kern; if r = 0 then ivshmem_pci_remove kern else yield () }) (s, []) of (_, _, tr) \<Rightarrow>
     resources tr = Some (\<lambda>_. 0)"
proof -
  have "post (ivshmem_pci_probe kern) (\<lambda>r. post (if r = 0 then ivshmem_pci_remove kern else yield ())
      (\<lambda>_ z. resources (snd z) = Some (\<lambda>_. 0))) (s, [])"
  proof (rule post_mono [OF ivshmem_pci_probe_post [of "[]" "\<lambda>_. 0" kern s]], simp, goal_cases)
    case (1 r z)
    then show ?case
      using ivshmem_pci_remove_post [of "fst z" "snd z" "\<lambda>_. 0" kern] by (auto simp: probe_outcome_def drv_post)
  qed
  then have "post (do { r \<leftarrow> ivshmem_pci_probe kern; if r = 0 then ivshmem_pci_remove kern else yield () })
      (\<lambda>_ z. resources (snd z) = Some (\<lambda>_. 0)) (s, [])"
    by (simp only: post_bind)
  then show ?thesis
    by (auto simp: post_def split: prod.splits)
qed

end
