(* ===== verification/Zeno_Uio_File.thy ===== *)
theory Zeno_Uio_File
  imports Zeno_Uio_Resources
begin

text \<open>
  The file operations of a userspace I/O device (\<^verbatim>\<open>uio.c\<close>): the attributes under \<^verbatim>\<open>/sys\<close>, interrupts,
  open and release, poll, read and write of the event counter, and the mapping of its memory. One
  open file is followed; its listener is \<open>listener_count\<close>. Pages have \<open>2 ^ PAGE_SHIFT\<close> bytes.

  A blocking \<^verbatim>\<open>uio_read\<close> runs again each time it is woken: \<open>env\<close> says what its \<open>k\<close>-th turn finds, and a
  read that is never answered is \<^const>\<open>None\<close>.
\<close>

section \<open>Attributes\<close>

definition hex_digit :: "nat \<Rightarrow> char" where
  "hex_digit d = ''0123456789abcdef'' ! d"

function hex_string :: "nat \<Rightarrow> string" where
  "hex_string n = (if n < 16 then [hex_digit n] else hex_string (n div 16) @ [hex_digit (n mod 16)])"
  by pat_completeness auto
termination
  by (relation "measure id") auto

declare hex_string.simps [simp del]

function dec_string :: "nat \<Rightarrow> string" where
  "dec_string n = (if n < 10 then [hex_digit n] else dec_string (n div 10) @ [hex_digit (n mod 10)])"
  by pat_completeness auto
termination
  by (relation "measure id") auto

declare dec_string.simps [simp del]

text \<open>The kernel's \<^verbatim>\<open>%pa\<close>: 16 hexadecimal digits with leading zeros.\<close>

definition pa_string :: "u64 \<Rightarrow> string" where
  "pa_string a = (let h = hex_string (unat a) in ''0x'' @ replicate (16 - length h) (CHR ''0'') @ h)"

definition newline :: string where
  "newline = [CHR 0x0A]"

definition map_name_show :: "uio_mem \<Rightarrow> string \<times> uio_mem" where
  "map_name_show mem = (case mem_name mem of
     None \<Rightarrow> ([] @ newline, mem\<lparr>mem_name := Some []\<rparr>)
   | Some n \<Rightarrow> (n @ newline, mem))"

definition map_addr_show :: "uio_mem \<Rightarrow> string" where
  "map_addr_show mem = pa_string (mem_addr mem) @ newline"

definition map_size_show :: "uio_mem \<Rightarrow> string" where
  "map_size_show mem = pa_string (mem_size mem) @ newline"

definition map_offset_show :: "uio_mem \<Rightarrow> string" where
  "map_offset_show mem = ''0x'' @ hex_string (unat (mem_offs mem)) @ newline"

definition map_type_show :: "(uio_mem \<Rightarrow> string) option \<Rightarrow> uio_mem \<Rightarrow> int + string" where
  "map_type_show show_op mem = (case show_op of None \<Rightarrow> Inl (- EIO) | Some f \<Rightarrow> Inr (f mem))"

definition portio_name_show :: "uio_port \<Rightarrow> string \<times> uio_port" where
  "portio_name_show port = (case port_name port of
     None \<Rightarrow> ([] @ newline, port\<lparr>port_name := Some []\<rparr>)
   | Some n \<Rightarrow> (n @ newline, port))"

definition portio_start_show :: "uio_port \<Rightarrow> string" where
  "portio_start_show port = ''0x'' @ hex_string (unat (port_start port)) @ newline"

definition portio_size_show :: "uio_port \<Rightarrow> string" where
  "portio_size_show port = ''0x'' @ hex_string (unat (port_size port)) @ newline"

definition UIO_PORT_OTHER :: int where "UIO_PORT_OTHER = 3"

definition portio_porttype_show :: "uio_port \<Rightarrow> int + string" where
  "portio_porttype_show port =
    (if port_porttype port < 0 \<or> UIO_PORT_OTHER < port_porttype port then Inl (- EINVAL)
     else Inr (''port_'' @ ([''none'', ''x86'', ''gpio'', ''other''] ! nat (port_porttype port)) @ newline))"

definition portio_type_show :: "(uio_port \<Rightarrow> int + string) option \<Rightarrow> uio_port \<Rightarrow> int + string" where
  "portio_type_show show_op port = (case show_op of None \<Rightarrow> Inl (- EIO) | Some f \<Rightarrow> f port)"

text \<open>The common shape of \<^verbatim>\<open>name_show\<close> and \<^verbatim>\<open>version_show\<close>.\<close>

definition locked_show :: "kernel \<Rightarrow> (uio_info \<Rightarrow> string option) \<Rightarrow> (uio_state, int + string) drv" where
  "locked_show kern field = do {
     call kern (MutexLock InfoLock);
     info \<leftarrow> look (idev_info \<circ> uidev);
     out \<leftarrow> (if \<not> info then yield (Inl (- EINVAL))
       else look (\<lambda>s. Inr ((case field (uinfo s) of None \<Rightarrow> ''(null)'' | Some t \<Rightarrow> t) @ newline)));
     call kern (MutexUnlock InfoLock);
     yield out
   }"

definition name_show :: "kernel \<Rightarrow> (uio_state, int + string) drv" where
  "name_show kern = locked_show kern info_name"

definition version_show :: "kernel \<Rightarrow> (uio_state, int + string) drv" where
  "version_show kern = locked_show kern info_version"

definition event_show :: "uio_state \<Rightarrow> string" where
  "event_show s = dec_string (unat (idev_event (uidev s))) @ newline"

section \<open>Events\<close>

definition uio_event_notify :: "kernel \<Rightarrow> (uio_state, unit) drv" where
  "uio_event_notify kern = do {
     upd_idev (idev_event_update (\<lambda>e. e + 1));
     call kern WakeUpInterruptible;
     call kern KillFasync;
     yield ()
   }"

definition IRQ_HANDLED :: int where "IRQ_HANDLED = 1"

definition uio_interrupt :: "kernel \<Rightarrow> int \<Rightarrow> (uio_state, int) drv" where
  "uio_interrupt kern irq = do {
     rv \<leftarrow> call kern (InfoHandler irq);
     (if rv = IRQ_HANDLED then uio_event_notify kern else yield ());
     yield rv
   }"

section \<open>Open and release\<close>

definition err_infoopen :: "kernel \<Rightarrow> int \<Rightarrow> (uio_state, int) drv" where
  "err_infoopen kern rv = do { call kern (Kfree Listener); call kern ModulePut; call kern PutDevice; yield rv }"

text \<open>The lookup under \<^verbatim>\<open>minor_lock\<close>, and what follows it for a device that was found.\<close>

definition uio_open_lookup :: "kernel \<Rightarrow> int \<Rightarrow> (uio_state, int) drv" where
  "uio_open_lookup kern minor = do {
     call kern (MutexLock MinorLock);
     idev \<leftarrow> call kern (IdrFind minor);
     call kern (MutexUnlock MinorLock);
     yield idev
   }"

definition uio_open_found :: "kernel \<Rightarrow> (uio_state, int) drv" where
  "uio_open_found kern = do {
     call kern GetDevice;
     got \<leftarrow> call kern TryModuleGet;
     if got = 0 then do { call kern PutDevice; yield (- ENODEV) }
     else do {
       listener \<leftarrow> call kern (Kalloc Listener);
       if listener = 0 then do { call kern ModulePut; call kern PutDevice; yield (- ENOMEM) }
       else do {
         modify (\<lambda>s. s\<lparr>listener_count := idev_event (uidev s)\<rparr>);
         call kern (MutexLock InfoLock);
         info \<leftarrow> look (idev_info \<circ> uidev);
         if \<not> info then do { call kern (MutexUnlock InfoLock); err_infoopen kern (- EINVAL) }
         else do {
           hook \<leftarrow> look (info_has_open \<circ> uinfo);
           rv \<leftarrow> (if hook then call kern InfoOpen else yield 0);
           call kern (MutexUnlock InfoLock);
           if rv \<noteq> 0 then err_infoopen kern rv else yield 0
         }
       }
     }
   }"

definition uio_open :: "kernel \<Rightarrow> int \<Rightarrow> (uio_state, int) drv" where
  "uio_open kern minor = do {
     idev \<leftarrow> uio_open_lookup kern minor;
     if idev = 0 then yield (- ENODEV) else uio_open_found kern
   }"

definition uio_fasync :: "kernel \<Rightarrow> (uio_state, int) drv" where
  "uio_fasync kern = call kern FasyncHelper"

definition uio_release :: "kernel \<Rightarrow> (uio_state, int) drv" where
  "uio_release kern = do {
     call kern (MutexLock InfoLock);
     hook \<leftarrow> look (\<lambda>s. idev_info (uidev s) \<and> info_has_release (uinfo s));
     rv \<leftarrow> (if hook then call kern InfoRelease else yield 0);
     call kern (MutexUnlock InfoLock);
     call kern ModulePut;
     call kern (Kfree Listener);
     call kern PutDevice;
     yield rv
   }"

section \<open>Poll, read and write\<close>

definition EPOLLIN :: int where "EPOLLIN = 1"
definition EPOLLRDNORM :: int where "EPOLLRDNORM = 64"

definition uio_poll :: "kernel \<Rightarrow> (uio_state, int) drv" where
  "uio_poll kern = do {
     call kern (MutexLock InfoLock);
     rv \<leftarrow> look (\<lambda>s. if \<not> idev_info (uidev s) \<or> info_irq (uinfo s) = 0 then - EIO else 0);
     call kern (MutexUnlock InfoLock);
     if rv \<noteq> 0 then yield rv
     else look (\<lambda>s. if listener_count s \<noteq> idev_event (uidev s) then EPOLLIN + EPOLLRDNORM else 0)
   }"

text \<open>
  One turn of the loop of \<^verbatim>\<open>uio_read\<close>: what it finds of the device and of the current task, and the
  value it leaves with, if it does. \<open>copy\<close> is \<^verbatim>\<open>copy_to_user\<close>.
\<close>

record read_turn =
  turn_info :: bool
  turn_irq :: int
  turn_event :: i32
  turn_signal :: bool

definition read_turn_of :: "uio_state \<Rightarrow> bool \<Rightarrow> read_turn" where
  "read_turn_of s sig = \<lparr>turn_info = idev_info (uidev s), turn_irq = info_irq (uinfo s),
     turn_event = idev_event (uidev s), turn_signal = sig\<rparr>"

definition read_once :: "(i32 \<Rightarrow> int) \<Rightarrow> bool \<Rightarrow> i32 \<Rightarrow> read_turn \<Rightarrow> (int \<times> i32) option" where
  "read_once copy nonblock seen t =
    (if \<not> turn_info t \<or> turn_irq t = 0 then Some (- EIO, seen)
     else if turn_event t \<noteq> seen then
       (if copy (turn_event t) \<noteq> 0 then Some (- EFAULT, seen) else Some (4, turn_event t))
     else if nonblock then Some (- EAGAIN, seen)
     else if turn_signal t then Some (- ERESTARTSYS, seen)
     else None)"

partial_function (option) read_loop :: "(i32 \<Rightarrow> int) \<Rightarrow> bool \<Rightarrow> i32 \<Rightarrow> (nat \<Rightarrow> read_turn) \<Rightarrow> nat \<Rightarrow> (int \<times> i32) option" where
  "read_loop copy nonblock seen env k =
    (case read_once copy nonblock seen (env k) of
       Some r \<Rightarrow> Some r
     | None \<Rightarrow> read_loop copy nonblock seen env (Suc k))"

definition uio_read :: "(i32 \<Rightarrow> int) \<Rightarrow> bool \<Rightarrow> u64 \<Rightarrow> i32 \<Rightarrow> (nat \<Rightarrow> read_turn) \<Rightarrow> (int \<times> i32) option" where
  "uio_read copy nonblock count seen env =
    (if count \<noteq> 4 then Some (- EINVAL, seen) else read_loop copy nonblock seen env 0)"

definition uio_write :: "kernel \<Rightarrow> u64 \<Rightarrow> i32 \<Rightarrow> (uio_state, int) drv" where
  "uio_write kern count irq_on =
    (if count \<noteq> 4 then yield (- EINVAL)
     else do {
       bad \<leftarrow> call kern CopyFromUser;
       if bad \<noteq> 0 then yield (- EFAULT)
       else do {
         call kern (MutexLock InfoLock);
         info \<leftarrow> look (idev_info \<circ> uidev);
         i \<leftarrow> look uinfo;
         retval \<leftarrow> (if \<not> info then yield (- EINVAL)
           else if info_irq i = 0 then yield (- EIO)
           else if \<not> info_has_irqcontrol i then yield (- ENOSYS)
           else call kern (InfoIrqcontrol irq_on));
         call kern (MutexUnlock InfoLock);
         yield (if retval \<noteq> 0 then retval else 4)
       }
     })"

section \<open>Mappings\<close>

datatype uio_vm_ops = NoVmOps | LogicalVmOps | PhysicalVmOps

record vm_area =
  vm_start :: u64
  vm_end :: u64
  vm_pgoff :: u64
  vm_dontexpand :: bool
  vm_ops :: uio_vm_ops

definition PAGE_SHIFT :: nat where "PAGE_SHIFT = 12"

definition page_offset :: "u64 \<Rightarrow> u64" where
  "page_offset a = take_bit PAGE_SHIFT a"

definition vma_pages :: "vm_area \<Rightarrow> u64" where
  "vma_pages vma = drop_bit PAGE_SHIFT (vm_end vma - vm_start vma)"

definition uio_find_mem_index :: "uio_info \<Rightarrow> vm_area \<Rightarrow> nat option" where
  "uio_find_mem_index i vma =
    (if unat (vm_pgoff vma) < length (info_mem i) then
       if mem_size (info_mem i ! unat (vm_pgoff vma)) = 0 then None else Some (unat (vm_pgoff vma))
     else None)"

definition VM_FAULT_SIGBUS :: int where "VM_FAULT_SIGBUS = 2"

definition uio_vma_fault :: "kernel \<Rightarrow> vm_area \<Rightarrow> u64 \<Rightarrow> (uio_state, int) drv" where
  "uio_vma_fault kern vma pgoff = do {
     call kern (MutexLock InfoLock);
     info \<leftarrow> look (idev_info \<circ> uidev);
     i \<leftarrow> look uinfo;
     rv \<leftarrow> (if \<not> info then yield VM_FAULT_SIGBUS
       else case uio_find_mem_index i vma of
         None \<Rightarrow> yield VM_FAULT_SIGBUS
       | Some mi \<Rightarrow> do {
           let offset = push_bit PAGE_SHIFT (pgoff - of_nat mi);
           let addr = mem_addr (info_mem i ! mi) + offset;
           page \<leftarrow> call kern (if mem_memtype (info_mem i ! mi) = UIO_MEM_LOGICAL then VirtToPage addr else VmallocToPage addr);
           call kern (GetPage page);
           yield 0
         });
     call kern (MutexUnlock InfoLock);
     yield rv
   }"

definition uio_mmap_logical :: "vm_area \<Rightarrow> int \<times> vm_area" where
  "uio_mmap_logical vma = (0, vma\<lparr>vm_dontexpand := True, vm_ops := LogicalVmOps\<rparr>)"

definition uio_mmap_physical :: "kernel \<Rightarrow> uio_info \<Rightarrow> vm_area \<Rightarrow> (uio_state, int \<times> vm_area) drv" where
  "uio_mmap_physical kern i vma =
    (case uio_find_mem_index i vma of
       None \<Rightarrow> yield (- EINVAL, vma)
     | Some mi \<Rightarrow>
         if page_offset (mem_addr (info_mem i ! mi)) \<noteq> 0 then yield (- ENODEV, vma)
         else if mem_size (info_mem i ! mi) < vm_end vma - vm_start vma then yield (- EINVAL, vma)
         else do {
           rv \<leftarrow> call kern (RemapPfnRange (vm_start vma) (drop_bit PAGE_SHIFT (mem_addr (info_mem i ! mi))) (vm_end vma - vm_start vma));
           yield (rv, vma\<lparr>vm_ops := PhysicalVmOps\<rparr>)
         })"

definition actual_pages :: "uio_mem \<Rightarrow> u64" where
  "actual_pages m = drop_bit PAGE_SHIFT (page_offset (mem_addr m) + mem_size m + push_bit PAGE_SHIFT 1 - 1)"

definition uio_mmap :: "kernel \<Rightarrow> vm_area \<Rightarrow> (uio_state, int \<times> vm_area) drv" where
  "uio_mmap kern vma =
    (if vm_end vma < vm_start vma then yield (- EINVAL, vma)
     else do {
       call kern (MutexLock InfoLock);
       info \<leftarrow> look (idev_info \<circ> uidev);
       i \<leftarrow> look uinfo;
       rv \<leftarrow> (if \<not> info then yield (- EINVAL, vma)
         else case uio_find_mem_index i vma of
           None \<Rightarrow> yield (- EINVAL, vma)
         | Some mi \<Rightarrow>
             if actual_pages (info_mem i ! mi) < vma_pages vma then yield (- EINVAL, vma)
             else if info_has_mmap i then do { r \<leftarrow> call kern InfoMmap; yield (r, vma) }
             else case mem_memtype (info_mem i ! mi) of
               UIO_MEM_IOVA \<Rightarrow> uio_mmap_physical kern i vma
             | UIO_MEM_PHYS \<Rightarrow> uio_mmap_physical kern i vma
             | UIO_MEM_LOGICAL \<Rightarrow> yield (uio_mmap_logical vma)
             | UIO_MEM_VIRTUAL \<Rightarrow> yield (uio_mmap_logical vma)
             | _ \<Rightarrow> yield (- EINVAL, vma));
       call kern (MutexUnlock InfoLock);
       yield rv
     })"

lemma device_held_parts [simp]: "Lock l \<notin> device_held s" "Mem Idev \<in> device_held s" "DevRef \<in> device_held s"
  by (auto simp: device_held_def attr_held_def irq_held_def maps.ents_def portios.ents_def)

section \<open>An open file and its device\<close>

abbreviation file_held :: "res set" where
  "file_held \<equiv> {DevRef, ModRef, Mem Listener}"

lemma uio_open_found_post:
  assumes "res_steps tr M = Some H" "H (Mem Idev) \<noteq> 0" "H DevRef \<noteq> 0"
  shows "post (uio_open_found kern) (\<lambda>r z. uinfo (fst z) = uinfo s \<and> uidev (fst z) = uidev s
    \<and> res_steps (snd z) M = Some (also_held (if r = 0 then file_held else {}) H)) (s, tr)"
proof -
  have start: "res_steps tr M = Some (also_held {} H)"
    using assms(1) by simp
  have eqs: "insert (Mem Listener) {ModRef, DevRef} = file_held"
    by auto
  show ?thesis
    by (simp add: uio_open_found_def err_infoopen_def drv_post post_call_eq start errno_defs insert_Diff_if eqs assms(2,3) split: if_splits del: also_held_empty)
qed
lemma uio_open_post:
  assumes "res_steps tr M = Some H" "H (Mem Idev) \<noteq> 0" "H DevRef \<noteq> 0" "H (Lock MinorLock) = 0"
  shows "post (uio_open kern minor) (\<lambda>r z. uinfo (fst z) = uinfo s \<and> uidev (fst z) = uidev s
    \<and> res_steps (snd z) M = Some (also_held (if r = 0 then file_held else {}) H)) (s, tr)"
proof -
  have "res_steps tr M = Some (also_held {} H)"
    using assms(1) by simp
  then have "post (uio_open_lookup kern minor) (\<lambda>_ z. fst z = s \<and> res_steps (snd z) M = Some (also_held {} H)) (s, tr)"
    by (simp add: uio_open_lookup_def drv_post post_call_eq del: also_held_empty)
  then show ?thesis
    unfolding uio_open_def post_bind
  proof (rule post_mono, goal_cases)
    case (1 f z)
    then show ?case
      using uio_open_found_post [of "snd z" M H kern s] assms(2,3) by (cases z) (simp add: drv_post errno_defs)
  qed
qed

lemma uio_release_post:
  assumes "res_steps tr M = Some (also_held (insert (Mem Idev) file_held) H)" "H DevRef = 0"
  shows "post (uio_release kern) (\<lambda>_ z. res_steps (snd z) M = Some H) (s, tr)"
  using assms by (simp add: uio_release_def drv_post post_call_eq insert_Diff_if)

text \<open>
  C14. An open file keeps its device: a device is registered, opened, unregistered while it is open
  and then released. Whatever the kernel answers, no call uses memory that is free, the device is
  freed with the last reference, and nothing is left held.
\<close>

theorem open_file_keeps_device:
  "case run_state (do {
       r \<leftarrow> uio_register_device kern True True;
       if r \<noteq> 0 then yield r
       else do {
         minor \<leftarrow> look (idev_minor \<circ> uidev);
         opened \<leftarrow> uio_open kern minor;
         uio_unregister_device kern True;
         if opened = 0 then uio_release kern else yield opened
       }
     }) (s, []) of (_, _, tr) \<Rightarrow> resources tr = Some (\<lambda>_. 0)"
proof -
  let ?Z = "\<lambda>_. 0 :: nat"
  have final: "post (if o' = 0 then uio_release kern else yield o') (\<lambda>_ z. resources (snd z) = Some ?Z) (t, u)"
    if "resources u = Some (also_held (kept (also_held (if o' = 0 then file_held else {}) ?Z)) (also_held (if o' = 0 then file_held else {}) ?Z))" for o' t u
    using that uio_release_post [of u ?Z ?Z kern t] by (auto simp: kept_def drv_post also_held_also insert_commute)
  have opened: "post (uio_open kern m) (\<lambda>o'. post (uio_unregister_device kern True) (\<lambda>_. post (if o' = 0 then uio_release kern else yield o')
      (\<lambda>_ z. resources (snd z) = Some ?Z))) (t, u)"
    if t: "registered t" "resources u = Some (also_held (device_held t) ?Z)" for t u m
  proof (rule post_mono [OF uio_open_post [OF t(2)]], goal_cases)
    case (4 o' z)
    let ?H = "also_held (if o' = 0 then file_held else {}) ?Z"
    obtain t' u' where z: "z = (t', u')" by force
    have same: "uinfo t' = uinfo t" "uidev t' = uidev t"
      using 4 z by simp_all
    then have t': "registered t'" "device_held t' = device_held t"
      using t(1) by (simp_all add: registered_def attrs_set_def device_held_def attr_held_def irq_held_def map_sizes_def portio_sizes_def map_set_def portio_set_def)
    have "also_held (if o' = 0 then file_held else {}) (also_held (device_held t) ?Z) = also_held ({} \<union> device_held t') ?H"
      by (rule ext) (simp add: t'(2) also_held_def)
    then have "resources u' = Some (also_held ({} \<union> device_held t') ?H)"
      using 4 z by simp
    then have "post (uio_unregister_device kern True) (\<lambda>_ z. resources (snd z) = Some (also_held (kept ?H) ?H)) (t', u')"
      using uio_unregister_device_post [of u' ?Z "{}" t' ?H kern] t'(1) by (auto simp: dev_free_def attr_free_def elim!: post_mono)
    then show ?case
      unfolding z
    proof (rule post_mono, goal_cases)
      case (1 x y)
      then show ?case using final [of "snd y" o' "fst y"] by simp
    qed
  qed simp_all
  have "post (uio_register_device kern True True) (reg_outcome ?Z {} ?Z) (s, [])"
    by (rule uio_register_device_post) (simp_all add: dev_free_def attr_free_def)
  then have "post (uio_register_device kern True True) (\<lambda>r. post (if r \<noteq> 0 then yield r
       else do {
         minor \<leftarrow> look (idev_minor \<circ> uidev);
         opened \<leftarrow> uio_open kern minor;
         uio_unregister_device kern True;
         if opened = 0 then uio_release kern else yield opened
       }) (\<lambda>_ z. resources (snd z) = Some ?Z)) (s, [])"
  proof (rule post_mono, goal_cases)
    case (1 r z)
    then show ?case
      using opened [of "fst z" "snd z"] by (cases z; cases "r = 0") (simp_all add: reg_outcome_def drv_post post_bind_fun)
  qed
  then show ?thesis
    by (auto simp: post_def post_bind [symmetric] split: prod.splits)
qed

text \<open>
  Opening races with unregistering. \<^verbatim>\<open>uio_open\<close> leaves \<^verbatim>\<open>minor_lock\<close> before it takes a reference, and
  \<^verbatim>\<open>uio_unregister_device\<close> frees the device before it removes the minor number: when a device that
  nobody else holds is unregistered between the lookup and \<^verbatim>\<open>get_device\<close>, the open goes on with
  memory that has been freed.
\<close>

theorem open_races_unregister:
  assumes "registered s" "resources tr = Some (also_held (device_held s) (\<lambda>_. 0))"
    "run_state (uio_open_lookup kern minor) (s, tr) = (idev, t, u)" "idev \<noteq> 0"
    "run_state (uio_unregister_device kern True) (t, u) = ((), t', u')"
    "run_state (uio_open_found kern) (t', u') = (r, v)"
  shows "resources u' = Some (\<lambda>_. 0) \<and> resources (snd v) = None"
proof -
  let ?Z = "\<lambda>_. 0 :: nat"
  have free: "dev_free {}"
    by (simp add: dev_free_def attr_free_def)
  have "post (uio_open_lookup kern minor) (\<lambda>_ z. fst z = s \<and> resources (snd z) = Some (also_held ({} \<union> device_held s) ?Z)) (s, tr)"
    using assms(2) by (simp add: uio_open_lookup_def drv_post post_call_eq)
  from postD [OF this assms(3)] have u: "t = s" "resources u = Some (also_held ({} \<union> device_held s) ?Z)"
    by simp_all
  from postD [OF uio_unregister_device_post [OF u(2) free assms(1)] assms(5) [unfolded u(1)]]
  have u': "resources u' = Some ?Z"
    by simp
  have "post (uio_open_found kern) (\<lambda>_ z. resources (snd z) = None) (t', u')"
    using u' by (simp add: uio_open_found_def err_infoopen_def drv_post post_call_eq use_of_def)
  from postD [OF this assms(6)] u' show ?thesis by simp
qed

text \<open>A kernel that grants everything, and a module with a device to register.\<close>

definition granting :: kernel where
  "granting tr c = (if c = Kalloc Idev \<or> c = Kalloc Listener \<or> c = IdrFind 0 \<or> c = TryModuleGet then 1 else 0)"

definition plain_state :: uio_state where
  "plain_state = \<lparr>class_registered = True, ucdev = True,
     uinfo = \<lparr>info_name = Some ''uio'', info_version = Some ''1'', info_mem = [], info_port = [], info_irq = 3, info_has_open = False,
       info_has_release = False, info_has_mmap = False, info_has_irqcontrol = False, info_uio_dev = False\<rparr>,
     uidev = zeroed_device, listener_count = 0\<rparr>"

lemma granting_registers: "post (uio_register_device granting True True) (\<lambda>r _. r = 0) (plain_state, [])"
  by (simp add: uio_register_device_def uio_get_minor_def register_dev_def uio_dev_add_attributes_def add_maps_def add_portios_def
      register_irq_def drv_post post_call_eq granting_def plain_state_def zeroed_device_def map_sizes_def portio_sizes_def
      wants_irq_def UIO_IRQ_CUSTOM_def)

theorem open_races_unregister_witness:
  "\<exists>s tr t u t' u' r v. registered s \<and> resources tr = Some (also_held (device_held s) (\<lambda>_. 0))
    \<and> run_state (uio_open_lookup granting 0) (s, tr) = (1, t, u) \<and> run_state (uio_unregister_device granting True) (t, u) = ((), t', u')
    \<and> run_state (uio_open_found granting) (t', u') = (r, v) \<and> resources u' = Some (\<lambda>_. 0) \<and> resources (snd v) = None"
proof -
  obtain s tr where run: "run_state (uio_register_device granting True True) (plain_state, []) = (0, s, tr)"
    using granting_registers by (auto simp: post_def split: prod.splits)
  have "post (uio_register_device granting True True) (reg_outcome (\<lambda>_. 0) {} (\<lambda>_. 0)) (plain_state, [])"
    by (rule uio_register_device_post) (simp_all add: dev_free_def attr_free_def)
  from postD [OF this run] have s: "registered s" "resources tr = Some (also_held (device_held s) (\<lambda>_. 0))"
    by (simp_all add: reg_outcome_def)
  obtain t u where look: "run_state (uio_open_lookup granting 0) (s, tr) = (1, t, u)"
    by (auto simp: uio_open_lookup_def call_def granting_def State_Monad.bind_def)
  obtain t' u' where unreg: "run_state (uio_unregister_device granting True) (t, u) = ((), t', u')"
    by (metis old.unit.exhaust prod.collapse)
  obtain r v where found: "run_state (uio_open_found granting) (t', u') = (r, v)"
    by (metis prod.collapse)
  have "resources u' = Some (\<lambda>_. 0) \<and> resources (snd v) = None"
    by (rule open_races_unregister [OF s look _ unreg found]) simp
  with s look unreg found show ?thesis
    by (intro exI conjI) (assumption | elim conjE)+
qed

section \<open>Reads\<close>

lemma read_loop_returns:
  "read_once copy nonblock seen (env (i + d)) \<noteq> None \<Longrightarrow>
    \<exists>j r. i \<le> j \<and> j \<le> i + d \<and> read_once copy nonblock seen (env j) = Some r \<and> read_loop copy nonblock seen env i = Some r"
proof (induction d arbitrary: i)
  case 0
  then show ?case by (auto simp: read_loop.simps [of copy nonblock seen env i])
next
  case (Suc d)
  show ?case
  proof (cases "read_once copy nonblock seen (env i)")
    case None
    with Suc.IH [of "Suc i"] Suc.prems show ?thesis
      by (auto simp: read_loop.simps [of copy nonblock seen env i]) (metis Suc_leD)
  next
    case (Some r)
    then show ?thesis
      by (auto simp: read_loop.simps [of copy nonblock seen env i])
  qed
qed

lemma read_loop_reason:
  assumes "read_loop copy nonblock seen env i = Some r"
  shows "\<exists>j. read_once copy nonblock seen (env j) = Some r"
proof (rule read_loop.raw_induct [OF _ assms, where P = "\<lambda>copy nonblock seen env i r. \<exists>j. read_once copy nonblock seen (env j) = Some r"], goal_cases)
  case 1
  then show ?case by (auto split: option.splits)
qed

text \<open>
  C25. A read of four bytes returns exactly when some turn of its loop has a reason to: the device is
  gone or has no interrupt, its event count has moved, the file does not block, or a signal is
  pending. It then returns by the first such turn; it delivers an event count only if that differs
  from the last one delivered, and remembers it, and every other outcome is an error that leaves
  the listener as it was.
\<close>

theorem uio_read_returns:
  "((\<exists>k. \<not> turn_info (env k) \<or> turn_irq (env k) = 0 \<or> turn_event (env k) \<noteq> seen \<or> nonblock \<or> turn_signal (env k))
     \<longleftrightarrow> uio_read copy nonblock 4 seen env \<noteq> None)
   \<and> (\<forall>r seen'. uio_read copy nonblock 4 seen env = Some (r, seen') \<longrightarrow>
       (if r = 4 then seen' \<noteq> seen \<and> copy seen' = 0 \<and> (\<exists>k. turn_event (env k) = seen') else r < 0 \<and> seen' = seen))"
proof -
  have once: "read_once copy nonblock seen t \<noteq> None \<longleftrightarrow>
      \<not> turn_info t \<or> turn_irq t = 0 \<or> turn_event t \<noteq> seen \<or> nonblock \<or> turn_signal t" for t
    by (simp add: read_once_def)
  have "(\<exists>k. read_once copy nonblock seen (env k) \<noteq> None) \<longleftrightarrow> read_loop copy nonblock seen env 0 \<noteq> None"
    using read_loop_returns [of copy nonblock seen env 0] read_loop_reason [of copy nonblock seen env 0] by fastforce
  moreover have "if r = 4 then seen' \<noteq> seen \<and> copy seen' = 0 \<and> (\<exists>k. turn_event (env k) = seen') else r < 0 \<and> seen' = seen"
    if "read_loop copy nonblock seen env 0 = Some (r, seen')" for r seen'
    using read_loop_reason [OF that] by (auto simp: read_once_def errno_defs split: if_splits)
  ultimately show ?thesis
    by (simp add: uio_read_def once del: split_paired_Ex not_None_eq)
qed

definition late_event :: "nat \<Rightarrow> read_turn" where
  "late_event k = \<lparr>turn_info = True, turn_irq = 3, turn_event = (if k < 2 then 0 else 1), turn_signal = False\<rparr>"

theorem uio_read_returns_witness:
  "uio_read (\<lambda>_. 0) False 4 0 late_event = Some (4, 1) \<and> (\<exists>k. turn_event (late_event k) = 1)"
proof -
  have "uio_read (\<lambda>_. 0) False 4 0 late_event = Some (4, 1)"
    by (simp add: uio_read_def read_loop.simps [of _ _ _ _ 0] read_loop.simps [of _ _ _ _ "Suc 0"] read_loop.simps [of _ _ _ _ "Suc (Suc 0)"]
        read_once_def late_event_def)
  with uio_read_returns [of late_event 0 False "\<lambda>_. 0"] show ?thesis
    by simp
qed


section \<open>Mappings\<close>

lemma uio_find_mem_index_Some:
  "uio_find_mem_index i vma = Some mi \<longleftrightarrow> mi = unat (vm_pgoff vma) \<and> mi < length (info_mem i) \<and> mem_size (info_mem i ! mi) \<noteq> 0"
  by (auto simp: uio_find_mem_index_def)

definition remap_ok :: "uio_state \<Rightarrow> vm_area \<Rightarrow> kcall \<Rightarrow> bool" where
  "remap_ok s vma c \<longleftrightarrow> (\<forall>start pfn len. c = RemapPfnRange start pfn len \<longrightarrow>
     (\<exists>mi < length (info_mem (uinfo s)). mi = unat (vm_pgoff vma) \<and> start = vm_start vma \<and> unat start + unat len = unat (vm_end vma)
        \<and> push_bit PAGE_SHIFT pfn = mem_addr (info_mem (uinfo s) ! mi) \<and> len \<le> mem_size (info_mem (uinfo s) ! mi)))"

lemma aligned_shift: "page_offset a = 0 \<Longrightarrow> push_bit PAGE_SHIFT (drop_bit PAGE_SHIFT a) = a"
  by (simp add: page_offset_def push_bit_eq_mult drop_bit_eq_div take_bit_eq_mod)
     (metis add.right_neutral div_mult_mod_eq mult.commute)

lemma uio_mmap_remaps: "post (uio_mmap kern vma) (\<lambda>_ z. \<forall>c \<in> fst ` set (snd z). remap_ok s vma c) (s, [])"
proof (cases "vm_end vma < vm_start vma")
  case True
  then show ?thesis by (simp add: uio_mmap_def drv_post)
next
  case False
  then have len: "unat (vm_start vma) + unat (vm_end vma - vm_start vma) = unat (vm_end vma)"
    by (simp add: unat_sub word_le_nat_alt not_less)
  show ?thesis
    using False len
    by (auto simp: uio_mmap_def uio_mmap_physical_def drv_post post_call_eq remap_ok_def uio_find_mem_index_Some aligned_shift
        split: option.splits uio_memtype.splits)
qed


text \<open>A device with one region of two pages, of a given kind.\<close>

definition region_state :: "uio_memtype \<Rightarrow> uio_state" where
  "region_state ty = plain_state\<lparr>uidev := zeroed_device\<lparr>idev_info := True\<rparr>, uinfo := (uinfo plain_state)\<lparr>info_mem :=
     [\<lparr>mem_name = None, mem_addr = 0x80000000, mem_offs = 0, mem_size = 0x2000, mem_memtype = ty, mem_map = True\<rparr>]\<rparr>\<rparr>"

definition two_pages :: vm_area where
  "two_pages = \<lparr>vm_start = 0x7000, vm_end = 0x9000, vm_pgoff = 0, vm_dontexpand = False, vm_ops = NoVmOps\<rparr>"

lemmas region_defs = region_state_def two_pages_def plain_state_def zeroed_device_def uio_find_mem_index_def vma_pages_def actual_pages_def
  page_offset_def PAGE_SHIFT_def


text \<open>The page a fault asks for, when the number of pages fits.\<close>

lemma fault_page:
  fixes addr size j :: nat
  assumes "j < (addr mod 4096 + size + 4095) div 4096" "0 < size" "addr + size \<le> 2 ^ 64"
  shows "addr + j * 4096 < 2 ^ 64" "(addr + j * 4096) div 4096 \<le> (addr + size - 1) div 4096"
proof -
  have "Suc j * 4096 \<le> (addr mod 4096 + size + 4095) div 4096 * 4096"
    using assms(1) by simp
  also have "\<dots> \<le> addr mod 4096 + size + 4095"
    by simp
  finally have j: "j * 4096 < addr mod 4096 + size"
    by simp
  have "4096 * (addr div 4096) + j * 4096 \<le> addr + size - 1"
    using j mult_div_mod_eq [of 4096 addr] by linarith
  then have "(4096 * (addr div 4096) + j * 4096) div 4096 \<le> (addr + size - 1) div 4096"
    by (rule div_le_mono)
  then show le: "(addr + j * 4096) div 4096 \<le> (addr + size - 1) div 4096"
    by simp
  have "(addr + size - 1) div 4096 < 2 ^ 52"
    using assms(2,3) by (intro less_mult_imp_div_less) simp
  with le have "(addr + j * 4096) div 4096 < 2 ^ 52"
    by simp
  then show "addr + j * 4096 < 2 ^ 64"
    by (simp add: div_less_iff_less_mult)
qed

lemma fault_address:
  fixes a sz pg n :: u64
  assumes "pg < n" "n \<le> drop_bit PAGE_SHIFT (page_offset a + sz + push_bit PAGE_SHIFT 1 - 1)" "sz \<noteq> 0" "unat a + unat sz \<le> 2 ^ 64"
  shows "unat (a + push_bit PAGE_SHIFT pg) = unat a + unat pg * 4096"
    and "(unat a + unat pg * 4096) div 4096 \<le> (unat a + unat sz - 1) div 4096"
proof -
  have "unat (page_offset a + sz + push_bit PAGE_SHIFT 1 - 1) = (unat a mod 4096 + unat sz + 4095) mod 2 ^ 64"
    by (simp add: page_offset_def PAGE_SHIFT_def unat_word_ariths take_bit_eq_mod unat_mod mod_simps add.assoc) (simp only: add.commute [of 4095] add.assoc)
  then have "unat n \<le> (unat a mod 4096 + unat sz + 4095) mod 2 ^ 64 div 4096"
    using assms(2) by (simp add: word_le_nat_alt unat_drop_bit_eq drop_bit_eq_div PAGE_SHIFT_def unat_div)
  also have "\<dots> \<le> (unat a mod 4096 + unat sz + 4095) div 4096"
    by (intro div_le_mono) simp
  finally have j: "unat pg < (unat a mod 4096 + unat sz + 4095) div 4096"
    using assms(1) by (simp add: word_less_nat_alt)
  have "0 < unat sz"
    using assms(3) by (simp add: unat_gt_0)
  note page = fault_page [OF j this assms(4)]
  show "(unat a + unat pg * 4096) div 4096 \<le> (unat a + unat sz - 1) div 4096"
    by (rule page(2))
  have "unat pg * 4096 < 2 ^ 64"
    using page(1) by linarith
  then have "unat (push_bit PAGE_SHIFT pg) = unat pg * 4096"
    by (simp add: PAGE_SHIFT_def push_bit_eq_mult unat_word_ariths)
  then show "unat (a + push_bit PAGE_SHIFT pg) = unat a + unat pg * 4096"
    using page(1) by (simp add: unat_word_ariths)
qed

definition logical_ok :: "uio_state \<Rightarrow> vm_area \<Rightarrow> vm_area \<Rightarrow> bool" where
  "logical_ok s vma vma' \<longleftrightarrow> (vm_ops vma' = LogicalVmOps \<longrightarrow> vm_pgoff vma' = vm_pgoff vma \<and> vm_dontexpand vma'
     \<and> vma_pages vma \<le> actual_pages (info_mem (uinfo s) ! unat (vm_pgoff vma)))"

lemma uio_mmap_logical_pages:
  assumes "vm_ops vma = NoVmOps"
  shows "post (uio_mmap kern vma) (\<lambda>r z. fst z = s \<and> logical_ok s vma (snd r)) (s, tr)"
  using assms
  by (auto simp: uio_mmap_def uio_mmap_physical_def uio_mmap_logical_def drv_post post_call_eq logical_ok_def uio_find_mem_index_Some
      split: option.splits uio_memtype.splits)

definition fault_ok :: "uio_state \<Rightarrow> u64 \<Rightarrow> u64 \<Rightarrow> kcall \<Rightarrow> bool" where
  "fault_ok s idx pgoff c \<longleftrightarrow> (\<forall>a. c = VirtToPage a \<or> c = VmallocToPage a \<longrightarrow>
     mem_size (info_mem (uinfo s) ! unat idx) \<noteq> 0 \<and> a = mem_addr (info_mem (uinfo s) ! unat idx) + push_bit PAGE_SHIFT (pgoff - idx))"

lemma uio_vma_fault_addr: "post (uio_vma_fault kern vma pgoff) (\<lambda>_ z. \<forall>c \<in> fst ` set (snd z). fault_ok s (vm_pgoff vma) pgoff c) (s, [])"
  by (auto simp: uio_vma_fault_def drv_post post_call_eq fault_ok_def uio_find_mem_index_Some split: option.splits if_splits)

text \<open>
  C30. Page faults stay inside the region as well: once an area over logical or virtual memory has
  been mapped, a fault on any of its pages asks the kernel for a page between the page where the
  selected region starts and the page where it ends, provided the region itself does not wrap
  around the address space.
\<close>

theorem faults_in_region:
  assumes "run_state (uio_mmap kern vma) (s, tr) = ((rv, vma'), s', tr')" "vm_ops vma = NoVmOps" "vm_ops vma' = LogicalVmOps"
    and m: "m = info_mem (uinfo s) ! unat (vm_pgoff vma)" "unat (mem_addr m) + unat (mem_size m) \<le> 2 ^ 64"
    and "pgoff - vm_pgoff vma < vma_pages vma" "run_state (uio_vma_fault kern vma' pgoff) (s', []) = (rv', s'', tr'')"
    and "(c, r) \<in> set tr''" "c = VirtToPage a \<or> c = VmallocToPage a"
  shows "unat (mem_addr m) div 4096 \<le> unat a div 4096 \<and> unat a div 4096 \<le> (unat (mem_addr m) + unat (mem_size m) - 1) div 4096"
proof -
  from postD [OF uio_mmap_logical_pages [OF assms(2)] assms(1)] assms(3) m
  have v: "s' = s" "vm_pgoff vma' = vm_pgoff vma" "vma_pages vma \<le> actual_pages m"
    by (auto simp: logical_ok_def)
  from postD [OF uio_vma_fault_addr assms(7)] assms(8,9) v m
  have a: "mem_size m \<noteq> 0" "a = mem_addr m + push_bit PAGE_SHIFT (pgoff - vm_pgoff vma)"
    by (force simp: fault_ok_def)+
  show ?thesis
    using fault_address [OF assms(6) v(3) [unfolded actual_pages_def] a(1) m(2)] unfolding a(2) by simp
qed

theorem faults_in_region_witness:
  "\<exists>c r rv' s'' tr''. run_state (uio_vma_fault granting (snd (uio_mmap_logical two_pages)) 1) (region_state UIO_MEM_LOGICAL, []) = (rv', s'', tr'')
    \<and> (VirtToPage 0x80001000, r) \<in> set tr'' \<and> unat (0x80001000 :: u64) div 4096 \<le> (unat (0x80000000 :: u64) + unat (0x2000 :: u64) - 1) div 4096"
proof -
  have "post (uio_mmap granting two_pages) (\<lambda>r z. r = uio_mmap_logical two_pages \<and> fst z = region_state UIO_MEM_LOGICAL) (region_state UIO_MEM_LOGICAL, [])"
    by (simp add: uio_mmap_def drv_post post_call_eq region_defs)
  then obtain tr' where map: "run_state (uio_mmap granting two_pages) (region_state UIO_MEM_LOGICAL, [])
      = ((0, snd (uio_mmap_logical two_pages)), region_state UIO_MEM_LOGICAL, tr')"
    by (auto simp: post_def uio_mmap_logical_def split: prod.splits)
  have "post (uio_vma_fault granting (snd (uio_mmap_logical two_pages)) 1) (\<lambda>_ z. \<exists>r. (VirtToPage 0x80001000, r) \<in> set (snd z)) (region_state UIO_MEM_LOGICAL, [])"
    by (auto simp: uio_vma_fault_def drv_post post_call_eq region_defs uio_mmap_logical_def)
  then obtain rv' s'' tr'' r where fault: "run_state (uio_vma_fault granting (snd (uio_mmap_logical two_pages)) 1) (region_state UIO_MEM_LOGICAL, []) = (rv', s'', tr'')"
      "(VirtToPage 0x80001000, r) \<in> set tr''"
    by (auto simp: post_def split: prod.splits)
  have "unat (0x80001000 :: u64) div 4096 \<le> (unat (mem_addr (info_mem (uinfo (region_state UIO_MEM_LOGICAL)) ! unat (vm_pgoff two_pages)))
      + unat (mem_size (info_mem (uinfo (region_state UIO_MEM_LOGICAL)) ! unat (vm_pgoff two_pages))) - 1) div 4096"
    using faults_in_region [OF map _ _ refl _ _ fault(1,2)] by (simp add: region_defs uio_mmap_logical_def)
  with fault show ?thesis
    by (auto simp: region_defs)
qed

end
