(* ===== verification/Zeno_Pmu.thy ===== *)
theory Zeno_Pmu
  imports Zeno_Kernel
begin

unbundle bit_operations_syntax

text \<open>
  The driver that gives user mode the cycle counter
  (\<^verbatim>\<open>src/tools/drivers/arm-pmu-driver/pmu_el0_cycle_counter.c\<close>, \<^verbatim>\<open>pmuctl.h\<close>). Its inline assembly is modelled
  by the architected effect of \<^verbatim>\<open>msr\<close> and \<^verbatim>\<open>mrs\<close> on the performance monitor registers of one processor:
  \<^verbatim>\<open>pmcntenset_el0\<close> sets the bits that are written as one and keeps the others, \<^verbatim>\<open>pmintenclr_el1\<close> clears
  them. \<^verbatim>\<open>on_each_cpu\<close> runs a function on the registers of every processor in turn. \<open>kstrtol\<close>, the parser
  of the kernel for numbers, is a parameter, as is whether a page can be allocated and whether user
  memory can be read.
\<close>

section \<open>Registers\<close>

record pmu_regs =
  pmcnten :: u64
  pminten :: u64
  pmuserenr :: u64
  pmcr :: u64
  pmccfiltr :: u64

definition msr_pmcntenset :: "u64 \<Rightarrow> pmu_regs \<Rightarrow> pmu_regs" where
  "msr_pmcntenset v r = r\<lparr>pmcnten := pmcnten r OR v\<rparr>"

definition msr_pmintenclr :: "u64 \<Rightarrow> pmu_regs \<Rightarrow> pmu_regs" where
  "msr_pmintenclr v r = r\<lparr>pminten := pminten r AND NOT v\<rparr>"

text \<open>\<^verbatim>\<open>(u64)(1 << 31)\<close> shifts an \<^verbatim>\<open>int\<close>: the sign bit is copied into the upper half.\<close>

definition int_bit31 :: u64 where
  "int_bit31 = scast (push_bit 31 1 :: i32)"

definition BIT :: "nat \<Rightarrow> u64" where
  "BIT n = push_bit n 1"

definition enable_cycle_counter_el0 :: "pmu_regs \<Rightarrow> pmu_regs" where
  "enable_cycle_counter_el0 r =
    (let r = msr_pmintenclr int_bit31 r;
         r = msr_pmcntenset (BIT 31) r;
         r = r\<lparr>pmuserenr := BIT 0 OR BIT 2\<rparr>;
         val = pmcr r OR (BIT 0 OR BIT 2);
         r = r\<lparr>pmcr := val\<rparr>
     in r\<lparr>pmccfiltr := BIT 27\<rparr>)"

definition disable_cycle_counter_el0 :: "pmu_regs \<Rightarrow> pmu_regs" where
  "disable_cycle_counter_el0 r =
    (let r = msr_pmcntenset (push_bit 31 0) r
     in r\<lparr>pmuserenr := 0\<rparr>)"

definition on_each_cpu :: "(pmu_regs \<Rightarrow> pmu_regs) \<Rightarrow> pmu_regs list \<Rightarrow> pmu_regs list" where
  "on_each_cpu f cpus = map f cpus"

section \<open>The control\<close>

definition pmccntr_text :: "u64 \<Rightarrow> byte list" where
  "pmccntr_text enr = map (of_char :: char \<Rightarrow> byte) (''PMCCNTR='' @ [if enr AND (BIT 0 OR BIT 2) \<noteq> 0 then CHR ''1'' else CHR ''0'', CHR 0x0A])"

text \<open>
  \<^verbatim>\<open>snprintf\<close> writes at most \<open>sz\<close> bytes, the last of them a NUL, into the buffer and returns the
  length of the whole text.
\<close>

definition snprintf_buf :: "byte list \<Rightarrow> nat \<Rightarrow> byte list" where
  "snprintf_buf t sz = (if sz = 0 then [] else take (sz - 1) t @ [0])"

definition pmccntr_show :: "u64 \<Rightarrow> nat \<Rightarrow> byte list \<times> nat" where
  "pmccntr_show enr sz = (snprintf_buf (pmccntr_text enr) sz,
     if length (pmccntr_text enr) < sz then length (pmccntr_text enr) else sz)"

definition pmccntr_modify :: "(byte list \<Rightarrow> int option) \<Rightarrow> byte list \<Rightarrow> pmu_regs list \<Rightarrow> int \<times> pmu_regs list" where
  "pmccntr_modify kstrtol arg cpus = (case kstrtol arg of
     None \<Rightarrow> (- EINVAL, cpus)
   | Some val \<Rightarrow> (0, on_each_cpu (if val \<noteq> 0 then enable_cycle_counter_el0 else disable_cycle_counter_el0) cpus))"

section \<open>File operations\<close>

definition PMU_PAGE :: nat where "PMU_PAGE = 4096"

text \<open>\<^verbatim>\<open>simple_read_from_buffer\<close> copies what is left behind the position, at most \<open>count\<close> bytes of it.\<close>

definition simple_read :: "nat \<Rightarrow> nat \<Rightarrow> byte list \<Rightarrow> byte list" where
  "simple_read count pos buf = take count (drop pos buf)"

text \<open>A page from \<^verbatim>\<open>kzalloc\<close> into which \<open>bs\<close> has been written at \<open>0\<close>.\<close>

definition page_with :: "byte list \<Rightarrow> byte list" where
  "page_with bs = bs @ replicate (PMU_PAGE - length bs) 0"

definition pmuctl_read :: "bool \<Rightarrow> u64 \<Rightarrow> nat \<Rightarrow> nat \<Rightarrow> int + byte list" where
  "pmuctl_read alloc enr count ppos =
    (if 0 < ppos then Inr []
     else if PMU_PAGE < count then Inl (- E2BIG)
     else if \<not> alloc then Inl (- ENOMEM)
     else let (bs, sz) = pmccntr_show enr count;
              cur = sz;
              count = count - sz
          in Inr (simple_read count ppos (take cur (page_with bs))))"

text \<open>\<^verbatim>\<open>strsep(&val, "=")\<close> and \<^verbatim>\<open>strim\<close>.\<close>

definition strsep_eq :: "byte list \<Rightarrow> byte list \<times> byte list option" where
  "strsep_eq bs = (let name = takeWhile (\<lambda>b. b \<noteq> 61) bs in (name, if length name < length bs then Some (drop (Suc (length name)) bs) else None))"

definition is_blank :: "byte \<Rightarrow> bool" where
  "is_blank b \<longleftrightarrow> b = 32 \<or> (9 \<le> b \<and> b \<le> 13) \<or> b = 0xA0"

definition strim :: "byte list \<Rightarrow> byte list" where
  "strim bs = rev (dropWhile is_blank (rev (dropWhile is_blank bs)))"

definition PMCCNTR_NAME :: "byte list" where
  "PMCCNTR_NAME = map (of_char :: char \<Rightarrow> byte) ''PMCCNTR''"

datatype pmu_result = Returned int | NoTerminator

definition pmuctl_write :: "(byte list \<Rightarrow> int option) \<Rightarrow> bool \<Rightarrow> bool \<Rightarrow> byte list \<Rightarrow> pmu_regs list \<Rightarrow> pmu_result \<times> pmu_regs list" where
  "pmuctl_write kstrtol alloc copied userbuf cpus =
    (if PMU_PAGE < length userbuf then (Returned (- E2BIG), cpus)
     else if \<not> alloc then (Returned (- ENOMEM), cpus)
     else if \<not> copied then (Returned (- EIO), cpus)
     else if 0 \<notin> set (page_with userbuf) then (NoTerminator, cpus)
     else let str = takeWhile (\<lambda>b. b \<noteq> 0) (page_with userbuf);
              (name, val) = strsep_eq str;
              name = strim name
          in case val of
               None \<Rightarrow> (Returned (- EINVAL), cpus)
             | Some val \<Rightarrow>
                 if name = PMCCNTR_NAME then
                   (case pmccntr_modify kstrtol (strim val) cpus of (rv, cpus) \<Rightarrow>
                      (Returned (if rv = 0 then int (length userbuf) else rv), cpus))
                 else (Returned (- EINVAL), cpus))"

definition PMUCTL_IOC_MAGIC :: u32 where "PMUCTL_IOC_MAGIC = 0xF1"
definition IOC_WRITE :: u32 where "IOC_WRITE = 1"
definition IOC_READ :: u32 where "IOC_READ = 2"

definition IOC_TYPE :: "u32 \<Rightarrow> u32" where "IOC_TYPE cmd = drop_bit 8 cmd AND 0xFF"
definition IOC_DIR :: "u32 \<Rightarrow> u32" where "IOC_DIR cmd = drop_bit 30 cmd AND 0x3"
definition IOC_SIZE :: "u32 \<Rightarrow> u32" where "IOC_SIZE cmd = drop_bit 16 cmd AND 0x3FFF"

text \<open>\<^verbatim>\<open>_IOW(PMUCTL_IOC_MAGIC, PM_CTL_PMCCNTR, struct pmuctl_pmccntr_data)\<close>, a structure of one \<^verbatim>\<open>int\<close>.\<close>

definition PMU_IOC_PMCCNTR :: u32 where
  "PMU_IOC_PMCCNTR = push_bit 30 IOC_WRITE OR push_bit 8 PMUCTL_IOC_MAGIC OR 0 OR push_bit 16 4"

text \<open>
  \<open>access_ok\<close> is the check of the user range; \<open>user\<close> the structure at the address, if it can be read.
\<close>

definition pmuctl_ioctl :: "(u32 \<Rightarrow> bool) \<Rightarrow> i32 option \<Rightarrow> u32 \<Rightarrow> pmu_regs list \<Rightarrow> int \<times> pmu_regs list" where
  "pmuctl_ioctl access_ok user cmd cpus =
    (if IOC_TYPE cmd \<noteq> PMUCTL_IOC_MAGIC then (- ENOTTY, cpus)
     else
       let err = (if IOC_DIR cmd AND IOC_READ \<noteq> 0 then \<not> access_ok (IOC_SIZE cmd)
                  else if IOC_TYPE cmd AND IOC_WRITE \<noteq> 0 then \<not> access_ok (IOC_SIZE cmd)
                  else False)
       in if err then (- EFAULT, cpus)
          else if cmd = PMU_IOC_PMCCNTR then
            (case user of
               None \<Rightarrow> (- EIO, cpus)
             | Some enable \<Rightarrow> (0, on_each_cpu (if enable \<noteq> 0 then enable_cycle_counter_el0 else disable_cycle_counter_el0) cpus))
          else (- ENOTTY, cpus))"

definition pmuctl_init :: "int \<Rightarrow> pmu_regs list \<Rightarrow> int \<times> pmu_regs list" where
  "pmuctl_init misc_register cpus =
    (if misc_register \<noteq> 0 then (misc_register, cpus) else (0, on_each_cpu enable_cycle_counter_el0 cpus))"

definition pmuctl_fini :: "pmu_regs list \<Rightarrow> pmu_regs list" where
  "pmuctl_fini cpus = on_each_cpu disable_cycle_counter_el0 cpus"

section \<open>Properties\<close>

lemma pmccntr_text_length [simp]: "length (pmccntr_text enr) = 10"
  by (simp add: pmccntr_text_def)

lemma int_bit31_val: "int_bit31 = 0xFFFFFFFF80000000"
  by (simp add: int_bit31_def push_bit_eq_mult scast_eq)

text \<open>The type of the driver's commands has the bit of \<^verbatim>\<open>_IOC_WRITE\<close>: the range is checked for every command.\<close>

lemma ioctl_always_checks:
  "IOC_TYPE cmd = PMUCTL_IOC_MAGIC \<Longrightarrow> \<not> access_ok (IOC_SIZE cmd) \<Longrightarrow> pmuctl_ioctl access_ok user cmd cpus = (- EFAULT, cpus)"
proof -
  assume a: "IOC_TYPE cmd = PMUCTL_IOC_MAGIC" "\<not> access_ok (IOC_SIZE cmd)"
  then have "IOC_TYPE cmd AND IOC_WRITE \<noteq> 0"
    by (simp add: PMUCTL_IOC_MAGIC_def IOC_WRITE_def)
  with a show ?thesis
    unfolding pmuctl_ioctl_def Let_def by presburger
qed

lemma read_text:
  "count \<le> PMU_PAGE \<Longrightarrow> pmuctl_read True enr count 0 = Inr (take (count - 10) (pmccntr_text enr))"
proof -
  assume "count \<le> PMU_PAGE"
  moreover have "take (min (count - 10) 10) (pmccntr_text enr) = take (count - 10) (pmccntr_text enr)"
    by (cases "count - 10 \<le> 10") simp_all
  ultimately show ?thesis
    by (cases "count \<le> 10")
       (auto simp: pmuctl_read_def pmccntr_show_def snprintf_buf_def simple_read_def page_with_def PMU_PAGE_def)
qed

text \<open>
  A read of the control file returns the tail of its buffer only: the space the text takes is
  subtracted from the caller's count before the text is copied, so a reader with a buffer of
  \<open>count\<close> bytes, at most a page, receives the first \<open>count - 10\<close> of the ten bytes of the text, and a
  reader whose buffer holds exactly the text receives the end of the file.
\<close>

theorem pmuctl_read_truncates:
  "count \<le> PMU_PAGE \<Longrightarrow> pmuctl_read True enr count 0 = Inr (take (count - 10) (pmccntr_text enr))"
  by (rule read_text)

theorem pmuctl_read_truncates_witness:
  "pmuctl_read True 5 10 0 = Inr [] \<and> pmuctl_read True 5 20 0 = Inr (pmccntr_text 5)"
  using pmuctl_read_truncates [of 10 5] pmuctl_read_truncates [of 20 5] by (simp add: PMU_PAGE_def)

text \<open>
  Disabling does not stop the counter. Enabling sets the enable bit of the cycle counter and
  opens it to user mode; disabling afterwards closes it to user mode, but it writes zero to a
  register in which only ones have an effect, so the counter stays enabled.
\<close>

theorem disable_keeps_counting:
  "bit (pmcnten (enable_cycle_counter_el0 r)) 31 \<and> pmuserenr (enable_cycle_counter_el0 r) = 5
   \<and> bit (pmcnten (disable_cycle_counter_el0 (enable_cycle_counter_el0 r))) 31
   \<and> pmuserenr (disable_cycle_counter_el0 (enable_cycle_counter_el0 r)) = 0"
  by (simp add: enable_cycle_counter_el0_def disable_cycle_counter_el0_def msr_pmcntenset_def msr_pmintenclr_def BIT_def Let_def
      bit_or_iff push_bit_of_1 bit_exp_iff)

lemma strim_line:
  assumes "\<And>b. b \<in> set v \<Longrightarrow> \<not> is_blank b"
  shows "strim (v @ [10]) = v"
proof -
  have "dropWhile is_blank (v @ [10]) = (if v = [] then [] else v @ [10])"
    using assms by (cases v) (auto simp: is_blank_def)
  moreover have "dropWhile is_blank (rev v) = rev v"
    using assms by (metis dropWhile_eq_self_iff hd_in_set set_rev)
  then have "dropWhile is_blank (10 # rev v) = rev v"
    by (simp add: is_blank_def)
  ultimately show ?thesis
    by (simp add: strim_def)
qed


text \<open>The conversion of one digit, as an instance of the kernel's parser.\<close>

definition one_digit :: "byte list \<Rightarrow> int option" where
  "one_digit bs = (if bs = [48] then Some 0 else if bs = [49] then Some 1 else None)"

text \<open>A write of a whole page without a NUL leaves the driver parsing a text that does not end.\<close>

lemma pmuctl_write_full_page:
  "length buf = PMU_PAGE \<Longrightarrow> 0 \<notin> set buf \<Longrightarrow> pmuctl_write kstrtol True True buf cpus = (NoTerminator, cpus)"
  by (simp add: pmuctl_write_def page_with_def)

definition idle_regs :: pmu_regs where
  "idle_regs = \<lparr>pmcnten = 0, pminten = 0, pmuserenr = 0, pmcr = 0, pmccfiltr = 0\<rparr>"


end
