(* ===== verification/Zeno_Layout.thy ===== *)
theory Zeno_Layout
  imports Zeno_Request Zeno_Rpc
begin

text \<open>
  The structures of \<^verbatim>\<open>src/src/include/request_types.h\<close>, \<^verbatim>\<open>src/src/include/enc_types.h\<close> and
  \<^verbatim>\<open>src/src/include/rpc.h\<close> as C types. \<open>size_of\<close>, \<open>align_of\<close> and \<open>locate\<close> are the layout rules of
  the 64-bit ABI the programs are compiled for: a member starts at the next multiple of its
  alignment, and a structure is padded to a multiple of its own. \<open>locate t xs\<close> is the offset and
  the type of the member that the selectors \<open>xs\<close> reach. A flexible array member is an array whose
  length is an argument of the structure. \<open>locate_layout\<close> and \<open>locate_disjoint\<close> hold for every
  well-formed type: a member is inside its structure and aligned, and two members that are not
  one inside the other do not overlap. \<^verbatim>\<open>Zeno_Frame\<close> shows that the worker respects this layout.
\<close>

section \<open>C types and their layout\<close>

datatype ctype = Scalar nat | Arr ctype nat | Struct "(string \<times> ctype) list"

datatype sel = Member string | Elem nat

definition round_up :: "nat \<Rightarrow> nat \<Rightarrow> nat" where
  "round_up a n = (n + a - 1) div a * a"

fun align_of :: "ctype \<Rightarrow> nat" and aligns :: "(string \<times> ctype) list \<Rightarrow> nat" where
  "align_of (Scalar n) = n"
| "align_of (Arr t n) = align_of t"
| "align_of (Struct fs) = aligns fs"
| "aligns [] = 1"
| "aligns ((f, t) # fs) = max (align_of t) (aligns fs)"

fun size_of :: "ctype \<Rightarrow> nat" and end_of :: "nat \<Rightarrow> (string \<times> ctype) list \<Rightarrow> nat" where
  "size_of (Scalar n) = n"
| "size_of (Arr t n) = n * size_of t"
| "size_of (Struct fs) = round_up (aligns fs) (end_of 0 fs)"
| "end_of p [] = p"
| "end_of p ((f, t) # fs) = end_of (round_up (align_of t) p + size_of t) fs"

fun member_at :: "nat \<Rightarrow> (string \<times> ctype) list \<Rightarrow> string \<Rightarrow> (nat \<times> ctype) option" where
  "member_at p [] f = None"
| "member_at p ((g, t) # fs) f =
     (if f = g then Some (round_up (align_of t) p, t)
      else member_at (round_up (align_of t) p + size_of t) fs f)"

fun select :: "ctype \<Rightarrow> sel \<Rightarrow> (nat \<times> ctype) option" where
  "select (Struct fs) (Member f) = member_at 0 fs f"
| "select (Arr t n) (Elem i) = (if i < n then Some (i * size_of t, t) else None)"
| "select t x = None"

primrec locate :: "ctype \<Rightarrow> sel list \<Rightarrow> (nat \<times> ctype) option" where
  "locate t [] = Some (0, t)"
| "locate t (x # xs) = (case select t x of None \<Rightarrow> None
     | Some (q, u) \<Rightarrow> map_option (\<lambda>(d, v). (q + d, v)) (locate u xs))"

fun wf_type :: "ctype \<Rightarrow> bool" and wf_members :: "(string \<times> ctype) list \<Rightarrow> bool" where
  "wf_type (Scalar n) \<longleftrightarrow> n \<in> {1, 2, 4, 8}"
| "wf_type (Arr t n) \<longleftrightarrow> wf_type t"
| "wf_type (Struct fs) \<longleftrightarrow> wf_members fs"
| "wf_members [] \<longleftrightarrow> True"
| "wf_members ((f, t) # fs) \<longleftrightarrow> wf_type t \<and> wf_members fs"

section \<open>Members are inside, aligned and disjoint\<close>

lemma round_up_ge: "0 < a \<Longrightarrow> n \<le> round_up a n"
proof -
  assume a: "0 < a"
  have "n + a - 1 < ((n + a - 1) div a + 1) * a"
    using a by (metis Suc_eq_plus1 dividend_less_div_times mult.commute mult_Suc_right add.commute mult_Suc)
  with a show ?thesis by (simp add: round_up_def)
qed

lemma round_up_dvd: "a dvd round_up a n"
  by (simp add: round_up_def)

lemma align_cases:
  "wf_type t \<Longrightarrow> align_of t \<in> {1, 2, 4, 8}"
  "wf_members fs \<Longrightarrow> aligns fs \<in> {1, 2, 4, 8}"
  by (induction t and fs rule: align_of_aligns.induct) (auto simp: max_def)

lemma align_pos:
  "wf_type t \<Longrightarrow> 0 < align_of t"
  "wf_members fs \<Longrightarrow> 0 < aligns fs"
  using align_cases(1) [of t] align_cases(2) [of fs] by auto

lemma align_dvd_max:
  assumes "a \<in> {1, 2, 4, 8::nat}" "b \<in> {1, 2, 4, 8}"
  shows "a dvd max a b" "b dvd max a b"
  using assms by (auto simp: max_def)

lemma align_dvd_size: "wf_type t \<Longrightarrow> align_of t dvd size_of t"
  by (induction t) (auto simp: round_up_dvd intro: dvd_mult)

lemma end_of_ge: "wf_members fs \<Longrightarrow> p \<le> end_of p fs"
proof (induction fs arbitrary: p)
  case (Cons ft fs)
  obtain f t where ft: "ft = (f, t)" by (cases ft)
  with Cons.prems have wf: "wf_type t" "wf_members fs" by simp_all
  have "p \<le> round_up (align_of t) p + size_of t"
    using round_up_ge [OF align_pos(1) [OF wf(1)], of p] by simp
  also have "\<dots> \<le> end_of (round_up (align_of t) p + size_of t) fs"
    by (rule Cons.IH [OF wf(2)])
  finally show ?case by (simp add: ft)
qed simp

lemma member_at_layout:
  assumes "wf_members fs" "member_at p fs f = Some (q, u)"
  shows "p \<le> q \<and> q + size_of u \<le> end_of p fs \<and> align_of u dvd q \<and> align_of u dvd aligns fs \<and> wf_type u"
  using assms
proof (induction fs arbitrary: p)
  case (Cons gt fs)
  obtain g t where gt: "gt = (g, t)" by (cases gt)
  with Cons.prems(1) have wf: "wf_type t" "wf_members fs" by simp_all
  note up = round_up_ge [OF align_pos(1) [OF wf(1)], of p]
  note max = align_dvd_max [OF align_cases(1) [OF wf(1)] align_cases(2) [OF wf(2)]]
  show ?case
  proof (cases "f = g")
    case True
    with Cons.prems(2) gt have "u = t" "q = round_up (align_of t) p" by auto
    then show ?thesis
      using up end_of_ge [OF wf(2), of "q + size_of t"] max(1) wf(1) by (simp add: gt round_up_dvd)
  next
    case False
    with Cons.prems(2) gt have "member_at (round_up (align_of t) p + size_of t) fs f = Some (q, u)" by simp
    from Cons.IH [OF wf(2) this] up max(2) show ?thesis by (auto simp: gt)
  qed
qed simp

lemma members_disjoint:
  assumes "wf_members fs" "member_at p fs f = Some (q, u)" "member_at p fs g = Some (r, v)" "f \<noteq> g"
  shows "q + size_of u \<le> r \<or> r + size_of v \<le> q"
  using assms
proof (induction fs arbitrary: p)
  case (Cons ht fs)
  obtain h t where ht: "ht = (h, t)" by (cases ht)
  with Cons.prems(1) have wf: "wf_members fs" by simp
  consider "f = h" | "g = h" | "f \<noteq> h" "g \<noteq> h" by blast
  then show ?case
  proof cases
    case 3
    with Cons show ?thesis by (simp add: ht)
  qed (use Cons.prems member_at_layout [OF wf] in \<open>auto simp: ht\<close>)
qed simp

lemma select_layout:
  assumes "wf_type t" "select t x = Some (q, u)"
  shows "q + size_of u \<le> size_of t \<and> align_of u dvd q \<and> align_of u dvd align_of t \<and> wf_type u"
  using assms
proof (cases rule: select.cases [of "(t, x)"])
  case (1 fs f)
  with assms have wf: "wf_members fs" and at: "member_at 0 fs f = Some (q, u)" by simp_all
  from member_at_layout [OF this] round_up_ge [OF align_pos(2) [OF wf], of "end_of 0 fs"] 1
  show ?thesis by auto
next
  case (2 e n i)
  with assms have "i < n" "q = i * size_of e" "u = e" "wf_type e" by (auto split: if_splits)
  moreover from \<open>i < n\<close> have "Suc i * size_of e \<le> n * size_of e" by (simp only: mult_le_mono1 Suc_leI)
  ultimately show ?thesis using 2 align_dvd_size [of e] by auto
qed (use assms in auto)

lemma select_disjoint:
  assumes "wf_type t" "select t x = Some (q, u)" "select t y = Some (r, v)" "x \<noteq> y"
  shows "q + size_of u \<le> r \<or> r + size_of v \<le> q"
proof (cases t)
  case (Struct fs)
  with assms show ?thesis by (cases x; cases y) (auto dest: members_disjoint)
next
  case (Arr e n)
  from assms(2) Arr obtain i where i: "x = Elem i" by (cases x) simp_all
  from assms(3) Arr obtain j where j: "y = Elem j" by (cases y) simp_all
  have ij: "q = i * size_of e" "u = e" "r = j * size_of e" "v = e"
    using assms(2,3) by (auto simp: Arr i j split: if_splits)
  from assms(4) i j have "Suc i \<le> j \<or> Suc j \<le> i" by auto
  then have "Suc i * size_of e \<le> j * size_of e \<or> Suc j * size_of e \<le> i * size_of e"
    using mult_le_mono1 [of "Suc i" j "size_of e"] mult_le_mono1 [of "Suc j" i "size_of e"] by blast
  with ij show ?thesis by (simp add: add.commute)
qed (use assms in simp)

lemma locate_layout:
  assumes "wf_type t" "locate t xs = Some (q, u)"
  shows "q + size_of u \<le> size_of t \<and> align_of u dvd q \<and> align_of u dvd align_of t \<and> wf_type u"
  using assms
proof (induction xs arbitrary: t q)
  case (Cons x xs)
  from Cons.prems(2) obtain p v d where pv: "select t x = Some (p, v)" "locate v xs = Some (d, u)" "q = p + d"
    by (auto split: option.splits)
  from select_layout [OF Cons.prems(1) pv(1)] have v: "p + size_of v \<le> size_of t" "align_of v dvd p"
    "align_of v dvd align_of t" "wf_type v" by simp_all
  from Cons.IH [OF v(4) pv(2)] v pv(3) show ?case
    by (auto intro: dvd_trans dvd_add)
qed simp

lemma locate_disjoint:
  assumes "wf_type t" "locate t (ps @ x # xs) = Some (q, u)" "locate t (ps @ y # ys) = Some (r, v)" "x \<noteq> y"
  shows "q + size_of u \<le> r \<or> r + size_of v \<le> q"
  using assms
proof (induction ps arbitrary: t q r)
  case Nil
  then obtain q1 u1 d1 r1 v1 d2 where
    s: "select t x = Some (q1, u1)" "locate u1 xs = Some (d1, u)" "q = q1 + d1"
       "select t y = Some (r1, v1)" "locate v1 ys = Some (d2, v)" "r = r1 + d2"
    by (auto split: option.splits)
  have "wf_type u1" "wf_type v1"
    using select_layout [OF Nil(1) s(1)] select_layout [OF Nil(1) s(4)] by simp_all
  from locate_layout [OF this(1) s(2)] locate_layout [OF this(2) s(5)] select_disjoint [OF Nil(1) s(1,4) Nil(4)] s
  show ?case by auto
next
  case (Cons p ps)
  then obtain w k d1 d2 where
    s: "select t p = Some (k, w)" "locate w (ps @ x # xs) = Some (d1, u)" "q = k + d1"
       "locate w (ps @ y # ys) = Some (d2, v)" "r = k + d2"
    by (auto split: option.splits)
  have "wf_type w"
    using select_layout [OF Cons.prems(1) s(1)] by simp
  from Cons.IH [OF this s(2,4) Cons.prems(4)] s show ?case by auto
qed

section \<open>The structures\<close>

abbreviation C_int :: ctype where "C_int \<equiv> Scalar 4"
abbreviation C_uint64 :: ctype where "C_uint64 \<equiv> Scalar 8"
abbreviation C_RID :: ctype where "C_RID \<equiv> Scalar 8"
abbreviation C_bytes :: "nat \<Rightarrow> ctype" where "C_bytes n \<equiv> Arr (Scalar 1) n"

text \<open>
  \<^verbatim>\<open>ENCTYPE n\<close> is \<^verbatim>\<open>DEFINE_ENCTYPE\<close> with \<open>n\<close> bytes of data: \<^verbatim>\<open>EncInt\<close> and \<^verbatim>\<open>EncFloat\<close> are
  \<^verbatim>\<open>ENCTYPE 4\<close>, \<^verbatim>\<open>EncTimestamp\<close> is \<^verbatim>\<open>ENCTYPE 8\<close>, \<^verbatim>\<open>EncCStr\<close> is \<^verbatim>\<open>ENCTYPE STRING_LENGTH\<close>. The four macros
  that declare request structures are functions of the types they are given.
\<close>

named_theorems layout_defs \<open>the structures of the requests\<close>

definition ENCTYPE :: "nat \<Rightarrow> ctype" where [layout_defs]:
  "ENCTYPE data_size = Struct [(''iv'', C_bytes IV_SIZE), (''tag'', C_bytes TAG_SIZE), (''data'', C_bytes data_size)]"

definition EncStr :: ctype where [layout_defs]:
  "EncStr = Struct [(''len'', Scalar 4), (''enc_cstr'', ENCTYPE STRING_LENGTH)]"

definition Str :: ctype where [layout_defs]:
  "Str = Struct [(''len'', Scalar 4), (''data'', C_bytes STRING_LENGTH)]"

definition BaseRequest :: ctype where [layout_defs]:
  "BaseRequest = Struct [(''status'', C_int), (''reqType'', C_int), (''resp'', C_int)]"

definition request_struct :: "(string \<times> ctype) list \<Rightarrow> ctype" where [layout_defs]:
  "request_struct fs = Struct ((''common'', BaseRequest) # fs)"

definition EncRequestData :: "ctype \<Rightarrow> ctype \<Rightarrow> ctype" where [layout_defs]:
  "EncRequestData enc_type plain_type = request_struct [(''plaintext'', plain_type), (''ciphertext'', enc_type)]"

definition DecRequestData :: "ctype \<Rightarrow> ctype \<Rightarrow> ctype" where [layout_defs]:
  "DecRequestData enc_type plain_type = request_struct [(''ciphertext'', enc_type), (''plaintext'', plain_type)]"

definition PutEncIntoKVRequestData :: "ctype \<Rightarrow> ctype" where [layout_defs]:
  "PutEncIntoKVRequestData enc_type = request_struct [(''res'', C_RID), (''enc'', enc_type)]"

definition GetEncFromKVRequestData :: "ctype \<Rightarrow> ctype" where [layout_defs]:
  "GetEncFromKVRequestData enc_type = request_struct [(''res'', enc_type), (''dec'', C_RID)]"

definition PromoteRequestData :: ctype where [layout_defs]:
  "PromoteRequestData = request_struct [(''local'', C_RID), (''target'', C_RID), (''partition'', C_RID),
     (''global'', C_RID)]"

definition BatchRequestData :: "nat \<Rightarrow> ctype" where [layout_defs]:
  "BatchRequestData n = request_struct [(''size'', C_uint64), (''nreqs'', C_int), (''buf'', C_bytes n)]"

definition KVRequestData :: "nat \<Rightarrow> ctype" where [layout_defs]:
  "KVRequestData n = request_struct [(''size'', C_uint64), (''key'', C_RID), (''value'', C_bytes n)]"

definition WalRidItem :: ctype where [layout_defs]:
  "WalRidItem = Struct [(''type'', C_int), (''rid'', C_RID)]"

definition WalAppendBatchRequestData :: ctype where [layout_defs]:
  "WalAppendBatchRequestData = request_struct [(''nitems'', C_int), (''items'', Arr WalRidItem (nat WAL_RID_BATCH_SIZE))]"

definition WalMaterializeBatchRequestData :: "nat \<Rightarrow> ctype" where [layout_defs]:
  "WalMaterializeBatchRequestData n = request_struct [(''nitems'', C_int), (''payload_len'', C_uint64),
     (''items'', Arr WalRidItem WAL_MATERIALIZE_RID_BATCH_SIZE), (''payload'', C_bytes n)]"

definition WalReplayPayloadRequestData :: "nat \<Rightarrow> ctype" where [layout_defs]:
  "WalReplayPayloadRequestData n = request_struct [(''payload_len'', C_uint64), (''payload'', C_bytes n)]"

definition CmpRequestData :: ctype where [layout_defs]:
  "CmpRequestData = request_struct [(''left'', C_RID), (''right'', C_RID), (''cmp'', C_int)]"

definition CalcRequestData :: ctype where [layout_defs]:
  "CalcRequestData = request_struct [(''left'', C_RID), (''right'', C_RID), (''res'', C_RID)]"

definition BulkRequestData :: ctype where [layout_defs]:
  "BulkRequestData = request_struct [(''bulk_size'', C_int), (''keys'', Arr C_RID BULK_SIZE), (''res'', C_RID)]"

definition TimestampExtractYearRequestData :: ctype where [layout_defs]:
  "TimestampExtractYearRequestData = request_struct [(''in'', C_RID), (''res'', C_RID)]"

definition SubstringRequestData :: ctype where [layout_defs]:
  "SubstringRequestData = request_struct [(''str'', C_RID), (''start'', C_RID), (''length'', C_RID), (''res'', C_RID)]"

definition SingleArgRequestData :: ctype where [layout_defs]:
  "SingleArgRequestData = request_struct []"

definition OpsReq :: ctype where [layout_defs]:
  "OpsReq = Struct [(''lock'', C_int), (''__res'', C_int), (''status'', C_int), (''free_id'', C_int), (''ret_id'', C_int),
     (''bitmap'', Arr (Scalar 8) BITMAP_SIZE)]"

lemmas layout_consts = IV_SIZE_def TAG_SIZE_def STRING_LENGTH_def BULK_SIZE_def WAL_RID_BATCH_SIZE_def
  WAL_MATERIALIZE_RID_BATCH_SIZE_def BITMAP_SIZE_val REQ_REGION_SIZE_def

lemmas layout_simps = layout_defs layout_consts round_up_def

section \<open>Batches\<close>

text \<open>
  The requests of a batch follow the batch header at offset 28, so that the 64-bit members of
  every one of them are at odd multiples of four.
\<close>

theorem batch_requests_misaligned:
  assumes "8 dvd a"
  shows "locate (BatchRequestData n) [Member ''buf''] = Some (28, C_bytes n)
    \<and> \<not> align_of (KVRequestData k) dvd a + 28 + sum_list (map kv_size ks)"
proof -
  have "8 dvd sum_list (map kv_size ks)"
  proof (induction ks)
    case (Cons x ks)
    have "8 dvd kv_size x" by (simp add: kv_size_def)
    with Cons show ?case by (simp only: list.map sum_list.Cons dvd_add)
  qed simp
  moreover have "\<not> 8 dvd a + 28 + j" if "8 dvd a" "8 dvd j" for a j :: nat
    using that by presburger
  ultimately show ?thesis using assms by (simp add: layout_simps)
qed

text \<open>The header of the shared memory ends before the first region, and regions are aligned.\<close>

lemma bitmap_below_regions: "size_of OpsReq \<le> 1024 \<and> align_of OpsReq dvd 1024 + REQ_REGION_SIZE * n"
proof -
  have "align_of OpsReq = 8" "size_of OpsReq = 96" by (simp_all add: layout_simps)
  moreover have "8 dvd 1024 + REQ_REGION_SIZE * n"
    by (rule dvd_add) (simp_all add: REQ_REGION_SIZE_def dvd_mult2)
  ultimately show ?thesis by simp
qed

end
