(* ===== verification/Zeno_Frame.thy ===== *)
theory Zeno_Frame
  imports Zeno_Layout
begin

text \<open>
  What a worker writes into the shared memory. \<open>result_members\<close> names, for each command, the
  structure of \<^verbatim>\<open>src/src/include/request_types.h\<close> that the request is and the members that hold its
  result. \<open>touches A c Q\<close> says that a program of the worker changes no byte outside \<open>A\<close> and returns
  values with \<open>Q\<close>; the rules in \<open>touch\<close> follow the handler. The theorem says that every byte the
  handler changes belongs to the response code or to a result member.
\<close>

section \<open>Programs that write inside an area\<close>

text \<open>
  What the code relies on of the cipher of mbedtls, apart from its correctness: it writes as
  many bytes as it is given, and a tag of the length it is asked for.
\<close>

definition gcm_sized :: "mbedtls \<Rightarrow> bool" where
  "gcm_sized lib \<longleftrightarrow>
     (\<forall>key iv pt. length iv = IV_SIZE \<longrightarrow> 
        length (fst (snd (mb_crypt_and_tag lib key iv pt))) = length pt \<and>
        length (snd (snd (mb_crypt_and_tag lib key iv pt))) = TAG_SIZE) \<and>
     (\<forall>key iv tag ct. length (snd (mb_auth_decrypt lib key iv tag ct)) = length ct)"

definition touches :: "nat set \<Rightarrow> (worker_state, 'a) kvm \<Rightarrow> ('a \<Rightarrow> bool) \<Rightarrow> bool" where
  "touches A c Q \<longleftrightarrow> (\<forall>s. crypto_ok (ws_crypto s) \<longrightarrow>
     crypto_ok (ws_crypto (snd (c s))) \<and> (\<forall>i. i \<notin> A \<longrightarrow> ws_mem (snd (c s)) i = ws_mem s i) \<and>
     (\<forall>v. fst (c s) = Inr v \<longrightarrow> Q v))"

named_theorems touch \<open>programs that write inside an area\<close>

lemma touches_bind:
  assumes "touches A c P" "\<And>v. P v \<Longrightarrow> touches A (f v) Q"
  shows "touches A (bindE c f) Q"
  unfolding touches_def
proof (intro allI impI)
  fix s :: worker_state assume s: "crypto_ok (ws_crypto s)"
  obtain r s1 where c: "c s = (r, s1)" by fastforce
  with assms(1) s have 1: "crypto_ok (ws_crypto s1)" "\<And>i. i \<notin> A \<Longrightarrow> ws_mem s1 i = ws_mem s i" "\<And>v. r = Inr v \<Longrightarrow> P v"
    unfolding touches_def by (metis snd_conv fst_conv)+
  show "crypto_ok (ws_crypto (snd (bindE c f s))) \<and>
    (\<forall>i. i \<notin> A \<longrightarrow> ws_mem (snd (bindE c f s)) i = ws_mem s i) \<and> (\<forall>v. fst (bindE c f s) = Inr v \<longrightarrow> Q v)"
  proof (cases r)
    case (Inl e)
    with c 1 show ?thesis by simp
  next
    case (Inr v)
    with assms(2) [OF 1(3)] 1(1,2) c show ?thesis by (simp add: touches_def)
  qed
qed

lemma touches_ret: "Q v \<Longrightarrow> touches A (ret v) Q"
  by (simp add: touches_def)

lemma touches_raise: "touches A (raise e) Q"
  by (simp add: touches_def)

lemma touches_check: "(b \<Longrightarrow> Q ()) \<Longrightarrow> touches A (kvdb_check b e) Q"
  by (cases b) (simp_all add: touches_def)

lemma touches_ld: "(\<And>bs. length bs = n \<Longrightarrow> Q bs) \<Longrightarrow> touches A (ld a n) Q"
  by (simp add: touches_def)

lemma touches_ld32: "(\<And>w. Q w) \<Longrightarrow> touches A (ld32 a) Q"
  by (simp add: touches_def)

lemma touches_ld64: "(\<And>w. Q w) \<Longrightarrow> touches A (ld64 a) Q"
  by (simp add: touches_def)

lemma touches_ld_cstr: "(\<And>w. Q w) \<Longrightarrow> touches A (ld_cstr a) Q"
  by (simp add: touches_def ld_cstr_def split: option.split)

lemma touches_ld_items: "(\<And>w. Q w) \<Longrightarrow> touches A (ld_items a n) Q"
  by (simp add: touches_def ld_items_def)

lemma touches_st: "{a ..< a + length bs} \<subseteq> A \<Longrightarrow> Q () \<Longrightarrow> touches A (st a bs) Q"
  by (auto simp: touches_def wr_bytes_def)

lemma touches_on_kv: "(\<And>k v k'. m k = (Inr v, k') \<Longrightarrow> Q v) \<Longrightarrow> touches A (on_kv m) Q"
  by (auto simp: touches_def on_kv_def zoom_def split: prod.splits)

lemma touches_on_fm: "(\<And>v. Q v) \<Longrightarrow> touches A (on_fm m) Q"
  by (auto simp: touches_def on_fm_def on_kv_def zoom_def split: prod.splits)

lemma touches_on_wal: "(\<And>v. Q v) \<Longrightarrow> touches A (on_wal m) Q"
  by (auto simp: touches_def on_wal_def zoom_def split: prod.splits)

lemma touches_on_crypto:
  assumes "\<And>k. crypto_ok k \<Longrightarrow> crypto_ok (snd (m k))" "\<And>k v k'. crypto_ok k \<Longrightarrow> m k = (Inr v, k') \<Longrightarrow> Q v"
  shows "touches A (on_crypto m) Q"
  unfolding touches_def
proof (intro allI impI)
  fix s :: worker_state assume s: "crypto_ok (ws_crypto s)"
  obtain r k where m: "m (ws_crypto s) = (r, k)" by fastforce
  from assms(1) [OF s] m have "crypto_ok k" by simp
  with assms(2) [OF s] m show "crypto_ok (ws_crypto (snd (on_crypto m s))) \<and>
     (\<forall>i. i \<notin> A \<longrightarrow> ws_mem (snd (on_crypto m s)) i = ws_mem s i) \<and> (\<forall>v. fst (on_crypto m s) = Inr v \<longrightarrow> Q v)"
    by (auto simp: on_crypto_def zoom_def)
qed

lemma touches_mono: "touches A c P \<Longrightarrow> A \<subseteq> B \<Longrightarrow> (\<And>v. P v \<Longrightarrow> Q v) \<Longrightarrow> touches B c Q"
  unfolding touches_def by blast

lemma stays_let [touch]: "touches A (f x) Q \<Longrightarrow> touches A (let y = x in f y) Q"
  by simp

lemma touches_state:
  assumes "\<And>s0. touches A (f s0) Q"
  shows "touches A (\<lambda>s. f s s) Q"
  using assms unfolding touches_def by blast

lemma touches_guard [touch]: "(\<not> b \<Longrightarrow> touches A g Q) \<Longrightarrow> touches A (\<lambda>s. if b then (Inl e, s) else g s) Q"
  by (cases b) (simp_all add: touches_def)

lemma touches_if [touch]: "(b \<Longrightarrow> touches A c Q) \<Longrightarrow> (\<not> b \<Longrightarrow> touches A d Q) \<Longrightarrow> touches A (if b then c else d) Q"
  by simp


abbreviation stays :: "nat set \<Rightarrow> (worker_state, 'a) kvm \<Rightarrow> bool" where
  "stays A c \<equiv> touches A c (\<lambda>_. True)"

lemma stays_st: "{a ..< a + length bs} \<subseteq> A \<Longrightarrow> stays A (st a bs)"
  by (rule touches_st) simp_all

lemma stays_ret [touch]: "stays A (ret v)"
  by (rule touches_ret) simp

lemma stays_raise [touch]: "stays A (raise e)"
  by (rule touches_raise)

lemma stays_on_kv [touch]: "stays A (on_kv m)"
  by (rule touches_on_kv) simp

lemma stays_on_fm [touch]: "stays A (on_fm m)"
  by (rule touches_on_fm) simp

lemma stays_on_wal [touch]: "stays A (on_wal m)"
  by (rule touches_on_wal) simp

lemma stays_bind_st: "{a ..< a + length bs} \<subseteq> A \<Longrightarrow> stays A (f ()) \<Longrightarrow> stays A (bindE (st a bs) f)"
  by (rule touches_bind [OF stays_st]) simp_all

lemma stays_bind_ld [touch]: "(\<And>bs. length bs = n \<Longrightarrow> stays A (f bs)) \<Longrightarrow> stays A (bindE (ld a n) f)"
  by (rule touches_bind [OF touches_ld])

lemma stays_bind_ld32 [touch]: "(\<And>w. stays A (f w)) \<Longrightarrow> stays A (bindE (ld32 a) f)"
  by (rule touches_bind [OF touches_ld32 [of "\<lambda>_. True"]]) simp_all

lemma stays_bind_ld64 [touch]: "(\<And>w. stays A (f w)) \<Longrightarrow> stays A (bindE (ld64 a) f)"
  by (rule touches_bind [OF touches_ld64 [of "\<lambda>_. True"]]) simp_all

lemma stays_bind_ld_cstr [touch]: "(\<And>w. stays A (f w)) \<Longrightarrow> stays A (bindE (ld_cstr a) f)"
  by (rule touches_bind [OF touches_ld_cstr [of "\<lambda>_. True"]]) simp_all

lemma stays_bind_ld_items [touch]: "(\<And>w. stays A (f w)) \<Longrightarrow> stays A (bindE (ld_items a n) f)"
  by (rule touches_bind [OF touches_ld_items [of "\<lambda>_. True"]]) simp_all

lemma touches_bind_check [touch]: "(b \<Longrightarrow> touches A (f ()) Q) \<Longrightarrow> touches A (bindE (kvdb_check b e) f) Q"
  by (rule touches_bind [OF touches_check [of b "\<lambda>_. b"]]) simp_all

lemma stays_bind_on_kv [touch]:
  "(\<And>v k k'. m k = (Inr v, k') \<Longrightarrow> stays A (f v)) \<Longrightarrow> stays A (bindE (on_kv m) f)"
  by (rule touches_bind [OF touches_on_kv [of m "\<lambda>v. \<exists>k k'. m k = (Inr v, k')"]]) blast+

lemma touches_bind_on_fm [touch]: "(\<And>v. touches A (f v) Q) \<Longrightarrow> touches A (bindE (on_fm m) f) Q"
  by (rule touches_bind [OF stays_on_fm]) simp_all

lemma stays_bind_on_wal [touch]: "(\<And>v. stays A (f v)) \<Longrightarrow> stays A (bindE (on_wal m) f)"
  by (rule touches_bind [OF stays_on_wal]) simp_all

lemma gcm_encrypt_sized:
  assumes "gcm_sized lib" "crypto_ok k"
  shows "length (snd (fst (gcm_encrypt lib pt k))) = length pt + 28" "crypto_ok (snd (gcm_encrypt lib pt k))"
proof -
  obtain res ct tag where e: "mb_crypt_and_tag lib (cr_key k) (increment (cr_iv k)) pt = (res, ct, tag)"
    by (metis prod_cases3)
  have iv: "length (increment (cr_iv k)) = IV_SIZE" using assms(2) by (simp add: crypto_ok_def)
  have "length ct = length pt" "length tag = TAG_SIZE"
    using assms(1) [unfolded gcm_sized_def, THEN conjunct1, rule_format, OF iv, of "cr_key k" pt] e by simp_all
  with e assms show "length (snd (fst (gcm_encrypt lib pt k))) = length pt + 28" "crypto_ok (snd (gcm_encrypt lib pt k))"
    by (simp_all add: gcm_encrypt_def Let_def crypto_ok_def IV_SIZE_def TAG_SIZE_def)
qed

lemma touches_encrypt:
  assumes "gcm_sized lib" "\<And>ct. length ct = length pt + 28 \<Longrightarrow> Q ct"
  shows "touches A (on_crypto (encrypt_bytes lib pt n)) Q"
proof (rule touches_on_crypto)
  fix k assume k: "crypto_ok k"
  obtain res out k1 where e: "gcm_encrypt lib pt k = ((res, out), k1)" by (metis prod.exhaust)
  with gcm_encrypt_sized [OF assms(1) k, of pt] have "length out = length pt + 28" "crypto_ok k1" by simp_all
  then show "crypto_ok (snd (encrypt_bytes lib pt n k))"
    and "encrypt_bytes lib pt n k = (Inr v, k') \<Longrightarrow> Q v" for v k'
    using e assms(2) by (auto simp: encrypt_bytes_def split: if_splits)
qed

lemma touches_decrypt:
  assumes "gcm_sized lib" "\<And>pt. length pt \<le> length ct - 28 \<Longrightarrow> Q pt"
  shows "touches A (on_crypto (decrypt_bytes lib ct n)) Q"
proof (rule touches_on_crypto)
  fix k v k' assume d: "decrypt_bytes lib ct n k = (Inr v, k')"
  let ?sz = "unat (ucast (of_nat (length ct) - of_nat IV_SIZE - of_nat TAG_SIZE :: u64) :: u32)"
  let ?body = "take ?sz (drop (IV_SIZE + TAG_SIZE) ct)"
  obtain res pt where e: "mb_auth_decrypt lib (cr_key k) (take IV_SIZE ct) (take TAG_SIZE (drop IV_SIZE ct)) ?body = (res, pt)"
    by fastforce
  with d have "v = pt"
    by (simp add: decrypt_bytes_def gcm_decrypt_def Let_def split: if_splits)
  moreover have "length pt = length ?body"
    using assms(1) [unfolded gcm_sized_def, THEN conjunct2, rule_format, of "cr_key k" "take IV_SIZE ct"
      "take TAG_SIZE (drop IV_SIZE ct)" ?body] e by simp
  ultimately have "length v = length ?body" by simp
  then have "length v \<le> length ct - 28" by (auto simp: IV_SIZE_def TAG_SIZE_def)
  then show "Q v" by (rule assms(2))
qed (auto simp: decrypt_bytes_def split: prod.splits)

lemma stays_bind_encrypt:
  "gcm_sized lib \<Longrightarrow> (\<And>ct. length ct = length pt + 28 \<Longrightarrow> stays A (f ct)) \<Longrightarrow>
    stays A (bindE (on_crypto (encrypt_bytes lib pt n)) f)"
  by (rule touches_bind [OF touches_encrypt])

lemma stays_bind_decrypt:
  "gcm_sized lib \<Longrightarrow> (\<And>pt. length pt \<le> length ct - 28 \<Longrightarrow> stays A (f pt)) \<Longrightarrow>
    stays A (bindE (on_crypto (decrypt_bytes lib ct n)) f)"
  by (rule touches_bind [OF touches_decrypt])

lemma ts_get_raw_length: "ts_get_raw n i s = (Inr t, s') \<Longrightarrow> length t = n"
  by (auto simp: ts_get_raw_def bindE_eq_Inr split: if_splits)

lemma on_store_result:
  assumes "on_store sel upd part m s = (Inr v, s')"
  shows "\<exists>y y'. m y = (Inr v, y')"
proof (cases "sel s part")
  case (Some y)
  obtain r y' where "m y = (r, y')" by fastforce
  with assms Some show ?thesis by (auto simp: on_store_def)
qed (use assms in \<open>simp add: on_store_def\<close>)

lemma fm_getString_raw_length: "fm_getString_raw n key s = (Inr t, s') \<Longrightarrow> length t = n"
  by (auto simp: fm_getString_raw_def part_get_def bindE_eq_Inr dest!: on_store_result ts_get_raw_length)

lemma getText_raw_length: "getText_raw n key k = (Inr t, k') \<Longrightarrow> length t = n"
  by (auto simp: getText_raw_def bindE_eq_Inr zoom_def dest: fm_getString_raw_length
      split: if_splits prod.split_asm)

section \<open>The results of a request\<close>

definition result_members :: "i32 \<Rightarrow> ctype \<times> sel list list" where
  "result_members t =
     (if t \<in> {CMD_INT_PLUS, CMD_INT_MINUS, CMD_INT_MULT, CMD_INT_DIV, CMD_INT_POW, CMD_INT_MOD, CMD_FLOAT_PLUS,
        CMD_FLOAT_MINUS, CMD_FLOAT_MULT, CMD_FLOAT_DIV, CMD_FLOAT_POW, CMD_FLOAT_MOD, CMD_TEXT_CONCAT}
      then (CalcRequestData, [[Member ''res'']])
      else if t \<in> {CMD_INT_CMP, CMD_FLOAT_CMP, CMD_TIMESTAMP_CMP, CMD_TEXT_LIKE, CMD_TEXT_CMP}
      then (CmpRequestData, [[Member ''cmp'']])
      else if t \<in> {CMD_INT_SUM_BULK, CMD_FLOAT_SUM_BULK} then (BulkRequestData, [[Member ''res'']])
      else if t = CMD_TIMESTAMP_EXTRACT_YEAR then (TimestampExtractYearRequestData, [[Member ''res'']])
      else if t = CMD_TEXT_SUBSTRING then (SubstringRequestData, [[Member ''res'']])
      else if t \<in> {CMD_PROMOTE_INT, CMD_PROMOTE_FLOAT, CMD_PROMOTE_TEXT, CMD_PROMOTE_TIMESTAMP}
      then (PromoteRequestData, [[Member ''global'']])
      else if t \<in> {CMD_INT_PUT_ENC, CMD_FLOAT_PUT_ENC} then (PutEncIntoKVRequestData (ENCTYPE 4), [[Member ''res'']])
      else if t = CMD_TIMESTAMP_PUT_ENC then (PutEncIntoKVRequestData (ENCTYPE 8), [[Member ''res'']])
      else if t = CMD_STRING_PUT_ENC then (PutEncIntoKVRequestData EncStr, [[Member ''res'']])
      else if t \<in> {CMD_INT_PUT, CMD_FLOAT_PUT} then (KVRequestData 4, [[Member ''key'']])
      else if t = CMD_TIMESTAMP_PUT then (KVRequestData 8, [[Member ''key'']])
      else if t = CMD_TEXT_PUT then (KVRequestData STRING_LENGTH, [[Member ''key'']])
      else if t \<in> {CMD_INT_GET_ENC, CMD_FLOAT_GET_ENC} then (GetEncFromKVRequestData (ENCTYPE 4), [[Member ''res'']])
      else if t = CMD_TIMESTAMP_GET_ENC then (GetEncFromKVRequestData (ENCTYPE 8), [[Member ''res'']])
      else if t = CMD_STRING_GET_ENC then (GetEncFromKVRequestData EncStr, [[Member ''res'']])
      else if t \<in> {CMD_INT_GET, CMD_FLOAT_GET} then (KVRequestData 4, [[Member ''value'']])
      else if t = CMD_TIMESTAMP_GET then (KVRequestData 8, [[Member ''value'']])
      else if t = CMD_TEXT_GET then (KVRequestData STRING_LENGTH, [[Member ''value'']])
      else if t \<in> {CMD_INT_ENC, CMD_FLOAT_ENC} then (EncRequestData (ENCTYPE 4) (Scalar 4), [[Member ''ciphertext'']])
      else if t = CMD_TIMESTAMP_ENC then (EncRequestData (ENCTYPE 8) (Scalar 8), [[Member ''ciphertext'']])
      else if t = CMD_STRING_ENC then (EncRequestData EncStr Str, [[Member ''ciphertext'']])
      else if t \<in> {CMD_INT_DEC, CMD_FLOAT_DEC} then (DecRequestData (ENCTYPE 4) (Scalar 4), [[Member ''plaintext'']])
      else if t = CMD_TIMESTAMP_DEC then (DecRequestData (ENCTYPE 8) (Scalar 8), [[Member ''plaintext'']])
      else if t = CMD_STRING_DEC then (DecRequestData EncStr Str, [[Member ''plaintext'']])
      else if t = CMD_WAL_MATERIALIZE_BATCH
      then (WalMaterializeBatchRequestData (REQ_REGION_SIZE - 48024), [[Member ''payload_len''], [Member ''payload'']])
      else (SingleArgRequestData, []))"

definition span :: "nat \<Rightarrow> ctype \<Rightarrow> sel list \<Rightarrow> nat set" where
  "span a t xs = (case locate t xs of None \<Rightarrow> {} | Some (q, u) \<Rightarrow> {a + q ..< a + q + size_of u})"

definition reply_area :: "nat \<Rightarrow> i32 \<Rightarrow> nat set" where
  "reply_area a t = (\<Union>xs \<in> set ([Member ''common'', Member ''resp''] # snd (result_members t)).
     span a (fst (result_members t)) xs)"

definition area_at :: "nat \<Rightarrow> nat \<Rightarrow> i32 \<Rightarrow> bool" where
  "area_at k n t \<longleftrightarrow> list_ex (\<lambda>xs. case locate (fst (result_members t)) xs of None \<Rightarrow> False
     | Some (q, u) \<Rightarrow> q \<le> k \<and> k + n \<le> q + size_of u)
     ([Member ''common'', Member ''resp''] # snd (result_members t))"

lemma area_at_subset:
  assumes "area_at k n t"
  shows "{a + k ..< a + k + n} \<subseteq> reply_area a t"
proof -
  from assms obtain xs where xs: "xs \<in> set ([Member ''common'', Member ''resp''] # snd (result_members t))"
    and at: "case locate (fst (result_members t)) xs of None \<Rightarrow> False | Some (q, u) \<Rightarrow> q \<le> k \<and> k + n \<le> q + size_of u"
    unfolding area_at_def list_ex_iff by blast
  from at obtain q u where "locate (fst (result_members t)) xs = Some (q, u)" "q \<le> k" "k + n \<le> q + size_of u"
    by (cases "locate (fst (result_members t)) xs") auto
  then have "{a + k ..< a + k + n} \<subseteq> span a (fst (result_members t)) xs"
    by (auto simp: span_def)
  with xs show ?thesis unfolding reply_area_def by blast
qed

lemmas area_simps = area_at_def result_members_def layout_simps cmd_defs

lemma stays_st_at [touch]: "area_at k (length bs) t \<Longrightarrow> stays (reply_area a t) (st (a + k) bs)"
  by (rule stays_st [OF area_at_subset])

lemma stays_bind_st_at [touch]:
  "area_at k (length bs) t \<Longrightarrow> stays (reply_area a t) (f ()) \<Longrightarrow> stays (reply_area a t) (bindE (st (a + k) bs) f)"
  by (rule stays_bind_st [OF area_at_subset])

lemma area_resp: "area_at 8 4 t"
proof -
  have "\<exists>fs. fst (result_members t) = Struct ((''common'', BaseRequest) # fs)"
    by (simp add: result_members_def CalcRequestData_def CmpRequestData_def BulkRequestData_def
        TimestampExtractYearRequestData_def SubstringRequestData_def PromoteRequestData_def
        PutEncIntoKVRequestData_def KVRequestData_def GetEncFromKVRequestData_def EncRequestData_def
        DecRequestData_def WalMaterializeBatchRequestData_def SingleArgRequestData_def request_struct_def)
  then show ?thesis by (auto simp: area_at_def layout_simps)
qed

definition all_some :: "('a \<Rightarrow> bool) \<Rightarrow> 'a option \<Rightarrow> bool" where
  "all_some P x \<longleftrightarrow> (case x of None \<Rightarrow> True | Some c \<Rightarrow> P c)"

lemma all_some_None [touch]: "all_some P None"
  by (simp add: all_some_def)

lemma all_some_Some [touch]: "P c \<Longrightarrow> all_some P (Some c)"
  by (simp add: all_some_def)

lemma all_some_if [touch]: "(b \<Longrightarrow> all_some P x) \<Longrightarrow> (\<not> b \<Longrightarrow> all_some P y) \<Longrightarrow> all_some P (if b then x else y)"
  by simp

lemma all_some_map: "(\<And>f. x = Some f \<Longrightarrow> P (g f)) \<Longrightarrow> all_some P (map_option g x)"
  by (cases x) (simp_all add: all_some_def)

section \<open>The handler\<close>

lemma stays_calc: "calc_fun m t = Some f \<Longrightarrow> stays (reply_area a t) (handle_calc f a)"
  unfolding handle_calc_def by (intro touch, drule calc_fun_cases) (auto simp: area_simps)

lemma stays_cmp: "cmp_fun t = Some f \<Longrightarrow> stays (reply_area a t) (handle_cmp f a)"
  unfolding handle_cmp_def by (intro touch, drule cmp_fun_cases) (auto simp: area_simps)

lemma stays_bulk:
  assumes "bulk_fun t = Some f"
  shows "stays (reply_area a t) (handle_bulk f a)"
proof -
  let ?g = "\<lambda>n s0. if sint n < 0 \<or> int BULK_SIZE < sint n then raise (Undefined OverRead)
     else bindE (on_kv (f (map (\<lambda>i. rd64 (ws_mem s0) (a + 16 + 8 * i)) [0..<nat (sint n)]))) (\<lambda>res. st64 (a + 2064) res)"
  have "stays (reply_area a t) (?g n s0)" for n s0
    by (intro touch) (use bulk_fun_cases [OF assms] in \<open>auto simp: area_simps\<close>)
  then have "stays (reply_area a t) (\<lambda>s. ?g n s s)" for n
    by (rule touches_state)
  then have "stays (reply_area a t) (bindE (ld32 (a + 12)) (\<lambda>n s. ?g n s s))"
    by (rule stays_bind_ld32)
  also have "bindE (ld32 (a + 12)) (\<lambda>n s. ?g n s s) = handle_bulk f a"
    by (simp add: handle_bulk_def fun_eq_iff)
  finally show ?thesis .
qed

lemma stays_promote: "promote_fun t = Some f \<Longrightarrow> stays (reply_area a t) (handle_promote f a)"
  unfolding handle_promote_def by (intro touch, drule promote_fun_cases) (auto simp: area_simps)

lemma stays_special: "all_some (stays (reply_area a t)) (handle_special t a)"
  unfolding handle_special_def by (intro touch) (simp_all add: area_simps)

lemma stays_put: "all_some (stays (reply_area a t)) (handle_put t a)"
  unfolding handle_put_def by (intro touch) (simp_all add: area_simps)

lemma stays_get: "all_some (stays (reply_area a t)) (handle_get t a)"
  unfolding handle_get_def by (intro touch) (simp_all add: area_simps getText_raw_length)

lemma stays_put_enc_text:
  "gcm_sized lib \<Longrightarrow> touches A (put_enc_text lib a) (\<lambda>_. True)"
  unfolding put_enc_text_def by (intro touch stays_bind_decrypt)

lemma stays_put_enc: "gcm_sized lib \<Longrightarrow> all_some (stays (reply_area a t)) (handle_put_enc lib t a)"
  unfolding handle_put_enc_def
  by (intro touch stays_bind_decrypt touches_bind [OF stays_put_enc_text]) (simp_all add: area_simps)

lemma stays_get_enc_text: "gcm_sized lib \<Longrightarrow> t = CMD_STRING_GET_ENC \<Longrightarrow> stays (reply_area a t) (get_enc_text lib a)"
  unfolding get_enc_text_def by (intro touch stays_bind_encrypt) (auto simp: area_simps)

lemma stays_get_enc: "gcm_sized lib \<Longrightarrow> all_some (stays (reply_area a t)) (handle_get_enc lib t a)"
  unfolding handle_get_enc_def
  by (intro touch stays_bind_encrypt stays_get_enc_text) (simp_all add: area_simps)

lemma stays_enc_req:
  "gcm_sized lib \<Longrightarrow> area_at k (n + 28) t \<Longrightarrow> stays (reply_area a t) (enc_req lib b n (a + k))"
  unfolding enc_req_def by (intro touch stays_bind_encrypt) simp_all

lemma area_at_less: "area_at k n t \<Longrightarrow> j \<le> n \<Longrightarrow> area_at k j t"
  by (fastforce simp: area_at_def list_ex_iff split: option.splits)

lemma stays_dec_req:
  "gcm_sized lib \<Longrightarrow> area_at k n t \<Longrightarrow> stays (reply_area a t) (dec_req lib b n (a + k))"
  unfolding dec_req_def by (intro touch stays_bind_decrypt) (simp_all add: area_at_less)

lemma stays_string_enc: "gcm_sized lib \<Longrightarrow> t = CMD_STRING_ENC \<Longrightarrow> stays (reply_area a t) (string_enc lib a)"
  unfolding string_enc_def by (intro touch stays_enc_req) (auto simp: area_simps)

lemma stays_string_dec: "gcm_sized lib \<Longrightarrow> t = CMD_STRING_DEC \<Longrightarrow> stays (reply_area a t) (string_dec lib a)"
  unfolding string_dec_def add.assoc
  by (intro touch touches_bind [OF stays_dec_req]) (auto simp: area_simps)

lemma stays_crypt: "gcm_sized lib \<Longrightarrow> all_some (stays (reply_area a t)) (handle_crypt lib t a)"
  unfolding handle_crypt_def
  by (intro touch stays_enc_req stays_dec_req stays_string_enc stays_string_dec) (simp_all add: area_simps)

lemma touches_materializeBatch:
  assumes "gcm_sized lib"
  shows "touches A (materializeBatch lib items cap) (\<lambda>out. length out \<le> cap)"
proof -
  have "touches A (on_crypto (\<lambda>s. (Inr (fst (gcm_encrypt lib pt s)), snd (gcm_encrypt lib pt s))))
      (\<lambda>v. length (snd v) = length pt + 28)" for pt
    by (rule touches_on_crypto) (simp_all add: gcm_encrypt_sized [OF assms], metis gcm_encrypt_sized(1) [OF assms] sndI)
  then have "touches A (bindE (on_crypto (\<lambda>s. (Inr (fst (gcm_encrypt lib pt s)), snd (gcm_encrypt lib pt s))))
      (\<lambda>(res, out). bindE (kvdb_check (res = 0) WalEncrypt) (\<lambda>_. ret out))) (\<lambda>out. length out \<le> cap)"
    if "length pt + IV_SIZE + TAG_SIZE \<le> cap" for pt
    by (rule touches_bind)
      (use that in \<open>auto simp: IV_SIZE_def TAG_SIZE_def case_prod_beta intro!: touch touches_ret\<close>)
  then show ?thesis
    unfolding materializeBatch_def by (intro touch touches_ret) simp_all
qed

lemma stays_replayPayload: "stays A (replayPayload lib payload)"
  unfolding replayPayload_def
  by (intro touch touches_bind [OF touches_on_crypto [of _ "\<lambda>_. True"]]) (auto intro!: touch)

lemma stays_wal: "gcm_sized lib \<Longrightarrow> all_some (stays (reply_area a t)) (handle_wal lib t a)"
  unfolding handle_wal_def wal_truncate_def wal_flush_def wal_replay_def handle_append_def handle_materialize_def
    handle_replay_payload_def
  by (intro touch touches_bind [OF touches_materializeBatch] stays_replayPayload) (simp_all add: area_simps)

lemma all_some_first:
  "list_all (all_some P) xs \<Longrightarrow> all_some P (first_some xs)"
  by (induction xs) (auto simp: all_some_def split: option.splits)

lemma all_some_case: "all_some P x \<Longrightarrow> P d \<Longrightarrow> P (case x of None \<Rightarrow> d | Some c \<Rightarrow> c)"
  by (cases x) (simp_all add: all_some_def)

lemma stays_dispatch:
  assumes "gcm_sized lib" "t \<noteq> CMD_BATCH_GET" "t \<noteq> CMD_BATCH_PUT"
  shows "stays (reply_area a t) (dispatch m lib h t a)"
proof -
  have "all_some (stays (reply_area a t)) (first_some
        [handle_wal lib t a,
         map_option (\<lambda>f. handle_calc f a) (calc_fun m t),
         map_option (\<lambda>f. handle_cmp f a) (cmp_fun t),
         map_option (\<lambda>f. handle_bulk f a) (bulk_fun t),
         handle_special t a, handle_put_enc lib t a, handle_put t a, handle_get_enc lib t a, handle_get t a,
         handle_batch h t a, handle_crypt lib t a,
         map_option (\<lambda>f. handle_promote f a) (promote_fun t)])"
    by (intro all_some_first list.pred_inject(2) [THEN iffD2] list.pred_inject(1) conjI TrueI all_some_map
        stays_wal stays_calc stays_cmp stays_bulk stays_special stays_put_enc stays_put stays_get_enc stays_get
        stays_crypt stays_promote assms(1); (assumption | simp add: handle_batch_def assms(2,3) all_some_None))
  from all_some_case [of "stays (reply_area a t)", OF this stays_ret] show ?thesis
    unfolding dispatch_def .
qed

lemma stays_handle_ops:
  assumes "gcm_sized lib" "rd32 (ws_mem s) (a + 4) = t" "t \<noteq> CMD_BATCH_GET" "t \<noteq> CMD_BATCH_PUT"
    "crypto_ok (ws_crypto s)" "handle_ops m lib (Suc fuel) a s = (r, s')" "i \<notin> reply_area a t"
  shows "ws_mem s' i = ws_mem s i"
proof -
  have "stays (reply_area a t) (bindE (dispatch m lib (handle_ops m lib fuel) t a) (\<lambda>_. bindE (st32 (a + 8) 0) (\<lambda>_. ret 0)))"
    by (rule touches_bind [OF stays_dispatch]) (use assms in \<open>auto intro!: touch simp: area_resp\<close>)
  moreover have "bindE (dispatch m lib (handle_ops m lib fuel) t a) (\<lambda>_. bindE (st32 (a + 8) 0) (\<lambda>_. ret 0)) s = (r, s')"
    using assms(2,6) by simp
  ultimately show ?thesis
    using assms(5,7) unfolding touches_def by (metis snd_conv)
qed

lemma result_struct: "wf_type (fst (result_members t)) \<and> size_of (fst (result_members t)) \<le> REQ_REGION_SIZE"
  by (simp add: result_members_def layout_simps)

text \<open>
  C8. A worker writes only results. Whatever the command of a request that is not a batch,
  and whatever the request holds, every byte of the shared memory that the handler changes
  belongs to the response code or to a member that the structure of this command declares for
  its result, and that member ends inside the region of the request. So no operand, no request
  of another region and no part of the bitmap is overwritten.
\<close>

theorem worker_writes_result_members:
  assumes "gcm_sized lib" "crypto_ok (ws_crypto s)"
    "rd32 (ws_mem s) (a + 4) = t" "t \<noteq> CMD_BATCH_GET" "t \<noteq> CMD_BATCH_PUT"
    "handle_ops m lib (Suc fuel) a s = (r, s')" "ws_mem s' i \<noteq> ws_mem s i"
  shows "\<exists>xs q u. xs \<in> set ([Member ''common'', Member ''resp''] # snd (result_members t))
    \<and> locate (fst (result_members t)) xs = Some (q, u) \<and> a + q \<le> i \<and> i < a + q + size_of u
    \<and> a + q + size_of u \<le> a + REQ_REGION_SIZE"
proof -
  have "i \<in> reply_area a t"
    using stays_handle_ops [OF assms(1,3-5,2,6)] assms(7) by blast
  then obtain xs where xs: "xs \<in> set ([Member ''common'', Member ''resp''] # snd (result_members t))"
    "i \<in> span a (fst (result_members t)) xs"
    unfolding reply_area_def by blast
  from xs(2) obtain q u where q: "locate (fst (result_members t)) xs = Some (q, u)" "a + q \<le> i" "i < a + q + size_of u"
    by (cases "locate (fst (result_members t)) xs") (auto simp: span_def)
  have "q + size_of u \<le> REQ_REGION_SIZE"
    using locate_layout [OF _ q(1)] result_struct [of t] by fastforce
  with xs(1) q show ?thesis by (intro exI conjI) simp_all
qed

lemma gcm_sized_plain: "gcm_sized plain_gcm"
  by (simp add: gcm_sized_def plain_gcm_def TAG_SIZE_def)

text \<open>A worker with an encryption request at the start of its memory.\<close>

definition enc_sample :: worker_state where
  "enc_sample = \<lparr>ws_kv = kv_init (\<lambda>_. True), ws_crypto = gcm_init plain_gcm \<lparr>cr_key = [], cr_iv = []\<rparr>, ws_wal = wal_empty,
     ws_mem = wr32 (\<lambda>_. 0) 4 CMD_INT_ENC\<rparr>"

lemma increment_zero: "increment (replicate 12 0) ! 11 = 1"
  by code_simp

lemma enc_sample_run:
  "\<exists>r s'. handle_ops m plain_gcm (Suc 0) 0 enc_sample = (r, s') \<and> ws_mem s' 27 = 1"
  by (simp add: enc_sample_def dispatch_defs enc_req_def rd_wr_same bindE_def on_crypto_def zoom_def encrypt_bytes_def
      gcm_encrypt_def Let_def plain_gcm_def gcm_init_def IV_SIZE_def TAG_SIZE_def)
    (simp add: wr_bytes_def nth_append increment_zero)

theorem worker_writes_result_members_witness:
  "\<exists>r s'. handle_ops \<lparr>libm_pow = (\<lambda>_ _. 0), libm_powf = (\<lambda>_ _. 0)\<rparr> plain_gcm (Suc 0) 0 enc_sample = (r, s')
    \<and> ws_mem s' 27 \<noteq> ws_mem enc_sample 27
    \<and> (\<exists>xs q u. xs \<in> set ([Member ''common'', Member ''resp''] # snd (result_members CMD_INT_ENC))
      \<and> locate (fst (result_members CMD_INT_ENC)) xs = Some (q, u) \<and> 0 + q \<le> 27 \<and> 27 < 0 + q + size_of u
      \<and> 0 + q + size_of u \<le> 0 + REQ_REGION_SIZE)"
proof -
  let ?m = "\<lparr>libm_pow = (\<lambda>_ _. 0), libm_powf = (\<lambda>_ _. 0)\<rparr> :: libm"
  from enc_sample_run [of ?m] obtain r s' where
    run: "handle_ops ?m plain_gcm (Suc 0) 0 enc_sample = (r, s')" "ws_mem s' 27 = 1" by blast
  have mem: "ws_mem enc_sample 27 = 0"
    by (simp add: enc_sample_def wr_bytes_def)
  have "\<exists>xs q u. xs \<in> set ([Member ''common'', Member ''resp''] # snd (result_members CMD_INT_ENC))
      \<and> locate (fst (result_members CMD_INT_ENC)) xs = Some (q, u) \<and> 0 + q \<le> 27 \<and> 27 < 0 + q + size_of u
      \<and> 0 + q + size_of u \<le> 0 + REQ_REGION_SIZE"
  proof (rule worker_writes_result_members [OF gcm_sized_plain _ _ _ _ run(1)])
    show "crypto_ok (ws_crypto enc_sample)" "rd32 (ws_mem enc_sample) (0 + 4) = CMD_INT_ENC"
      by (simp_all add: enc_sample_def crypto_ok_plain rd_wr_same)
    show "CMD_INT_ENC \<noteq> CMD_BATCH_GET" "CMD_INT_ENC \<noteq> CMD_BATCH_PUT" by (simp_all add: cmd_defs)
    show "ws_mem s' 27 \<noteq> ws_mem enc_sample 27" by (simp add: mem run(2))
  qed
  moreover have "ws_mem s' 27 \<noteq> ws_mem enc_sample 27" by (simp add: mem run(2))
  ultimately show ?thesis
    using run(1) by blast
qed

end
