(* ===== verification/Zeno_Wal_Io.thy ===== *)
theory Zeno_Wal_Io
  imports Zeno_Wal
begin

text \<open>
  The system calls of the log file (\<^verbatim>\<open>src/src/privacy_zone/include/wal.hpp\<close>): the bytes of the
  file, the retry loops around \<^verbatim>\<open>pwrite\<close>, \<^verbatim>\<open>write\<close>, \<^verbatim>\<open>pread\<close> and \<^verbatim>\<open>fcntl\<close>, and the parts of \<^verbatim>\<open>init\<close>,
  \<^verbatim>\<open>flush\<close>, \<^verbatim>\<open>truncate\<close> and \<^verbatim>\<open>replay\<close> that perform them. The operating system is a parameter: \<open>os c n\<close>
  is its answer if the \<open>n\<close>-th system call is \<open>c\<close>. A loop that the operating system never lets end
  has no result (\<open>None\<close>); \<open>steady\<close> is what is needed of it for the loops to end. \<^verbatim>\<open>Zeno_Wal\<close> has the
  same operations on the entries the file holds; \<open>abs_file\<close> reads them out of the bytes, and the
  operations here refine those.
\<close>

section \<open>The operating system\<close>

text \<open>\<^verbatim>\<open>-1\<close> with an error number, or the number of bytes moved (for the other calls, success).\<close>

datatype os_reply = Failed int | Moved nat

datatype syscall = SetLockWait | SetLock | Pwrite | Write | Pread | Fdatasync | Fstat | Ftruncate | Fallocate | Lseek

type_synonym os = "syscall \<Rightarrow> nat \<Rightarrow> os_reply"

datatype io_error = LockFailed | UnlockFailed | WriteFailed | ReadFailed | UnexpectedEof | HeaderUnread
  | StatFailed | ResizeFailed | SyncFailed | LogFull

definition EINTR :: int where "EINTR = 4"

text \<open>
  The file as a process sees it (\<open>li_cache\<close>) and as it is on the disk after the last \<^verbatim>\<open>fdatasync\<close>;
  its size and the position of \<^verbatim>\<open>write\<close>; the fields \<^verbatim>\<open>header\<close> of the operator; whether the process holds
  the lock of the file; the buffer of a read; the number of system calls made.
\<close>

record log_io =
  li_cache :: mem
  li_disk :: mem
  li_size :: nat
  li_pos :: nat
  li_magic :: u64
  li_header :: u64
  li_locked :: bool
  li_buf :: "byte list"
  li_calls :: nat

type_synonym 'a iom = "log_io \<Rightarrow> ((io_error + 'a) \<times> log_io) option"

definition retO :: "'a \<Rightarrow> 'a iom" where
  "retO v = (\<lambda>s. Some (Inr v, s))"

definition bindO :: "'a iom \<Rightarrow> ('a \<Rightarrow> 'b iom) \<Rightarrow> 'b iom" where
  "bindO m f = (\<lambda>s. case m s of None \<Rightarrow> None | Some (Inl e, s') \<Rightarrow> Some (Inl e, s') | Some (Inr v, s') \<Rightarrow> f v s')"

definition tick :: "log_io \<Rightarrow> log_io" where
  "tick s = s\<lparr>li_calls := Suc (li_calls s)\<rparr>"

definition sys :: "os \<Rightarrow> syscall \<Rightarrow> io_error \<Rightarrow> nat iom" where
  "sys os c e = (\<lambda>s. case os c (li_calls s) of Failed _ \<Rightarrow> Some (Inl e, tick s) | Moved n \<Rightarrow> Some (Inr n, tick s))"

section \<open>Locks\<close>

partial_function (option) lock_fd :: "os \<Rightarrow> unit iom" where
  "lock_fd os s =
     (case os SetLockWait (li_calls s) of
        Failed e \<Rightarrow> if e = EINTR then lock_fd os (tick s) else Some (Inl LockFailed, tick s)
      | Moved _ \<Rightarrow> Some (Inr (), (tick s)\<lparr>li_locked := True\<rparr>))"

definition unlock_fd :: "os \<Rightarrow> unit iom" where
  "unlock_fd os = bindO (sys os SetLock UnlockFailed) (\<lambda>_ s. Some (Inr (), s\<lparr>li_locked := False\<rparr>))"

section \<open>L  sorry over partial transfers\<close>

text \<open>
  The loop of \<^verbatim>\<open>write_full\<close>, \<^verbatim>\<open>pwrite_full\<close> and \<^verbatim>\<open>read_full\<close>: \<open>k\<close> of \<open>n\<close> bytes are moved, \<open>move k j\<close> moves the
  next \<open>j\<close>, which are never more than were asked for. Only \<^verbatim>\<open>read_full\<close> checks that some are moved
  (\<open>eof\<close>).
\<close>

partial_function (option) full_loop ::
  "(nat \<Rightarrow> os_reply) \<Rightarrow> io_error \<Rightarrow> bool \<Rightarrow> (nat \<Rightarrow> nat \<Rightarrow> log_io \<Rightarrow> log_io) \<Rightarrow> nat \<Rightarrow> nat \<Rightarrow> unit iom" where
  "full_loop os err eof move n k s =
     (if n \<le> k then Some (Inr (), s)
      else case os (li_calls s) of
        Failed e \<Rightarrow> if e = EINTR then full_loop os err eof move n k (tick s) else Some (Inl err, tick s)
      | Moved j \<Rightarrow>
          if eof \<and> j = 0 then Some (Inl UnexpectedEof, tick s)
          else full_loop os err eof move n (k + min j (n - k)) (move k (min j (n - k)) (tick s)))"

definition pwrite_move :: "byte list \<Rightarrow> nat \<Rightarrow> nat \<Rightarrow> nat \<Rightarrow> log_io \<Rightarrow> log_io" where
  "pwrite_move buf off k j s = s\<lparr>li_cache := wr_bytes (li_cache s) (off + k) (take j (drop k buf))\<rparr>"

definition pwrite_full :: "os \<Rightarrow> byte list \<Rightarrow> nat \<Rightarrow> unit iom" where
  "pwrite_full os buf off = full_loop (os Pwrite) WriteFailed False (pwrite_move buf off) (length buf) 0"

definition write_move :: "byte list \<Rightarrow> nat \<Rightarrow> nat \<Rightarrow> log_io \<Rightarrow> log_io" where
  "write_move buf k j s = s\<lparr>li_cache := wr_bytes (li_cache s) (li_pos s) (take j (drop k buf)), li_pos := li_pos s + j\<rparr>"

definition write_full :: "os \<Rightarrow> byte list \<Rightarrow> unit iom" where
  "write_full os buf = full_loop (os Write) WriteFailed False (write_move buf) (length buf) 0"

definition read_move :: "nat \<Rightarrow> nat \<Rightarrow> nat \<Rightarrow> log_io \<Rightarrow> log_io" where
  "read_move off k j s = s\<lparr>li_buf := li_buf s @ rd_bytes (li_cache s) (off + k) j\<rparr>"

definition read_full :: "os \<Rightarrow> nat \<Rightarrow> nat \<Rightarrow> byte list iom" where
  "read_full os n off = (\<lambda>s. bindO (full_loop (os Pread) ReadFailed True (read_move off) n 0)
     (\<lambda>_ s. Some (Inr (li_buf s), s)) (s\<lparr>li_buf := []\<rparr>))"

text \<open>An operating system that interrupts and splits transfers as it likes, but always goes on.\<close>

definition fair :: "bool \<Rightarrow> (nat \<Rightarrow> os_reply) \<Rightarrow> bool" where
  "fair eof os \<longleftrightarrow> (\<forall>c. \<exists>j \<ge> c. (\<exists>n > 0. os j = Moved n) \<and>
     (\<forall>i. c \<le> i \<and> i < j \<longrightarrow> os i = Failed EINTR \<or> (\<not> eof \<and> os i = Moved 0)))"

lemma tick_simps [simp]: "li_cache (tick s) = li_cache s" "li_disk (tick s) = li_disk s" "li_size (tick s) = li_size s"
  "li_pos (tick s) = li_pos s" "li_magic (tick s) = li_magic s" "li_header (tick s) = li_header s"
  "li_locked (tick s) = li_locked s" "li_buf (tick s) = li_buf s" "li_calls (tick s) = Suc (li_calls s)"
  by (simp_all add: tick_def)

text \<open>
  A transfer: \<open>moved k\<close> describes the state when \<open>k\<close> bytes are moved. Whenever its loop ends, some
  prefix is moved, and all bytes are when it reports success; with a fair operating system it
  ends, and with success.
\<close>

locale transfer =
  fixes move :: "nat \<Rightarrow> nat \<Rightarrow> log_io \<Rightarrow> log_io" and size :: nat and moved :: "nat \<Rightarrow> log_io \<Rightarrow> bool"
  assumes move_moved: "moved k s \<Longrightarrow> k + j \<le> size \<Longrightarrow> moved (k + j) (move k j s)"
    and tick_moved: "moved k s \<Longrightarrow> moved k (tick s)"
    and move_none: "k \<le> size \<Longrightarrow> move k 0 s = s"
begin

lemma loop_moved:
  assumes "full_loop os err eof move size k s = Some (r, s')" "moved k s" "k \<le> size"
  shows "\<exists>j \<le> size. moved j s' \<and> (r = Inr () \<longrightarrow> j = size)"
proof -
  let ?P = "\<lambda>(os :: nat \<Rightarrow> os_reply) (err :: io_error) (eof :: bool) mv n k s (v :: (io_error + unit) \<times> log_io).
    mv = move \<longrightarrow> n = size \<longrightarrow> moved k s \<longrightarrow> k \<le> size \<longrightarrow>
    (\<exists>j \<le> size. moved j (snd v) \<and> (fst v = Inr () \<longrightarrow> j = size))"
  have "?P os err eof move size k s (r, s')"
  proof (rule full_loop.raw_induct [where P = ?P, OF _ assms(1)], intro impI)
    fix loop os err eof mv n k s v
    assume IH: "\<And>os err eof mv n k s v. loop os err eof mv n k s = Some v \<Longrightarrow> ?P os err eof mv n k s v"
      and body: "(if n \<le> k then Some (Inr (), s)
        else case os (li_calls s) of
          Failed e \<Rightarrow> if e = EINTR then loop os err eof mv n k (tick s) else Some (Inl err, tick s)
        | Moved j \<Rightarrow>
            if eof \<and> j = 0 then Some (Inl UnexpectedEof, tick s)
            else loop os err eof mv n (k + min j (n - k)) (mv k (min j (n - k)) (tick s))) = Some v"
      and mv: "mv = move" "n = size" and k: "moved k s" "k \<le> size"
    have t: "moved k (tick s)" by (rule tick_moved [OF k(1)])
    show "\<exists>j \<le> size. moved j (snd v) \<and> (fst v = Inr () \<longrightarrow> j = size)"
    proof (cases "n \<le> k")
      case True
      with body k mv show ?thesis by auto
    next
      case False
      show ?thesis
      proof (cases "os (li_calls s)")
        case (Failed e)
        with False body IH [of os err eof mv n k "tick s" v] t k mv show ?thesis
          by (auto split: if_splits)
      next
        case (Moved j)
        let ?j = "min j (n - k)"
        have "moved (k + ?j) (mv k ?j (tick s))"
          using move_moved [OF t, of ?j] False mv by auto
        with Moved False body IH [of os err eof mv n "k + ?j" "mv k ?j (tick s)" v] t k mv show ?thesis
          by (auto split: if_splits)
      qed
    qed
  qed
  with assms(2,3) show ?thesis by simp
qed

lemma loop_returns:
  assumes "fair eof os" "k \<le> size" "moved k s"
  shows "\<exists>s'. full_loop os err eof move size k s = Some (Inr (), s') \<and> moved size s'"
proof -
  have "\<exists>s'. full_loop os err eof move size k s = Some (Inr (), s')"
    using assms(2)
  proof (induction "size - k" arbitrary: k s rule: less_induct)
    case less
    show ?case
    proof (cases "k = size")
      case True
      then show ?thesis by (subst full_loop.simps) simp
    next
      case False
      from assms(1) obtain j n where j: "li_calls s \<le> j" "0 < n" "os j = Moved n"
        "\<And>i. li_calls s \<le> i \<Longrightarrow> i < j \<Longrightarrow> os i = Failed EINTR \<or> (\<not> eof \<and> os i = Moved 0)"
        unfolding fair_def by metis
      from j show ?thesis
      proof (induction "j - li_calls s" arbitrary: s)
        case 0
        then have "os (li_calls s) = Moved n" by simp
        moreover have "size - (k + min n (size - k)) < size - k" "k + min n (size - k) \<le> size"
          using False less.prems \<open>0 < n\<close> by auto
        ultimately show ?case
          using less.hyps [of "k + min n (size - k)" "move k (min n (size - k)) (tick s)"] False less.prems \<open>0 < n\<close>
          by (subst full_loop.simps) simp
      next
        case (Suc d)
        then have "os (li_calls s) = Failed EINTR \<or> (\<not> eof \<and> os (li_calls s) = Moved 0)" by simp
        moreover have "\<exists>s'. full_loop os err eof move size k (tick s) = Some (Inr (), s')"
          by (rule Suc.hyps(1)) (use Suc in auto)
        ultimately show ?case
          using False less.prems move_none [of k "tick s"] by (subst full_loop.simps) auto
      qed
    qed
  qed
  then obtain s' where "full_loop os err eof move size k s = Some (Inr (), s')" ..
  with loop_moved [OF this assms(3,2)] show ?thesis by auto
qed

end


text \<open>\<open>modcalls t s\<close>: the state \<open>s\<close> is \<open>t\<close>, whatever the number of system calls.\<close>

definition modcalls :: "log_io \<Rightarrow> log_io \<Rightarrow> bool" where
  "modcalls t s \<longleftrightarrow> li_cache s = li_cache t \<and> li_disk s = li_disk t \<and> li_size s = li_size t \<and> li_pos s = li_pos t
     \<and> li_magic s = li_magic t \<and> li_header s = li_header t \<and> li_locked s = li_locked t \<and> li_buf s = li_buf t"

lemma modcalls_refl [simp, intro]: "modcalls s s"
  by (simp add: modcalls_def)

lemma modcalls_tick [intro]: "modcalls t s \<Longrightarrow> modcalls t (tick s)"
  by (simp add: modcalls_def)

interpretation pw: transfer "pwrite_move buf off" "length buf"
  "\<lambda>k. modcalls (s0\<lparr>li_cache := wr_bytes (li_cache s0) off (take k buf)\<rparr>)" for buf off s0
proof
  fix k s j
  assume "modcalls (s0\<lparr>li_cache := wr_bytes (li_cache s0) off (take k buf)\<rparr>) s" and k: "k + j \<le> length buf"
  moreover have "wr_bytes (wr_bytes (li_cache s0) off (take k buf)) (off + k) (take j (drop k buf))
      = wr_bytes (li_cache s0) off (take (k + j) buf)"
    using wr_bytes_append [of "li_cache s0" off "take k buf" "take j (drop k buf)"] k by (simp add: take_add)
  ultimately show "modcalls (s0\<lparr>li_cache := wr_bytes (li_cache s0) off (take (k + j) buf)\<rparr>) (pwrite_move buf off k j s)"
    by (auto simp: modcalls_def pwrite_move_def)
qed (auto simp: pwrite_move_def)

interpretation wf: transfer "write_move buf" "length buf"
  "\<lambda>k. modcalls (s0\<lparr>li_cache := wr_bytes (li_cache s0) (li_pos s0) (take k buf), li_pos := li_pos s0 + k\<rparr>)" for buf s0
proof
  fix k s j
  assume "modcalls (s0\<lparr>li_cache := wr_bytes (li_cache s0) (li_pos s0) (take k buf), li_pos := li_pos s0 + k\<rparr>) s"
    and k: "k + j \<le> length buf"
  moreover have "wr_bytes (wr_bytes (li_cache s0) (li_pos s0) (take k buf)) (li_pos s0 + k) (take j (drop k buf))
      = wr_bytes (li_cache s0) (li_pos s0) (take (k + j) buf)"
    using wr_bytes_append [of "li_cache s0" "li_pos s0" "take k buf" "take j (drop k buf)"] k by (simp add: take_add)
  ultimately show "modcalls (s0\<lparr>li_cache := wr_bytes (li_cache s0) (li_pos s0) (take (k + j) buf), li_pos := li_pos s0 + (k + j)\<rparr>)
      (write_move buf k j s)"
    by (auto simp: modcalls_def write_move_def add.assoc)
qed (auto simp: write_move_def)

interpretation rf: transfer "read_move off" n
  "\<lambda>k. modcalls (s0\<lparr>li_buf := li_buf s0 @ rd_bytes (li_cache s0) off k\<rparr>)" for off n s0
proof
  fix k s j
  assume "modcalls (s0\<lparr>li_buf := li_buf s0 @ rd_bytes (li_cache s0) off k\<rparr>) s"
  then show "modcalls (s0\<lparr>li_buf := li_buf s0 @ rd_bytes (li_cache s0) off (k + j)\<rparr>) (read_move off k j s)"
    by (auto simp: modcalls_def read_move_def rd_bytes_append)
qed (auto simp: read_move_def rd_bytes_def)

lemma pwrite_full_prefix:
  assumes "pwrite_full os buf off s = Some (r, s')"
  shows "\<exists>k \<le> length buf. modcalls (s\<lparr>li_cache := wr_bytes (li_cache s) off (take k buf)\<rparr>) s'
    \<and> (r = Inr () \<longrightarrow> k = length buf)"
  by (rule pw.loop_moved [of "os Pwrite" WriteFailed False buf off 0 s r s' s])
    (use assms in \<open>simp_all add: pwrite_full_def\<close>)

lemma pwrite_full_returns:
  assumes "fair False (os Pwrite)"
  shows "\<exists>s'. pwrite_full os buf off s = Some (Inr (), s') \<and> modcalls (s\<lparr>li_cache := wr_bytes (li_cache s) off buf\<rparr>) s'"
  using pw.loop_returns [OF assms, of 0 buf s off s] by (simp add: pwrite_full_def)

lemma write_full_returns:
  assumes "fair False (os Write)"
  shows "\<exists>s'. write_full os buf s = Some (Inr (), s')
    \<and> modcalls (s\<lparr>li_cache := wr_bytes (li_cache s) (li_pos s) buf, li_pos := li_pos s + length buf\<rparr>) s'"
  using wf.loop_returns [OF assms, of 0 buf s s] by (simp add: write_full_def)

lemma read_full_returns:
  assumes "fair True (os Pread)"
  shows "\<exists>s'. read_full os n off s = Some (Inr (rd_bytes (li_cache s) off n), s')
    \<and> modcalls (s\<lparr>li_buf := rd_bytes (li_cache s) off n\<rparr>) s'"
proof -
  from rf.loop_returns [OF assms, of 0 n "s\<lparr>li_buf := []\<rparr>" off "s\<lparr>li_buf := []\<rparr>" ReadFailed] obtain s' where
    s': "full_loop (os Pread) ReadFailed True (read_move off) n 0 (s\<lparr>li_buf := []\<rparr>) = Some (Inr (), s')"
    "modcalls (s\<lparr>li_buf := rd_bytes (li_cache s) off n\<rparr>) s'"
    by (auto simp: rd_bytes_def)
  then show ?thesis by (auto simp: read_full_def bindO_def modcalls_def)
qed


section \<open>The log file\<close>

definition header_bytes :: "u64 \<Rightarrow> byte list" where
  "header_bytes pos = le_bytes 8 WAL_MAGIC @ le_bytes 8 pos"

definition write_header_io :: "os \<Rightarrow> unit iom" where
  "write_header_io os = (\<lambda>s. pwrite_full os (header_bytes (li_header s)) 0 (s\<lparr>li_magic := WAL_MAGIC\<rparr>))"

text \<open>A single call, without the retry of the loops.\<close>

definition load_header :: "os \<Rightarrow> unit iom" where
  "load_header os = bindO (sys os Pread HeaderUnread) (\<lambda>n s.
     if 16 \<le> n then Some (Inr (), s\<lparr>li_magic := rd64 (li_cache s) 0, li_header := rd64 (li_cache s) 8\<rparr>)
     else if n = 0 then Some (Inr (), s)
     else Some (Inl HeaderUnread, s))"

definition fdatasync :: "os \<Rightarrow> unit iom" where
  "fdatasync os = bindO (sys os Fdatasync SyncFailed) (\<lambda>_ s. Some (Inr (), s\<lparr>li_disk := li_cache s\<rparr>))"

text \<open>The first half of \<^verbatim>\<open>init_wal_file\<close>: the file is given its full size; new bytes are zero.\<close>

definition size_wal_file :: "os \<Rightarrow> unit iom" where
  "size_wal_file os = bindO (sys os Fstat StatFailed) (\<lambda>_ s.
     if li_size s \<noteq> unat WAL_FILE_SIZE then
       bindO (sys os Ftruncate ResizeFailed) (\<lambda>_ s.
       bindO (sys os Fallocate ResizeFailed) (\<lambda>_. retO ())
         (s\<lparr>li_cache := (\<lambda>i. if i < min (li_size s) (unat WAL_FILE_SIZE) then li_cache s i else 0),
           li_size := unat WAL_FILE_SIZE\<rparr>)) s
     else Some (Inr (), s))"

definition loaded :: "log_io \<Rightarrow> wal_file" where
  "loaded s = \<lparr>wf_magic = li_magic s, wf_write_pos = li_header s, wf_entries = (\<lambda>_. \<lparr>we_type = 0, we_key = 0, we_value = []\<rparr>)\<rparr>"

definition init_wal_file_io :: "os \<Rightarrow> unit iom" where
  "init_wal_file_io os =
     bindO (size_wal_file os) (\<lambda>_.
     bindO (lock_fd os) (\<lambda>_.
     bindO (load_header os) (\<lambda>_.
     bindO (\<lambda>s. if header_valid (loaded s) then Some (Inr (), s)
            else bindO (write_header_io os) (\<lambda>_. fdatasync os) (s\<lparr>li_magic := WAL_MAGIC, li_header := WAL_DATA_OFFSET\<rparr>)) (\<lambda>_.
     unlock_fd os))))"

definition entry_bytes :: "wal_entry \<Rightarrow> byte list" where
  "entry_bytes e = le_bytes 4 (we_type e) @ replicate 4 0 @ le_bytes 8 (we_key e) @ we_value e"

definition entry_of :: "byte list \<Rightarrow> wal_entry" where
  "entry_of bs = \<lparr>we_type = le_word (take 4 bs), we_key = le_word (take 8 (drop 8 bs)), we_value = drop 16 bs\<rparr>"

text \<open>
  \<^verbatim>\<open>flush\<close>, for the entries that \<^verbatim>\<open>take_pending\<close> and \<^verbatim>\<open>materialize\<close> give: the entries, then the header,
  then one \<^verbatim>\<open>fdatasync\<close>.
\<close>

definition append_io :: "os \<Rightarrow> wal_entry list \<Rightarrow> unit iom" where
  "append_io os entries = (\<lambda>s.
     let size = of_nat (length entries) * WAL_ENTRY_SIZE in
     if li_header s + size \<le> WAL_FILE_SIZE then
       bindO (pwrite_full os (concat (map entry_bytes entries)) (unat (li_header s))) (\<lambda>_ s.
       bindO (write_header_io os) (\<lambda>_. fdatasync os) (s\<lparr>li_header := li_header s + size\<rparr>)) s
     else Some (Inl LogFull, s))"

definition flush_io :: "os \<Rightarrow> wal_entry list \<Rightarrow> unit iom" where
  "flush_io os entries =
     bindO (lock_fd os) (\<lambda>_.
     bindO (if entries = [] then retO () else append_io os entries) (\<lambda>_.
     unlock_fd os))"

definition truncate_io :: "os \<Rightarrow> unit iom" where
  "truncate_io os =
     bindO (lock_fd os) (\<lambda>_ s.
     bindO (write_header_io os) (\<lambda>_.
     bindO (fdatasync os) (\<lambda>_. unlock_fd os)) (s\<lparr>li_header := WAL_DATA_OFFSET\<rparr>))"

text \<open>
  \<^verbatim>\<open>replay\<close> up to \<^verbatim>\<open>replay_entry\<close>, which \<^verbatim>\<open>Zeno_Wal\<close> has: the entries in the order they are read.
  Positions stay below \<^verbatim>\<open>WAL_FILE_SIZE\<close> plus one entry, far from wrapping.
\<close>

function read_entries :: "os \<Rightarrow> nat \<Rightarrow> nat \<Rightarrow> wal_entry list iom" where
  "read_entries os pos limit =
     (if pos < limit then
        bindO (read_full os 560 pos) (\<lambda>bs.
        bindO (read_entries os (pos + 560) limit) (\<lambda>es. retO (entry_of bs # es)))
      else retO [])"
  by auto
termination
  by (relation "measure (\<lambda>(os, pos, limit). limit - pos)") auto

definition replay_io :: "os \<Rightarrow> wal_entry list iom" where
  "replay_io os =
     bindO (lock_fd os) (\<lambda>_.
     bindO (sys os Lseek ReadFailed) (\<lambda>_ s.
     bindO (read_entries os 4096 (unat (li_header s))) (\<lambda>es.
     bindO (sys os Lseek ReadFailed) (\<lambda>_.
     bindO (unlock_fd os) (\<lambda>_. retO es))) s))"

declare read_entries.simps [simp del]

section \<open>Runs\<close>

definition runs :: "'a iom \<Rightarrow> log_io \<Rightarrow> ('a \<Rightarrow> log_io \<Rightarrow> bool) \<Rightarrow> bool" where
  "runs m s Q \<longleftrightarrow> (\<exists>v s'. m s = Some (Inr v, s') \<and> Q v s')"

text \<open>
  The calls that are not retried succeed, those that are retried make progress between
  interruptions.
\<close>

definition steady :: "os \<Rightarrow> bool" where
  "steady os \<longleftrightarrow> fair False (os SetLockWait) \<and> fair False (os Pwrite) \<and> fair False (os Write) \<and> fair True (os Pread)
     \<and> (\<forall>c \<in> {SetLock, Fdatasync, Fstat, Ftruncate, Fallocate, Lseek}. \<forall>n. \<exists>k. os c n = Moved k)"

lemma runs_bind: "runs m s (\<lambda>v s'. runs (f v) s' Q) \<Longrightarrow> runs (bindO m f) s Q"
  by (auto simp: runs_def bindO_def)

lemma runs_mono: "runs m s P \<Longrightarrow> (\<And>v s'. P v s' \<Longrightarrow> Q v s') \<Longrightarrow> runs m s Q"
  by (auto simp: runs_def)

lemma runs_retO [simp]: "runs (retO v) s Q = Q v s"
  by (simp add: runs_def retO_def)

lemma runs_sys:
  assumes "steady os" "c \<in> {SetLock, Fdatasync, Fstat, Ftruncate, Fallocate, Lseek}"
  shows "runs (sys os c e) s (\<lambda>_ s'. s' = tick s)"
proof -
  from assms obtain k where "os c (li_calls s) = Moved k"
    unfolding steady_def by blast
  then show ?thesis by (simp add: runs_def sys_def)
qed

lemma lock_fd_returns:
  assumes "fair eof (os SetLockWait)"
  shows "runs (lock_fd os) s (\<lambda>_. modcalls (s\<lparr>li_locked := True\<rparr>))"
proof -
  from assms obtain j n where j: "li_calls s \<le> j" "os SetLockWait j = Moved n"
    "\<And>i. li_calls s \<le> i \<Longrightarrow> i < j \<Longrightarrow> os SetLockWait i = Failed EINTR \<or> os SetLockWait i = Moved 0"
    unfolding fair_def by metis
  then show ?thesis
  proof (induction "j - li_calls s" arbitrary: s)
    case 0
    then show ?case by (subst lock_fd.simps) (simp add: runs_def modcalls_def lock_fd.simps)
  next
    case (Suc d)
    then have "os SetLockWait (li_calls s) = Failed EINTR \<or> os SetLockWait (li_calls s) = Moved 0" by simp
    moreover have "runs (lock_fd os) (tick s) (\<lambda>_. modcalls ((tick s)\<lparr>li_locked := True\<rparr>))"
      by (rule Suc.hyps(1)) (use Suc in auto)
    ultimately show ?case
      by (auto simp: runs_def modcalls_def lock_fd.simps [of os s])
  qed
qed


section \<open>The file as the log it holds\<close>

definition abs_file :: "mem \<Rightarrow> wal_file" where
  "abs_file m = \<lparr>wf_magic = rd64 m 0, wf_write_pos = rd64 m 8,
     wf_entries = (\<lambda>i. entry_of (rd_bytes m (4096 + 560 * i) 560))\<rparr>"

abbreviation full_entries :: "wal_entry list \<Rightarrow> bool" where
  "full_entries es \<equiv> list_all (\<lambda>e. length (we_value e) = WAL_UNION_SIZE) es"

lemma entry_bytes_length [simp]: "length (we_value e) = WAL_UNION_SIZE \<Longrightarrow> length (entry_bytes e) = 560"
  by (simp add: entry_bytes_def WAL_UNION_SIZE_def)

lemma entry_of_bytes [simp]: "entry_of (entry_bytes e) = e"
  by (simp add: entry_of_def entry_bytes_def)

lemma entries_length: "full_entries es \<Longrightarrow> length (concat (map entry_bytes es)) = 560 * length es"
  by (induction es) simp_all

lemma entries_nth:
  "full_entries es \<Longrightarrow> i < length es \<Longrightarrow> take 560 (drop (560 * i) (concat (map entry_bytes es))) = entry_bytes (es ! i)"
proof (induction es arbitrary: i)
  case (Cons e es)
  then show ?case by (cases i) simp_all
qed simp

lemma header_bytes_length [simp]: "length (header_bytes p) = 16"
  by (simp add: header_bytes_def)

lemma abs_file_append:
  assumes "full_entries es" "n \<le> 2 ^ 40"
  shows "abs_file (wr_bytes (wr_bytes m (4096 + 560 * n) (concat (map entry_bytes es))) 0 (header_bytes p))
    = (write_entries (pos_of n) es (abs_file m))\<lparr>wf_magic := WAL_MAGIC, wf_write_pos := p\<rparr>"
proof -
  let ?es = "concat (map entry_bytes es)"
  let ?m = "wr_bytes m (4096 + 560 * n) ?es"
  have hdr: "rd64 (wr_bytes ?m 0 (header_bytes p)) 0 = WAL_MAGIC" "rd64 (wr_bytes ?m 0 (header_bytes p)) 8 = p"
    using rd_wr_inside [of 0 8 "header_bytes p" ?m 0] rd_wr_inside [of 8 8 "header_bytes p" ?m 0]
    by (simp_all add: header_bytes_def)
  have "rd_bytes (wr_bytes ?m 0 (header_bytes p)) (4096 + 560 * i) 560 = rd_bytes ?m (4096 + 560 * i) 560" for i
    by (rule rd_wr_other) simp
  moreover have "rd_bytes ?m (4096 + 560 * i) 560 = (if n \<le> i \<and> i < n + length es then entry_bytes (es ! (i - n))
      else rd_bytes m (4096 + 560 * i) 560)" for i
  proof (cases "n \<le> i \<and> i < n + length es")
    case True
    then have "4096 + 560 * i = (4096 + 560 * n) + 560 * (i - n)" "560 * (i - n) + 560 \<le> 560 * length es" by auto
    with rd_wr_inside [of "560 * (i - n)" 560 ?es m "4096 + 560 * n"] entries_nth [OF assms(1), of "i - n"]
      entries_length [OF assms(1)] True show ?thesis by (auto simp: add.assoc)
  next
    case False
    then have "4096 + 560 * i + 560 \<le> 4096 + 560 * n \<or> (4096 + 560 * n) + 560 * length es \<le> 4096 + 560 * i" by auto
    with False show ?thesis by (auto simp: rd_wr_other entries_length [OF assms(1)])
  qed
  ultimately show ?thesis
    using hdr assms(2) by (simp add: abs_file_def write_entries_def fun_eq_iff)
qed


lemma runs_pwrite:
  "steady os \<Longrightarrow> runs (pwrite_full os buf off) s (\<lambda>_. modcalls (s\<lparr>li_cache := wr_bytes (li_cache s) off buf\<rparr>))"
  using pwrite_full_returns [of os buf off s] by (auto simp: steady_def runs_def)

lemma runs_write_header:
  "steady os \<Longrightarrow> runs (write_header_io os) s
    (\<lambda>_. modcalls (s\<lparr>li_magic := WAL_MAGIC, li_cache := wr_bytes (li_cache s) 0 (header_bytes (li_header s))\<rparr>))"
  using runs_pwrite [of os "header_bytes (li_header s)" 0 "s\<lparr>li_magic := WAL_MAGIC\<rparr>"]
  by (simp add: runs_def write_header_io_def)

lemma runs_fdatasync: "steady os \<Longrightarrow> runs (fdatasync os) s (\<lambda>_. modcalls (s\<lparr>li_disk := li_cache s\<rparr>))"
  unfolding fdatasync_def
  by (rule runs_bind, rule runs_mono [OF runs_sys]) (simp_all add: runs_def modcalls_def)

lemma runs_unlock: "steady os \<Longrightarrow> runs (unlock_fd os) s (\<lambda>_. modcalls (s\<lparr>li_locked := False\<rparr>))"
  unfolding unlock_fd_def
  by (rule runs_bind, rule runs_mono [OF runs_sys]) (simp_all add: runs_def modcalls_def)

lemma runs_lock: "steady os \<Longrightarrow> runs (lock_fd os) s (\<lambda>_. modcalls (s\<lparr>li_locked := True\<rparr>))"
  by (rule lock_fd_returns [of False]) (simp add: steady_def)

lemma runs_sync_header:
  assumes "steady os"
  shows "runs (bindO (write_header_io os) (\<lambda>_. fdatasync os)) s
    (\<lambda>_ s'. li_cache s' = wr_bytes (li_cache s) 0 (header_bytes (li_header s)) \<and> li_disk s' = li_cache s'
      \<and> li_header s' = li_header s \<and> li_magic s' = WAL_MAGIC \<and> li_size s' = li_size s)"
  by (rule runs_bind, rule runs_mono [OF runs_write_header [OF assms]], rule runs_mono [OF runs_fdatasync [OF assms]])
    (simp add: modcalls_def)

lemma runs_append:
  assumes "steady os" "li_header s = pos_of n" "n + length es \<le> max_entries"
  shows "runs (append_io os es) s (\<lambda>_ s'. li_disk s' = li_cache s' \<and> li_header s' = pos_of (n + length es)
    \<and> li_cache s' = wr_bytes (wr_bytes (li_cache s) (4096 + 560 * n) (concat (map entry_bytes es))) 0
        (header_bytes (pos_of (n + length es))))"
proof -
  have b: "n \<le> 2 ^ 40" "n + length es \<le> 2 ^ 40"
    using assms(3) by (simp_all add: max_entries_def)
  let ?step = "\<lambda>s :: log_io. s\<lparr>li_header := li_header s + of_nat (length es) * WAL_ENTRY_SIZE\<rparr>"
  have "append_io os es s = bindO (pwrite_full os (concat (map entry_bytes es)) (4096 + 560 * n))
      (\<lambda>_ s. bindO (write_header_io os) (\<lambda>_. fdatasync os) (?step s)) s"
    using assms(2,3) pos_of_fits [OF b(2)] unat_pos_of [OF b(1)] by (simp add: append_io_def Let_def pos_of_add)
  moreover have "runs (bindO (pwrite_full os (concat (map entry_bytes es)) (4096 + 560 * n))
      (\<lambda>_ s. bindO (write_header_io os) (\<lambda>_. fdatasync os) (?step s))) s
    (\<lambda>_ s'. li_disk s' = li_cache s' \<and> li_header s' = pos_of (n + length es)
    \<and> li_cache s' = wr_bytes (wr_bytes (li_cache s) (4096 + 560 * n) (concat (map entry_bytes es))) 0
        (header_bytes (pos_of (n + length es))))"
  proof (rule runs_bind, rule runs_mono [OF runs_pwrite [OF assms(1)]])
    fix s1 assume s1: "modcalls (s\<lparr>li_cache := wr_bytes (li_cache s) (4096 + 560 * n) (concat (map entry_bytes es))\<rparr>) s1"
    show "runs (\<lambda>s. bindO (write_header_io os) (\<lambda>_. fdatasync os) (?step s)) s1
      (\<lambda>_ s'. li_disk s' = li_cache s' \<and> li_header s' = pos_of (n + length es)
      \<and> li_cache s' = wr_bytes (wr_bytes (li_cache s) (4096 + 560 * n) (concat (map entry_bytes es))) 0
        (header_bytes (pos_of (n + length es))))"
      using runs_sync_header [OF assms(1), of "?step s1"] s1 assms(2) pos_of_add [of n "length es"]
      by (auto simp: runs_def modcalls_def)
  qed
  ultimately show ?thesis by (simp add: runs_def)
qed

lemma runs_flush:
  assumes "steady os" "li_header s = pos_of n" "n + length es \<le> max_entries" "es \<noteq> []"
  shows "runs (flush_io os es) s (\<lambda>_ s'. li_disk s' = li_cache s' \<and> li_header s' = pos_of (n + length es) \<and> \<not> li_locked s'
    \<and> li_cache s' = wr_bytes (wr_bytes (li_cache s) (4096 + 560 * n) (concat (map entry_bytes es))) 0
        (header_bytes (pos_of (n + length es))))"
  unfolding flush_io_def
proof (rule runs_bind, rule runs_mono [OF runs_lock [OF assms(1)]], rule runs_bind)
  fix s1 assume s1: "modcalls (s\<lparr>li_locked := True\<rparr>) s1"
  then have "li_header s1 = pos_of n" using assms(2) by (simp add: modcalls_def)
  note app = runs_append [OF assms(1) this assms(3)]
  show "runs (if es = [] then retO () else append_io os es) s1 (\<lambda>_ s2. runs (unlock_fd os) s2
      (\<lambda>_ s'. li_disk s' = li_cache s' \<and> li_header s' = pos_of (n + length es) \<and> \<not> li_locked s'
    \<and> li_cache s' = wr_bytes (wr_bytes (li_cache s) (4096 + 560 * n) (concat (map entry_bytes es))) 0
        (header_bytes (pos_of (n + length es)))))"
    unfolding if_not_P [OF assms(4)]
    by (rule runs_mono [OF app], rule runs_mono [OF runs_unlock [OF assms(1)]]) (use s1 in \<open>simp add: modcalls_def\<close>)
qed

section \<open>Reading the log back\<close>

lemma runs_read_entries:
  assumes "steady os" "pos + 560 * n = limit"
  shows "runs (read_entries os pos limit) s (\<lambda>es s'. es = map (\<lambda>i. entry_of (rd_bytes (li_cache s) (pos + 560 * i) 560)) [0..<n]
    \<and> li_cache s' = li_cache s)"
  using assms(2)
proof (induction n arbitrary: pos s)
  case 0
  then show ?case by (subst read_entries.simps) simp
next
  case (Suc n)
  have "fair True (os Pread)" using assms(1) by (simp add: steady_def)
  from read_full_returns [of os, OF this, of 560 pos s] obtain s1 where
    s1: "read_full os 560 pos s = Some (Inr (rd_bytes (li_cache s) pos 560), s1)" "li_cache s1 = li_cache s"
    by (auto simp: modcalls_def)
  from Suc.IH [of "pos + 560" s1] Suc.prems obtain s2 where
    "read_entries os (pos + 560) limit s1 =
      Some (Inr (map (\<lambda>i. entry_of (rd_bytes (li_cache s) (pos + 560 + 560 * i) 560)) [0..<n]), s2)"
    "li_cache s2 = li_cache s"
    by (auto simp: runs_def s1(2))
  moreover have "map (\<lambda>i. entry_of (rd_bytes (li_cache s) (pos + 560 * i) 560)) [0..<Suc n] =
      entry_of (rd_bytes (li_cache s) pos 560) # map (\<lambda>i. entry_of (rd_bytes (li_cache s) (pos + 560 + 560 * i) 560)) [0..<n]"
    by (simp add: upt_conv_Cons map_Suc_upt [symmetric] add.assoc del: upt_Suc map_Suc_upt)
  moreover have "pos < limit" using Suc.prems by simp
  ultimately show ?case
    using s1 by (subst read_entries.simps) (simp add: runs_def bindO_def retO_def del: upt_Suc)
qed

lemma runs_replay:
  assumes "steady os" "li_header s = pos_of n" "n \<le> max_entries"
  shows "runs (replay_io os) s (\<lambda>es s'. es = map (wf_entries (abs_file (li_cache s))) [0..<n])"
proof -
  have n: "n \<le> 2 ^ 40" using assms(3) by (simp add: max_entries_def)
  show ?thesis
    unfolding replay_io_def
  proof (rule runs_bind, rule runs_mono [OF runs_lock [OF assms(1)]], rule runs_bind, rule runs_mono [OF runs_sys [OF assms(1)]])
    fix s1 s2 assume "modcalls (s\<lparr>li_locked := True\<rparr>) s1" "s2 = tick s1"
    then have s2: "li_cache s2 = li_cache s" "unat (li_header s2) = 4096 + 560 * n"
      using assms(2) unat_pos_of [OF n] by (simp_all add: modcalls_def)
    have "runs (bindO (read_entries os 4096 (unat (li_header s2))) (\<lambda>es. bindO (sys os Lseek ReadFailed)
      (\<lambda>_. bindO (unlock_fd os) (\<lambda>_. retO es)))) s2 (\<lambda>es s'. es = map (wf_entries (abs_file (li_cache s))) [0..<n])"
      by (rule runs_bind, rule runs_mono [OF runs_read_entries [OF assms(1) s2(2) [symmetric]]], rule runs_bind,
          rule runs_mono [OF runs_sys [OF assms(1)]], simp, rule runs_bind, rule runs_mono [OF runs_unlock [OF assms(1)]])
        (simp add: s2(1) abs_file_def)
    then show "runs (\<lambda>s. bindO (read_entries os 4096 (unat (li_header s))) (\<lambda>es. bindO (sys os Lseek ReadFailed)
      (\<lambda>_. bindO (unlock_fd os) (\<lambda>_. retO es))) s) s2 (\<lambda>es s'. es = map (wf_entries (abs_file (li_cache s))) [0..<n])"
      by (simp add: runs_def)
  qed simp
qed

section \<open>A flush whatever the operating system does with the transfers\<close>

text \<open>
  C9. Interrupted and partial transfers do not show. However an operating system splits and
  interrupts the writes of a flush, as long as it goes on, the flush returns; the bytes of the file
  are then those of the log in which the entries are appended, they are on the disk, and the lock
  is released. A process that reads the log afterwards, with its reads split in any other way, gets
  exactly the entries of that log.
\<close>

theorem flush_io_refines:
  assumes "steady os" "steady os'" "full_entries es" "es \<noteq> []" "n + length es \<le> max_entries"
    "li_header s = pos_of n" "wl_header w = pos_of n" "wl_file w = abs_file (li_cache s)"
  shows "\<exists>s' w' s''. flush_io os es s = Some (Inr (), s') \<and> log_entries es w = (Inr (), w')
    \<and> abs_file (li_cache s') = wl_file w' \<and> li_header s' = wl_header w' \<and> li_disk s' = li_cache s' \<and> \<not> li_locked s'
    \<and> replay_io os' s' = Some (Inr (logged_entries w'), s'')"
proof -
  have b: "n \<le> 2 ^ 40" "n + length es \<le> 2 ^ 40"
    using assms(5) by (simp_all add: max_entries_def)
  let ?f = "(write_entries (pos_of n) es (wl_file w))\<lparr>wf_magic := WAL_MAGIC, wf_write_pos := pos_of (n + length es)\<rparr>"
  let ?w = "w\<lparr>wl_file := ?f, wl_header := pos_of (n + length es)\<rparr>"
  from runs_flush [OF assms(1,6,5,4)] obtain s' where s': "flush_io os es s = Some (Inr (), s')"
    "li_disk s' = li_cache s'" "li_header s' = pos_of (n + length es)" "\<not> li_locked s'" "abs_file (li_cache s') = ?f"
    by (auto simp: runs_def abs_file_append [OF assms(3) b(1)] assms(8))
  from runs_replay [OF assms(2) s'(3) assms(5)] obtain s'' where
    "replay_io os' s' = Some (Inr (map (wf_entries ?f) [0..<n + length es]), s'')"
    by (auto simp: runs_def s'(5))
  moreover have "logged_entries ?w = map (wf_entries ?f) [0..<n + length es]"
    by (simp add: logged_entries_pos [OF _ b(2)])
  moreover have "log_entries es w = (Inr (), ?w)"
    using assms(5,7) by (simp add: log_entries_def Let_def pos_of_add pos_of_fits [OF b(2)] write_header_def)
  moreover have "abs_file (li_cache s') = wl_file ?w" "li_header s' = wl_header ?w"
    using s' by simp_all
  ultimately show ?thesis
    using s'(1,2,4) by metis
qed


section \<open>Opening and truncating the log\<close>

lemma abs_file_header:
  "abs_file (wr_bytes m 0 (header_bytes p)) = (abs_file m)\<lparr>wf_magic := WAL_MAGIC, wf_write_pos := p\<rparr>"
  using rd_wr_inside [of 0 8 "header_bytes p" m 0] rd_wr_inside [of 8 8 "header_bytes p" m 0]
  by (simp add: abs_file_def header_bytes_def rd_wr_other)

lemma truncate_io_refines:
  assumes "steady os"
  shows "runs (truncate_io os) s (\<lambda>_ s'. li_header s' = WAL_DATA_OFFSET \<and> li_disk s' = li_cache s' \<and> \<not> li_locked s'
    \<and> abs_file (li_cache s') = (abs_file (li_cache s))\<lparr>wf_magic := WAL_MAGIC, wf_write_pos := WAL_DATA_OFFSET\<rparr>)"
  unfolding truncate_io_def
proof (rule runs_bind, rule runs_mono [OF runs_lock [OF assms]])
  fix s1 assume s1: "modcalls (s\<lparr>li_locked := True\<rparr>) s1"
  have "runs (bindO (write_header_io os) (\<lambda>_. bindO (fdatasync os) (\<lambda>_. unlock_fd os))) (s1\<lparr>li_header := WAL_DATA_OFFSET\<rparr>)
     (\<lambda>_ s'. li_header s' = WAL_DATA_OFFSET \<and> li_disk s' = li_cache s' \<and> \<not> li_locked s'
    \<and> abs_file (li_cache s') = (abs_file (li_cache s))\<lparr>wf_magic := WAL_MAGIC, wf_write_pos := WAL_DATA_OFFSET\<rparr>)"
    by (rule runs_bind, rule runs_mono [OF runs_write_header [OF assms]], rule runs_bind,
        rule runs_mono [OF runs_fdatasync [OF assms]], rule runs_mono [OF runs_unlock [OF assms]])
      (use s1 in \<open>simp add: modcalls_def abs_file_header\<close>)
  then show "runs (\<lambda>s. bindO (write_header_io os) (\<lambda>_. bindO (fdatasync os) (\<lambda>_. unlock_fd os)) (s\<lparr>li_header := WAL_DATA_OFFSET\<rparr>)) s1
     (\<lambda>_ s'. li_header s' = WAL_DATA_OFFSET \<and> li_disk s' = li_cache s' \<and> \<not> li_locked s'
    \<and> abs_file (li_cache s') = (abs_file (li_cache s))\<lparr>wf_magic := WAL_MAGIC, wf_write_pos := WAL_DATA_OFFSET\<rparr>)"
    by (simp add: runs_def)
qed

text \<open>
  Opening an existing log. \<^verbatim>\<open>load_header\<close> is a single \<^verbatim>\<open>pread\<close>: unlike the loops it needs the whole
  header from one call that is not interrupted.
\<close>

lemma init_wal_file_io_refines:
  assumes "steady os" "\<And>n. \<exists>k \<ge> 16. os Pread n = Moved k" "li_size s = unat WAL_FILE_SIZE" "wl_file w = abs_file (li_cache s)"
  shows "\<exists>w'. init_wal_file w = (Inr (), w') \<and>
    runs (init_wal_file_io os) s (\<lambda>_ s'. li_header s' = wl_header w' \<and> abs_file (li_cache s') = wl_file w' \<and> \<not> li_locked s')"
proof -
  let ?Q = "\<lambda>s'. li_header s' = wl_header (snd (init_wal_file w)) \<and> abs_file (li_cache s') = wl_file (snd (init_wal_file w))"
  have size: "runs (size_wal_file os) s (\<lambda>_. modcalls s)"
    unfolding size_wal_file_def
    by (rule runs_bind, rule runs_mono [OF runs_sys [OF assms(1)]]) (simp_all add: runs_def modcalls_def assms(3))
  have load: "runs (load_header os) s1 (\<lambda>_. modcalls (s1\<lparr>li_magic := wf_magic (wl_file w), li_header := wf_write_pos (wl_file w)\<rparr>))"
    if "li_cache s1 = li_cache s" for s1
    using assms(2) [of "li_calls s1"] that
    by (auto simp: load_header_def runs_def bindO_def sys_def modcalls_def assms(4) abs_file_def)
  have reset: "runs (\<lambda>s. if header_valid (loaded s) then Some (Inr (), s)
      else bindO (write_header_io os) (\<lambda>_. fdatasync os) (s\<lparr>li_magic := WAL_MAGIC, li_header := WAL_DATA_OFFSET\<rparr>)) s2 (\<lambda>_. ?Q)"
    if "li_cache s2 = li_cache s" "li_magic s2 = wf_magic (wl_file w)" "li_header s2 = wf_write_pos (wl_file w)" for s2
  proof (cases "header_valid (wl_file w)")
    case True
    then have "header_valid (loaded s2)" by (simp add: header_valid_def loaded_def that)
    with True that show ?thesis by (simp add: runs_def init_wal_file_def assms(4))
  next
    case False
    then have no: "\<not> header_valid (loaded s2)" by (simp add: header_valid_def loaded_def that)
    have "runs (bindO (write_header_io os) (\<lambda>_. fdatasync os)) (s2\<lparr>li_magic := WAL_MAGIC, li_header := WAL_DATA_OFFSET\<rparr>) (\<lambda>_. ?Q)"
      by (rule runs_mono [OF runs_sync_header [OF assms(1)]])
        (simp add: False [unfolded assms(4)] that init_wal_file_def write_header_def abs_file_header assms(4))
    with no show ?thesis by (simp add: runs_def)
  qed
  have "runs (init_wal_file_io os) s (\<lambda>_ s'. ?Q s' \<and> \<not> li_locked s')"
    unfolding init_wal_file_io_def
  proof (rule runs_bind, rule runs_mono [OF size], rule runs_bind, rule runs_mono [OF runs_lock [OF assms(1)]], rule runs_bind)
    fix s0 s1 assume "modcalls s s0" "modcalls (s0\<lparr>li_locked := True\<rparr>) s1"
    then have s1: "li_cache s1 = li_cache s" by (simp add: modcalls_def)
    show "runs (load_header os) s1 (\<lambda>_ s'. runs (bindO (\<lambda>s. if header_valid (loaded s) then Some (Inr (), s)
      else bindO (write_header_io os) (\<lambda>_. fdatasync os) (s\<lparr>li_magic := WAL_MAGIC, li_header := WAL_DATA_OFFSET\<rparr>))
        (\<lambda>_. unlock_fd os)) s' (\<lambda>_ s'. ?Q s' \<and> \<not> li_locked s'))"
      by (rule runs_mono [OF load [OF s1]], rule runs_bind, rule runs_mono [OF reset],
          (simp add: modcalls_def s1)+, rule runs_mono [OF runs_unlock [OF assms(1)]]) (simp add: modcalls_def)
  qed
  moreover have "fst (init_wal_file w) = Inr ()" by (simp add: init_wal_file_def write_header_def)
  ultimately show ?thesis by (intro exI [of _ "snd (init_wal_file w)"]) (simp add: prod_eq_iff)
qed

section \<open>Every outcome of a flush\<close>

definition outcome :: "'a iom \<Rightarrow> log_io \<Rightarrow> (io_error + 'a \<Rightarrow> log_io \<Rightarrow> bool) \<Rightarrow> bool" where
  "outcome m s Q \<longleftrightarrow> (\<forall>r s'. m s = Some (r, s') \<longrightarrow> Q r s')"

lemma outcome_bind:
  assumes "outcome m s (\<lambda>r s'. case r of Inl e \<Rightarrow> Q (Inl e) s' | Inr v \<Rightarrow> outcome (f v) s' Q)"
  shows "outcome (bindO m f) s Q"
proof (cases "m s")
  case None
  then show ?thesis by (simp add: outcome_def bindO_def)
next
  case (Some p)
  obtain r s' where p: "p = (r, s')" by fastforce
  with Some assms have "case r of Inl e \<Rightarrow> Q (Inl e) s' | Inr v \<Rightarrow> outcome (f v) s' Q"
    by (simp add: outcome_def)
  then show ?thesis by (cases r) (simp_all add: Some p outcome_def bindO_def)
qed

lemma outcome_mono: "outcome m s P \<Longrightarrow> (\<And>r s'. P r s' \<Longrightarrow> Q r s') \<Longrightarrow> outcome m s Q"
  by (auto simp: outcome_def)

lemma outcome_sys: "outcome (sys os c e) s (\<lambda>r s'. s' = tick s)"
  by (auto simp: outcome_def sys_def split: os_reply.splits)

lemma outcome_lock: "outcome (lock_fd os) s (\<lambda>r s'. li_cache s' = li_cache s \<and> li_disk s' = li_disk s \<and> li_header s' = li_header s)"
proof -
  let ?P = "\<lambda>(os :: os) s (v :: (io_error + unit) \<times> log_io).
    li_cache (snd v) = li_cache s \<and> li_disk (snd v) = li_disk s \<and> li_header (snd v) = li_header s"
  have "?P os s v" if "lock_fd os s = Some v" for v
  proof (rule lock_fd.raw_induct [where P = ?P, OF _ that])
    fix loop os s v
    assume IH: "\<And>os s v. loop os s = Some v \<Longrightarrow> ?P os s v"
      and body: "(case os SetLockWait (li_calls s) of
        Failed e \<Rightarrow> if e = EINTR then loop os (tick s) else Some (Inl LockFailed, tick s)
      | Moved _ \<Rightarrow> Some (Inr (), (tick s)\<lparr>li_locked := True\<rparr>)) = Some v"
    show "?P os s v"
      using body IH [of os "tick s" v] by (auto split: os_reply.splits if_splits)
  qed
  then show ?thesis unfolding outcome_def by (metis snd_conv)
qed

lemma outcome_unlock:
  "outcome (unlock_fd os) s (\<lambda>r s'. li_cache s' = li_cache s \<and> li_disk s' = li_disk s \<and> li_header s' = li_header s)"
  by (auto simp: outcome_def unlock_fd_def bindO_def sys_def split: os_reply.splits)

lemma outcome_fdatasync: "outcome (fdatasync os) s (\<lambda>r s'. li_cache s' = li_cache s \<and> li_disk s' \<in> {li_disk s, li_cache s}
    \<and> (r \<noteq> Inr () \<longrightarrow> li_disk s' = li_disk s))"
  by (auto simp: outcome_def fdatasync_def bindO_def sys_def split: os_reply.splits)

lemma outcome_pwrite: "outcome (pwrite_full os buf off) s (\<lambda>r s'. \<exists>k \<le> length buf.
    modcalls (s\<lparr>li_cache := wr_bytes (li_cache s) off (take k buf)\<rparr>) s' \<and> (r = Inr () \<longrightarrow> k = length buf))"
  unfolding outcome_def by (intro allI impI pwrite_full_prefix)


text \<open>The states in which a flush may leave the file: a prefix of the entries, or all of them and a prefix of the header.\<close>

definition partly :: "log_io \<Rightarrow> byte list \<Rightarrow> byte list \<Rightarrow> io_error + unit \<Rightarrow> log_io \<Rightarrow> bool" where
  "partly s body head r s' \<longleftrightarrow> (\<exists>j \<le> length body. \<exists>k \<le> length head.
     li_cache s' = wr_bytes (wr_bytes (li_cache s) (unat (li_header s)) (take j body)) 0 (take k head)
     \<and> (k = 0 \<or> j = length body) \<and> (r = Inr () \<longrightarrow> k = length head \<and> li_disk s' = li_cache s')
     \<and> (r \<noteq> Inr () \<longrightarrow> li_disk s' = li_disk s))"

lemma partly_cong: "partly s body head r s1 \<Longrightarrow> li_cache s2 = li_cache s1 \<Longrightarrow> li_disk s2 = li_disk s1 \<Longrightarrow> partly s body head r s2"
  by (simp add: partly_def)

lemma outcome_sync_header:
  "outcome (bindO (write_header_io os) (\<lambda>_. fdatasync os)) s (\<lambda>r s'. \<exists>k \<le> 16.
    li_cache s' = wr_bytes (li_cache s) 0 (take k (header_bytes (li_header s)))
    \<and> (r = Inr () \<longrightarrow> k = 16 \<and> li_disk s' = li_cache s') \<and> (r \<noteq> Inr () \<longrightarrow> li_disk s' = li_disk s))"
proof (rule outcome_bind)
  let ?Q = "\<lambda>r s'. \<exists>k \<le> 16. li_cache s' = wr_bytes (li_cache s) 0 (take k (header_bytes (li_header s)))
    \<and> (r = Inr () \<longrightarrow> k = 16 \<and> li_disk s' = li_cache s') \<and> (r \<noteq> Inr () \<longrightarrow> li_disk s' = li_disk s)"
  have "outcome (write_header_io os) s (\<lambda>r s'. \<exists>k \<le> 16. li_cache s' = wr_bytes (li_cache s) 0 (take k (header_bytes (li_header s)))
      \<and> li_disk s' = li_disk s \<and> (r = Inr () \<longrightarrow> k = 16))"
    using outcome_pwrite [of os "header_bytes (li_header s)" 0 "s\<lparr>li_magic := WAL_MAGIC\<rparr>"]
    unfolding outcome_def write_header_io_def modcalls_def by fastforce
  then show "outcome (write_header_io os) s (\<lambda>r s'. case r of Inl e \<Rightarrow> ?Q (Inl e) s' | Inr v \<Rightarrow> outcome (fdatasync os) s' ?Q)"
  proof (rule outcome_mono)
    fix r :: "io_error + unit" and s1 :: log_io
    assume s1: "\<exists>k \<le> 16. li_cache s1 = wr_bytes (li_cache s) 0 (take k (header_bytes (li_header s)))
      \<and> li_disk s1 = li_disk s \<and> (r = Inr () \<longrightarrow> k = 16)"
    show "case r of Inl e \<Rightarrow> ?Q (Inl e) s1 | Inr v \<Rightarrow> outcome (fdatasync os) s1 ?Q"
    proof (cases r)
      case (Inl e)
      with s1 show ?thesis by auto
    next
      case (Inr v)
      with s1 show ?thesis
        by (auto simp: outcome_def fdatasync_def bindO_def sys_def split: os_reply.splits)
    qed
  qed
qed

lemma outcome_append:
  "outcome (append_io os es) s (partly s (concat (map entry_bytes es))
    (header_bytes (li_header s + of_nat (length es) * WAL_ENTRY_SIZE)))"
proof (cases "li_header s + of_nat (length es) * WAL_ENTRY_SIZE \<le> WAL_FILE_SIZE")
  case False
  then show ?thesis
    by (auto simp: append_io_def outcome_def partly_def Let_def intro!: exI [of _ 0])
next
  case True
  let ?B = "concat (map entry_bytes es)"
  let ?H = "li_header s + of_nat (length es) * WAL_ENTRY_SIZE"
  let ?step = "\<lambda>s :: log_io. s\<lparr>li_header := li_header s + of_nat (length es) * WAL_ENTRY_SIZE\<rparr>"
  let ?rest = "\<lambda>s. bindO (write_header_io os) (\<lambda>_. fdatasync os) (?step s)"
  have "outcome (bindO (pwrite_full os ?B (unat (li_header s))) (\<lambda>_. ?rest)) s (partly s ?B (header_bytes ?H))"
  proof (rule outcome_bind, rule outcome_mono [OF outcome_pwrite])
    fix r :: "io_error + unit" and s1 :: log_io
    assume "\<exists>k \<le> length ?B. modcalls (s\<lparr>li_cache := wr_bytes (li_cache s) (unat (li_header s)) (take k ?B)\<rparr>) s1
      \<and> (r = Inr () \<longrightarrow> k = length ?B)"
    then obtain j where j: "j \<le> length ?B" "li_cache s1 = wr_bytes (li_cache s) (unat (li_header s)) (take j ?B)"
      "li_disk s1 = li_disk s" "li_header s1 = li_header s" "r = Inr () \<Longrightarrow> j = length ?B"
      by (auto simp: modcalls_def)
    show "case r of Inl e \<Rightarrow> partly s ?B (header_bytes ?H) (Inl e) s1 | Inr v \<Rightarrow> outcome ?rest s1 (partly s ?B (header_bytes ?H))"
    proof (cases r)
      case (Inl e)
      have "partly s ?B (header_bytes ?H) (Inl e) s1"
        unfolding partly_def by (rule exI [of _ j], rule conjI [OF j(1)], rule exI [of _ 0]) (use j in simp)
      with Inl show ?thesis by simp
    next
      case (Inr v)
      with j(5) have "j = length ?B" by simp
      have "partly s ?B (header_bytes ?H) q s2" if "?rest s1 = Some (q, s2)" for q s2
      proof -
        from outcome_sync_header [of os "?step s1", unfolded outcome_def, rule_format, OF that]
        have "\<exists>k \<le> 16. li_cache s2 = wr_bytes (li_cache s1) 0 (take k (header_bytes ?H))
            \<and> (q = Inr () \<longrightarrow> k = 16 \<and> li_disk s2 = li_cache s2) \<and> (q \<noteq> Inr () \<longrightarrow> li_disk s2 = li_disk s)"
          by (simp add: j(3,4))
        then obtain k where
          k: "k \<le> 16" "li_cache s2 = wr_bytes (li_cache s1) 0 (take k (header_bytes ?H))"
            "q = Inr () \<longrightarrow> k = 16 \<and> li_disk s2 = li_cache s2" "q \<noteq> Inr () \<longrightarrow> li_disk s2 = li_disk s"
          by blast
        show ?thesis
          unfolding partly_def by (rule exI [of _ j], rule conjI [OF j(1)], rule exI [of _ k])
            (use k j(2) \<open>j = length ?B\<close> in simp)
      qed
      with Inr show ?thesis by (simp add: outcome_def)
    qed
  qed
  with True show ?thesis by (simp add: append_io_def outcome_def Let_def)
qed


lemma outcome_flush:
  assumes "flush_io os es s = Some (r, s')" "es \<noteq> []"
  shows "\<exists>r'. partly s (concat (map entry_bytes es)) (header_bytes (li_header s + of_nat (length es) * WAL_ENTRY_SIZE)) r' s'
    \<and> (r = Inr () \<longrightarrow> r' = Inr ()) \<or> li_cache s' = li_cache s \<and> li_disk s' = li_disk s \<and> r \<noteq> Inr ()"
proof -
  let ?P = "partly s (concat (map entry_bytes es)) (header_bytes (li_header s + of_nat (length es) * WAL_ENTRY_SIZE))"
  let ?Q = "\<lambda>(r :: io_error + unit) s'. (\<exists>r'. ?P r' s' \<and> (r = Inr () \<longrightarrow> r' = Inr ())) \<or>
    li_cache s' = li_cache s \<and> li_disk s' = li_disk s \<and> r \<noteq> Inr ()"
  have "outcome (flush_io os es) s ?Q"
    unfolding flush_io_def if_not_P [OF assms(2)]
  proof (rule outcome_bind, rule outcome_mono [OF outcome_lock])
    fix r :: "io_error + unit" and s1 :: log_io
    assume s1: "li_cache s1 = li_cache s \<and> li_disk s1 = li_disk s \<and> li_header s1 = li_header s"
    have app: "outcome (append_io os es) s1 ?P"
      using outcome_append [of os es s1] s1 by (simp add: partly_def [abs_def])
    have "outcome (bindO (append_io os es) (\<lambda>_. unlock_fd os)) s1 ?Q"
    proof (rule outcome_bind, rule outcome_mono [OF app])
      fix q :: "io_error + unit" and s2 :: log_io
      assume q: "?P q s2"
      have "outcome (unlock_fd os) s2 ?Q" if "q = Inr ()"
        by (rule outcome_mono [OF outcome_unlock]) (use q that partly_cong in blast)
      moreover have "?Q (Inl e) s2" if "q = Inl e" for e
        using q that by (intro disjI1 exI [of _ q]) simp
      ultimately show "case q of Inl e \<Rightarrow> ?Q (Inl e) s2 | Inr v \<Rightarrow> outcome (unlock_fd os) s2 ?Q"
        by (cases q) simp_all
    qed
    with s1 show "case r of Inl e \<Rightarrow> ?Q (Inl e) s1 | Inr v \<Rightarrow> outcome (bindO (append_io os es) (\<lambda>_. unlock_fd os)) s1 ?Q"
      by (cases r) simp_all
  qed
  with assms(1) show ?thesis by (simp add: outcome_def)
qed


lemma rd_below: "(\<And>i. i < a + n \<Longrightarrow> a \<le> i \<Longrightarrow> m' i = m i) \<Longrightarrow> rd_bytes m' a n = rd_bytes m a n"
  by (simp add: rd_bytes_def)

text \<open>
  C17. The header moves last. Whatever the operating system answers, and whether a flush succeeds
  or fails at any of its system calls, the entries logged before are intact, and the header of the
  file is the old one unless all new entries are in the file. When the flush reports success, the
  disk has the new header.
\<close>

theorem header_after_entries:
  assumes "flush_io os es s = Some (r, s')" "es \<noteq> []" "full_entries es" "li_header s = pos_of n" "n + length es \<le> max_entries"
  shows "(\<forall>i < n. wf_entries (abs_file (li_cache s')) i = wf_entries (abs_file (li_cache s)) i)
    \<and> (rd_bytes (li_cache s') 0 16 = rd_bytes (li_cache s) 0 16
       \<or> (\<forall>i < length es. wf_entries (abs_file (li_cache s')) (n + i) = es ! i))
    \<and> (r = Inr () \<longrightarrow> li_disk s' = li_cache s' \<and> wf_write_pos (abs_file (li_cache s')) = pos_of (n + length es))"
proof -
  have b: "n \<le> 2 ^ 40" "n + length es \<le> 2 ^ 40"
    using assms(5) by (simp_all add: max_entries_def)
  let ?B = "concat (map entry_bytes es)"
  let ?H = "header_bytes (pos_of (n + length es))"
  consider (none) "li_cache s' = li_cache s" "r \<noteq> Inr ()"
  | (some) j k where "j \<le> length ?B" "k \<le> 16" "k = 0 \<or> j = length ?B" "r = Inr () \<longrightarrow> k = 16 \<and> li_disk s' = li_cache s'"
      "li_cache s' = wr_bytes (wr_bytes (li_cache s) (4096 + 560 * n) (take j ?B)) 0 (take k ?H)"
    using outcome_flush [OF assms(1,2)] unfolding assms(4) pos_of_add partly_def unat_pos_of [OF b(1)] header_bytes_length
    by blast
  then show ?thesis
  proof cases
    case none
    then show ?thesis by simp
  next
    case some
    have old: "rd_bytes (li_cache s') (4096 + 560 * i) 560 = rd_bytes (li_cache s) (4096 + 560 * i) 560" if "i < n" for i
      unfolding some(5) by (rule rd_below) (use that some(2) in \<open>auto simp: wr_bytes_def\<close>)
    show ?thesis
    proof (cases "k = 0")
      case True
      then have "rd_bytes (li_cache s') 0 16 = rd_bytes (li_cache s) 0 16"
        unfolding some(5) by (intro rd_below) (auto simp: wr_bytes_def)
      with old some(4) True show ?thesis by (simp add: abs_file_def)
    next
      case False
      with some(3) have j: "take j ?B = ?B" by simp
      have "rd_bytes (li_cache s') (4096 + 560 * (n + i)) 560 = entry_bytes (es ! i)" if "i < length es" for i
      proof -
        have "rd_bytes (li_cache s') (4096 + 560 * (n + i)) 560
            = rd_bytes (wr_bytes (li_cache s) (4096 + 560 * n) ?B) (4096 + 560 * n + 560 * i) 560"
          unfolding some(5) j by (subst rd_wr_other) (use some(2) in \<open>auto simp: algebra_simps\<close>)
        also have "\<dots> = entry_bytes (es ! i)"
          using rd_wr_inside [of "560 * i" 560 ?B "li_cache s" "4096 + 560 * n"] entries_nth [OF assms(3) that]
            entries_length [OF assms(3)] that by simp
        finally show ?thesis .
      qed
      moreover have "wf_write_pos (abs_file (li_cache s')) = pos_of (n + length es)" if "r = Inr ()"
        using some(4,5) that abs_file_append [OF assms(3) b(1), of "li_cache s" "pos_of (n + length es)"] by (simp add: j)
      ultimately show ?thesis using old some(4) by (simp add: abs_file_def)
    qed
  qed
qed


text \<open>
  For the witnesses: an operating system that interrupts every other call and moves seven bytes
  at a time.
\<close>

definition choppy :: os where
  "choppy c n = (if c \<in> {SetLockWait, Pwrite, Write, Pread} \<and> even n then Failed EINTR else Moved 7)"

lemma steady_choppy: "steady choppy"
proof -
  have "fair eof (choppy c)" for eof c
    unfolding fair_def
  proof
    fix n :: nat
    show "\<exists>j \<ge> n. (\<exists>k > 0. choppy c j = Moved k) \<and>
        (\<forall>i. n \<le> i \<and> i < j \<longrightarrow> choppy c i = Failed EINTR \<or> (\<not> eof \<and> choppy c i = Moved 0))"
    proof (cases "choppy c n = Moved 7")
      case True
      then show ?thesis by (intro exI [of _ n]) auto
    next
      case False
      then have "choppy c n = Failed EINTR" "choppy c (Suc n) = Moved 7"
        by (auto simp: choppy_def split: if_splits)
      then show ?thesis by (intro exI [of _ "Suc n"]) (auto simp: less_Suc_eq le_less_Suc_eq)
    qed
  qed
  then show ?thesis by (simp add: steady_def) (simp add: choppy_def)
qed

definition io_sample :: log_io where
  "io_sample = \<lparr>li_cache = (\<lambda>_. 0), li_disk = (\<lambda>_. 0), li_size = 0, li_pos = 0, li_magic = 0, li_header = pos_of 0,
     li_locked = False, li_buf = [], li_calls = 0\<rparr>"

definition entry_sample :: wal_entry where
  "entry_sample = \<lparr>we_type = 0, we_key = 3, we_value = replicate 544 1\<rparr>"

theorem flush_io_refines_witness:
  "\<exists>s' w' s''. flush_io choppy [entry_sample] io_sample = Some (Inr (), s')
    \<and> log_entries [entry_sample] (wal_empty\<lparr>wl_file := abs_file (\<lambda>_. 0)\<rparr>) = (Inr (), w')
    \<and> abs_file (li_cache s') = wl_file w' \<and> replay_io choppy s' = Some (Inr (logged_entries w'), s'')"
  using flush_io_refines [OF steady_choppy steady_choppy, of "[entry_sample]" 0 io_sample "wal_empty\<lparr>wl_file := abs_file (\<lambda>_. 0)\<rparr>"]
  by (auto simp: entry_sample_def WAL_UNION_SIZE_def max_entries_def io_sample_def wal_empty_def)

theorem header_after_entries_witness:
  "\<exists>r s'. flush_io choppy [entry_sample] io_sample = Some (r, s')
    \<and> (rd_bytes (li_cache s') 0 16 = rd_bytes (li_cache io_sample) 0 16
       \<or> (\<forall>i < length [entry_sample]. wf_entries (abs_file (li_cache s')) (0 + i) = [entry_sample] ! i))"
proof -
  have s: "li_header io_sample = pos_of 0" by (simp add: io_sample_def)
  have "[entry_sample] \<noteq> []" "full_entries [entry_sample]" "0 + length [entry_sample] \<le> max_entries"
    by (simp_all add: entry_sample_def WAL_UNION_SIZE_def max_entries_def)
  moreover from runs_flush [OF steady_choppy s this(3,1)] obtain s' where
    "flush_io choppy [entry_sample] io_sample = Some (Inr (), s')"
    by (auto simp: runs_def)
  ultimately show ?thesis
    using header_after_entries [of choppy "[entry_sample]" io_sample "Inr ()" s' 0] s by blast
qed

section \<open>Loss of power\<close>

text \<open>
  Bytes that are not synchronised may or may not be on the disk. Since the entries and the header
  are synchronised together, the header may survive a loss of power that the entries do not.
\<close>

definition power_loss :: "log_io \<Rightarrow> mem \<Rightarrow> bool" where
  "power_loss s d \<longleftrightarrow> (\<forall>i. d i = li_disk s i \<or> d i = li_cache s i)"

theorem header_may_outlive_entries:
  assumes "fair False (os SetLockWait)" "fair False (os Pwrite)" "\<And>n. \<exists>e. os Fdatasync n = Failed e"
    "es \<noteq> []" "li_header s = pos_of n" "n + length es \<le> max_entries" "li_disk s = li_cache s"
  shows "\<exists>s' d. flush_io os es s = Some (Inl SyncFailed, s') \<and> power_loss s' d
    \<and> wf_write_pos (abs_file d) = pos_of (n + length es) \<and> wf_entries (abs_file d) = wf_entries (abs_file (li_cache s))"
proof -
  have b: "n \<le> 2 ^ 40" "n + length es \<le> 2 ^ 40"
    using assms(6) by (simp_all add: max_entries_def)
  let ?B = "concat (map entry_bytes es)"
  let ?H = "pos_of (n + length es)"
  from lock_fd_returns [of False os, OF assms(1), of s] obtain s1 where
    s1: "lock_fd os s = Some (Inr (), s1)" "li_cache s1 = li_cache s" "li_disk s1 = li_cache s" "li_header s1 = pos_of n"
    by (auto simp: runs_def modcalls_def assms(5,7))
  from pwrite_full_returns [of os, OF assms(2), of ?B "4096 + 560 * n" s1] obtain s2 where
    s2: "pwrite_full os ?B (4096 + 560 * n) s1 = Some (Inr (), s2)" "li_disk s2 = li_cache s" "li_header s2 = pos_of n"
    by (auto simp: modcalls_def s1)
  let ?s2 = "s2\<lparr>li_header := ?H, li_magic := WAL_MAGIC\<rparr>"
  from pwrite_full_returns [of os, OF assms(2), of "header_bytes ?H" 0 ?s2] obtain s3 where
    s3: "pwrite_full os (header_bytes ?H) 0 ?s2 = Some (Inr (), s3)" "li_disk s3 = li_cache s"
      "li_cache s3 = wr_bytes (li_cache s2) 0 (header_bytes ?H)"
    by (auto simp: modcalls_def s2)
  from assms(3) [of "li_calls s3"] have "fdatasync os s3 = Some (Inl SyncFailed, tick s3)"
    by (auto simp: fdatasync_def bindO_def sys_def)
  with s1 s2 s3 have "flush_io os es s = Some (Inl SyncFailed, tick s3)"
    using assms(4,6) pos_of_fits [OF b(2)] unat_pos_of [OF b(1)] pos_of_add [of n "length es"]
    by (simp add: flush_io_def append_io_def bindO_def Let_def write_header_io_def)
  moreover have "power_loss (tick s3) (wr_bytes (li_cache s) 0 (header_bytes ?H))"
    by (simp add: power_loss_def s3(2,3)) (simp add: wr_bytes_def)
  moreover have "wf_write_pos (abs_file (wr_bytes (li_cache s) 0 (header_bytes ?H))) = ?H"
    using rd_wr_inside [of 8 8 "header_bytes ?H" "li_cache s" 0] by (simp add: abs_file_def header_bytes_def)
  moreover have "wf_entries (abs_file (wr_bytes (li_cache s) 0 (header_bytes ?H))) = wf_entries (abs_file (li_cache s))"
    by (simp add: abs_file_def rd_wr_other)
  ultimately show ?thesis by blast
qed

end
