(* ===== verification/Zeno_Server.thy ===== *)
theory Zeno_Server
  imports Zeno_Rpc_Progress
begin

text \<open>
  The life of the server: the main process of \<^verbatim>\<open>src/src/privacy_zone/server.cpp\<close>, its workers as
  processes, and the backends that look for a region (\<^verbatim>\<open>getSharedBuffer\<close> of
  \<^verbatim>\<open>src/src/integrity_zone/client.cpp\<close>). \<open>server_step\<close> interleaves the steps of \<open>rpc_step\<close>, of which a worker
  takes its own only while its process scans, with process creation, signals, the end of a worker
  and the two \<^verbatim>\<open>waitpid\<close> loops. \<open>server_inv\<close> extends \<open>rpc_inv\<close>, so that regions stay exclusive
  whenever processes start, fail and end.
\<close>

section \<open>Start of a process\<close>

definition SHM_SIZE :: nat where "SHM_SIZE = 540 * 1024 * 1024"
definition META_REQ_SIZE :: nat where "META_REQ_SIZE = 1024"

definition region_request :: "nat \<Rightarrow> nat" where
  "region_request region_id = META_REQ_SIZE + 1024 * 1024 * region_id"

definition OPS_SERVER_IDLE_SPIN_LIMIT :: nat where "OPS_SERVER_IDLE_SPIN_LIMIT = 10000"

text \<open>The new count, and whether the processor is given up (\<^verbatim>\<open>USE_OPS_CONTENTION_OPT\<close>).\<close>

definition idle_wait :: "nat \<Rightarrow> nat \<times> bool" where
  "idle_wait idle_spins =
     (if Suc idle_spins < OPS_SERVER_IDLE_SPIN_LIMIT then (Suc idle_spins, False) else (0, True))"

text \<open>The processor a process is bound to, for the answer of \<^verbatim>\<open>sysconf\<close>.\<close>

definition bind_to_cpu :: "int \<Rightarrow> nat \<Rightarrow> nat option" where
  "bind_to_cpu cpu_count cpu_id = (if cpu_count \<le> 0 then None else Some (cpu_id mod nat cpu_count))"

text \<open>\<^verbatim>\<open>get_shm\<close> of the server and of a backend, for the answers of \<^verbatim>\<open>open\<close> and \<^verbatim>\<open>mmap\<close>.\<close>

datatype shm_error = OpenFailed | MapFailed

definition get_shm :: "(string \<Rightarrow> int) \<Rightarrow> (int \<Rightarrow> bool) \<Rightarrow> shm_error + int" where
  "get_shm open_rdwr mmap_ok =
     (let fd = (if open_rdwr ''/dev/shm/ipcshm'' = - 1 then open_rdwr ''/dev/uio0'' else open_rdwr ''/dev/shm/ipcshm'') in
      if fd = - 1 then Inl OpenFailed
      else if mmap_ok fd then Inr fd
      else Inl MapFailed)"

text \<open>The variant for a machine without a shared-memory device (\<^verbatim>\<open>USE_TDX_FIXED_SHM\<close>), at a fixed address.\<close>

definition tdx_shm_phys_addr :: nat where "tdx_shm_phys_addr = 0x2b8000000"

definition get_shm_tdx :: "(string \<Rightarrow> int) \<Rightarrow> (int \<Rightarrow> nat \<Rightarrow> bool) \<Rightarrow> shm_error + int" where
  "get_shm_tdx open_sync mmap_ok =
     (let fd = open_sync ''/dev/mem'' in
      if fd = - 1 then Inl OpenFailed
      else if mmap_ok fd tdx_shm_phys_addr then Inr fd
      else Inl MapFailed)"

section \<open>The processes of the server\<close>

text \<open>
  A worker process scans its regions once, then looks at the status of the shared memory; when
  it has ended it is a zombie until the main process waits for it.
\<close>

datatype proc = Unborn | Scan | Check | Zombie | Reaped

text \<open>
  Where the main process is: forking, at the condition of the first loop, in its \<^verbatim>\<open>waitpid\<close>, past the
  loop, in the \<^verbatim>\<open>waitpid\<close> of the second loop, at its end, or stopped because \<^verbatim>\<open>fork\<close> failed.
\<close>

datatype main_pc = Forking nat | WatchTest | WatchWait | Announce | DrainWait | Finished | Failed_fork

text \<open>
  \<open>sv_exit\<close> is \<^verbatim>\<open>status == SHM_EXIT\<close> in the shared memory, \<open>sv_signal\<close> is \<^verbatim>\<open>shutdown_requested\<close>;
  \<open>sv_crashed\<close> remembers the workers that ended on a failed check.
\<close>

record 'd server =
  sv_rpc :: "'d rpc"
  sv_exit :: bool
  sv_signal :: bool
  sv_proc :: "nat \<Rightarrow> proc"
  sv_crashed :: "nat set"
  sv_main :: main_pc

definition child :: "proc \<Rightarrow> bool" where
  "child p \<longleftrightarrow> p \<in> {Scan, Check, Zombie}"

text \<open>
  A step of the channel in which a worker comes back to its first region ends a scan. \<open>enters\<close>: a
  backend starts to look for a region, or starts over; it looks at the status first.
\<close>

definition moved_worker :: "'d rpc \<Rightarrow> 'd rpc \<Rightarrow> nat \<Rightarrow> bool" where
  "moved_worker s t w \<longleftrightarrow> workers t w \<noteq> workers s w"

definition after_scan :: "'d rpc \<Rightarrow> 'd rpc \<Rightarrow> (nat \<Rightarrow> proc) \<Rightarrow> nat \<Rightarrow> proc" where
  "after_scan s t p w = (if moved_worker s t w \<and> workers t w = Polling w then Check else p w)"

definition enters :: "'d rpc \<Rightarrow> 'd rpc \<Rightarrow> bool" where
  "enters s t \<longleftrightarrow> (\<exists>c. clients t c \<noteq> clients s c \<and> clients t c = Scanning 0 \<and>
     (clients s c = Outside \<or> (\<exists>r. clients s c = Scanning r \<and> MAX_REGION_NUM \<le> r)))"

inductive server_step :: "bool \<Rightarrow> ('d \<Rightarrow> 'd) \<Rightarrow> 'd \<Rightarrow> 'd server \<Rightarrow> 'd server \<Rightarrow> bool" for restart serve zero where
  run: "rpc_step serve zero (sv_rpc s) t \<Longrightarrow> (\<And>w. moved_worker (sv_rpc s) t w \<Longrightarrow> sv_proc s w = Scan) \<Longrightarrow>
    (sv_exit s \<Longrightarrow> \<not> enters (sv_rpc s) t) \<Longrightarrow>
    server_step restart serve zero s (s\<lparr>sv_rpc := t, sv_proc := after_scan (sv_rpc s) t (sv_proc s)\<rparr>)"
| turned_away: "clients (sv_rpc s) c = Scanning r \<Longrightarrow> MAX_REGION_NUM \<le> r \<Longrightarrow>
    server_step restart serve zero s (s\<lparr>sv_rpc := (sv_rpc s)\<lparr>clients := (clients (sv_rpc s))(c := Outside)\<rparr>\<rparr>)"
| proceed: "sv_proc s w = Check \<Longrightarrow> \<not> sv_exit s \<Longrightarrow>
    server_step restart serve zero s (s\<lparr>sv_proc := (sv_proc s)(w := Scan)\<rparr>)"
| leave: "sv_proc s w = Check \<Longrightarrow> sv_exit s \<Longrightarrow>
    server_step restart serve zero s (s\<lparr>sv_proc := (sv_proc s)(w := Zombie)\<rparr>)"
| crash: "sv_proc s w = Scan \<Longrightarrow> workers (sv_rpc s) w = Serving r \<Longrightarrow>
    server_step restart serve zero s (s\<lparr>sv_proc := (sv_proc s)(w := Zombie), sv_crashed := insert w (sv_crashed s)\<rparr>)"
| signal: "server_step restart serve zero s (s\<lparr>sv_signal := True\<rparr>)"
| fork: "sv_main s = Forking i \<Longrightarrow> i < ops_worker_count \<Longrightarrow>
    server_step restart serve zero s (s\<lparr>sv_proc := (sv_proc s)(i := Scan), sv_main := Forking (i + 1)\<rparr>)"
| fork_fails: "sv_main s = Forking i \<Longrightarrow> i < ops_worker_count \<Longrightarrow>
    server_step restart serve zero s (s\<lparr>sv_main := Failed_fork\<rparr>)"
| forked: "sv_main s = Forking i \<Longrightarrow> ops_worker_count \<le> i \<Longrightarrow>
    server_step restart serve zero s (s\<lparr>sv_main := WatchTest\<rparr>)"
| watch: "sv_main s = WatchTest \<Longrightarrow> \<not> sv_signal s \<Longrightarrow>
    server_step restart serve zero s (s\<lparr>sv_main := WatchWait\<rparr>)"
| asked: "sv_main s = WatchTest \<Longrightarrow> sv_signal s \<Longrightarrow>
    server_step restart serve zero s (s\<lparr>sv_main := Announce\<rparr>)"
| interrupted: "sv_main s = WatchWait \<Longrightarrow> sv_signal s \<Longrightarrow> \<not> restart \<Longrightarrow>
    server_step restart serve zero s (s\<lparr>sv_main := WatchTest\<rparr>)"
| worker_lost: "sv_main s = WatchWait \<Longrightarrow> sv_proc s w = Zombie \<Longrightarrow>
    server_step restart serve zero s (s\<lparr>sv_proc := (sv_proc s)(w := Reaped), sv_signal := True, sv_main := Announce\<rparr>)"
| none_left: "sv_main s = WatchWait \<Longrightarrow> (\<And>w. \<not> child (sv_proc s w)) \<Longrightarrow>
    server_step restart serve zero s (s\<lparr>sv_main := Announce\<rparr>)"
| announce: "sv_main s = Announce \<Longrightarrow>
    server_step restart serve zero s (s\<lparr>sv_exit := True, sv_main := DrainWait\<rparr>)"
| drain: "sv_main s = DrainWait \<Longrightarrow> sv_proc s w = Zombie \<Longrightarrow>
    server_step restart serve zero s (s\<lparr>sv_proc := (sv_proc s)(w := Reaped)\<rparr>)"
| drained: "sv_main s = DrainWait \<Longrightarrow> (\<And>w. \<not> child (sv_proc s w)) \<Longrightarrow>
    server_step restart serve zero s (s\<lparr>sv_main := Finished\<rparr>)"

text \<open>Before the first \<^verbatim>\<open>fork\<close> the shared memory is cleared.\<close>

definition server_init :: "'d \<Rightarrow> 'd server" where
  "server_init zero = \<lparr>sv_rpc = rpc_init zero, sv_exit = False, sv_signal = False, sv_proc = (\<lambda>_. Unborn),
     sv_crashed = {}, sv_main = Forking 0\<rparr>"

inductive server_reach :: "bool \<Rightarrow> ('d \<Rightarrow> 'd) \<Rightarrow> 'd \<Rightarrow> 'd server \<Rightarrow> bool" for restart serve zero where
  init: "server_reach restart serve zero (server_init zero)"
| step: "server_reach restart serve zero s \<Longrightarrow> server_step restart serve zero s s' \<Longrightarrow> server_reach restart serve zero s'"

abbreviation server_steps :: "bool \<Rightarrow> ('d \<Rightarrow> 'd) \<Rightarrow> 'd \<Rightarrow> 'd server \<Rightarrow> 'd server \<Rightarrow> bool" where
  "server_steps restart serve zero \<equiv> (server_step restart serve zero)\<^sup>*\<^sup>*"

section \<open>Invariant\<close>

definition resting :: "'d server \<Rightarrow> nat \<Rightarrow> bool" where
  "resting s w \<longleftrightarrow> w \<in> sv_crashed s \<or> workers (sv_rpc s) w = Polling w"

definition server_inv :: "('d \<Rightarrow> 'd) \<Rightarrow> 'd server \<Rightarrow> bool" where
  "server_inv serve s \<longleftrightarrow> rpc_inv serve (sv_rpc s)
     \<and> (\<forall>w. sv_proc s w \<noteq> Scan \<longrightarrow> resting s w)
     \<and> (\<forall>w \<in> sv_crashed s. sv_proc s w \<in> {Zombie, Reaped})
     \<and> (\<not> sv_exit s \<longrightarrow> (\<forall>w. sv_proc s w \<in> {Zombie, Reaped} \<longrightarrow> w \<in> sv_crashed s))
     \<and> (\<forall>w. ops_worker_count \<le> w \<longrightarrow> sv_proc s w = Unborn)
     \<and> (case sv_main s of
          Forking i \<Rightarrow> (\<forall>w. sv_proc s w = Unborn \<longleftrightarrow> i \<le> w) \<and> i \<le> ops_worker_count
        | Failed_fork \<Rightarrow> True
        | _ \<Rightarrow> \<forall>w < ops_worker_count. sv_proc s w \<noteq> Unborn)
     \<and> (sv_exit s \<longleftrightarrow> sv_main s \<in> {DrainWait, Finished})
     \<and> (sv_main s = Finished \<longrightarrow> (\<forall>w. \<not> child (sv_proc s w)))"


text \<open>The conjuncts that a step of the main process or of one worker changes.\<close>

definition procs_inv :: "main_pc \<Rightarrow> bool \<Rightarrow> (nat \<Rightarrow> proc) \<Rightarrow> bool" where
  "procs_inv pc ex p \<longleftrightarrow> (\<forall>w. ops_worker_count \<le> w \<longrightarrow> p w = Unborn)
     \<and> (case pc of
          Forking i \<Rightarrow> (\<forall>w. p w = Unborn \<longleftrightarrow> i \<le> w) \<and> i \<le> ops_worker_count
        | Failed_fork \<Rightarrow> True
        | _ \<Rightarrow> \<forall>w < ops_worker_count. p w \<noteq> Unborn)
     \<and> (ex \<longleftrightarrow> pc \<in> {DrainWait, Finished})
     \<and> (pc = Finished \<longrightarrow> (\<forall>w. \<not> child (p w)))"

lemma server_inv_alt: "server_inv serve s \<longleftrightarrow> rpc_inv serve (sv_rpc s) \<and> (\<forall>w. sv_proc s w \<noteq> Scan \<longrightarrow> resting s w)
    \<and> (\<forall>w \<in> sv_crashed s. sv_proc s w \<in> {Zombie, Reaped})
    \<and> (\<not> sv_exit s \<longrightarrow> (\<forall>w. sv_proc s w \<in> {Zombie, Reaped} \<longrightarrow> w \<in> sv_crashed s)) \<and> procs_inv (sv_main s) (sv_exit s) (sv_proc s)"
  by (simp add: server_inv_def procs_inv_def)

lemma procs_inv_swap:
  assumes "procs_inv pc ex p" "p w \<noteq> Unborn" "q \<noteq> Unborn" "pc = Finished \<longrightarrow> child (p w) \<or> \<not> child q"
  shows "procs_inv pc ex (p(w := q))"
  using assms by (auto simp: procs_inv_def split: main_pc.splits)

lemma procs_inv_after_scan:
  assumes "procs_inv pc ex p" "\<And>w. moved_worker s t w \<Longrightarrow> p w = Scan"
  shows "procs_inv pc ex (after_scan s t p)"
proof -
  have "after_scan s t p w = Unborn \<longleftrightarrow> p w = Unborn" "child (after_scan s t p w) \<longleftrightarrow> child (p w)" for w
    using assms(2) [of w] by (auto simp: after_scan_def child_def)
  with assms(1) show ?thesis by (simp add: procs_inv_def cong: main_pc.case_cong)
qed

lemma server_inv_run:
  assumes "server_inv serve s" "rpc_step serve zero (sv_rpc s) t" "\<And>w. moved_worker (sv_rpc s) t w \<Longrightarrow> sv_proc s w = Scan"
  shows "server_inv serve (s\<lparr>sv_rpc := t, sv_proc := after_scan (sv_rpc s) t (sv_proc s)\<rparr>)"
proof -
  have "rpc_inv serve t"
    using inv_step [OF assms(2)] assms(1) by (simp add: server_inv_def)
  moreover have "after_scan (sv_rpc s) t (sv_proc s) w \<noteq> Scan \<longrightarrow> w \<in> sv_crashed s \<or> workers t w = Polling w" for w
    using assms(1,3) by (auto simp: server_inv_def resting_def after_scan_def moved_worker_def)
  moreover have "after_scan (sv_rpc s) t (sv_proc s) w \<in> {Zombie, Reaped}" if "w \<in> sv_crashed s" for w
    using assms(1) assms(3) [of w] that by (auto simp: server_inv_def after_scan_def)
  moreover have "after_scan (sv_rpc s) t (sv_proc s) w \<in> {Zombie, Reaped} \<longrightarrow> w \<in> sv_crashed s" if "\<not> sv_exit s" for w
    using assms(1) that by (auto simp: server_inv_def after_scan_def)
  ultimately show ?thesis
    using procs_inv_after_scan [of "sv_main s" "sv_exit s" "sv_proc s" "sv_rpc s" t] assms(1,3)
    by (simp add: server_inv_alt resting_def)
qed

lemma server_inv_step: "server_step restart serve zero s s' \<Longrightarrow> server_inv serve s \<Longrightarrow> server_inv serve s'"
proof (induction rule: server_step.induct)
  case (run s t)
  then show ?case by (intro server_inv_run)
next
  case (turned_away s c r)
  have "rpc_inv serve ((sv_rpc s)\<lparr>clients := (clients (sv_rpc s))(c := Outside)\<rparr>)"
    by (rule inv_free_step [of serve "sv_rpc s" c Outside]) (use turned_away in \<open>simp_all add: server_inv_def\<close>)
  with turned_away show ?case by (simp add: server_inv_alt resting_def)
next
  case (proceed s w)
  then show ?case using procs_inv_swap [of "sv_main s" "sv_exit s" "sv_proc s" w Scan]
    by (auto simp: server_inv_alt resting_def child_def)
next
  case (leave s w)
  then show ?case using procs_inv_swap [of "sv_main s" "sv_exit s" "sv_proc s" w Zombie]
    by (auto simp: server_inv_alt resting_def child_def)
next
  case (crash s w r)
  then show ?case using procs_inv_swap [of "sv_main s" "sv_exit s" "sv_proc s" w Zombie]
    by (auto simp: server_inv_alt resting_def child_def)
next
  case (signal s)
  then show ?case by (simp add: server_inv_alt resting_def)
next
  case (fork s i)
  then have "sv_proc s i = Unborn" by (simp add: server_inv_alt procs_inv_def)
  with fork have "i \<notin> sv_crashed s" by (auto simp: server_inv_alt)
  with fork show ?case by (auto simp: server_inv_alt procs_inv_def resting_def)
next
  case (forked s i)
  then show ?case by (auto simp: server_inv_alt procs_inv_def resting_def)
next
  case (worker_lost s w)
  then show ?case by (auto simp: server_inv_alt procs_inv_def resting_def)
next
  case (drain s w)
  then show ?case by (auto simp: server_inv_alt procs_inv_def resting_def)
qed (auto simp: server_inv_alt procs_inv_def resting_def)

lemma server_inv_init: "server_inv serve (server_init zero)"
  by (simp add: server_inv_alt server_init_def procs_inv_def resting_def inv_init) (simp add: rpc_init_def)

lemma server_reach_inv: "server_reach restart serve zero s \<Longrightarrow> server_inv serve s"
  by (induction rule: server_reach.induct) (auto intro: server_inv_init server_inv_step)


section \<open>A worker leaves when it is told to\<close>

definition drains :: "bool \<Rightarrow> ('d \<Rightarrow> 'd) \<Rightarrow> 'd \<Rightarrow> nat \<Rightarrow> 'd server \<Rightarrow> 'd server \<Rightarrow> bool" where
  "drains restart serve zero w s s' \<longleftrightarrow> server_steps restart serve zero s s' \<and> sv_main s' = DrainWait \<and> sv_exit s'
     \<and> clients (sv_rpc s') = clients (sv_rpc s) \<and> (\<forall>v. v \<noteq> w \<longrightarrow> sv_proc s' v = sv_proc s v)"

lemma drains_refl: "sv_main s = DrainWait \<Longrightarrow> sv_exit s \<Longrightarrow> drains restart serve zero w s s"
  by (simp add: drains_def)

lemma drains_step:
  assumes "server_step restart serve zero s t" "sv_main t = DrainWait" "sv_exit t"
    "clients (sv_rpc t) = clients (sv_rpc s)" "\<And>v. v \<noteq> w \<Longrightarrow> sv_proc t v = sv_proc s v"
    "drains restart serve zero w t s'"
  shows "drains restart serve zero w s s'"
  using assms by (auto simp: drains_def intro: converse_rtranclp_into_rtranclp)

lemma zombie_drains:
  assumes "sv_main s = DrainWait" "sv_exit s" "sv_proc s w = Zombie"
  shows "\<exists>s'. drains restart serve zero w s s' \<and> sv_proc s' w = Reaped"
proof -
  have "server_step restart serve zero s (s\<lparr>sv_proc := (sv_proc s)(w := Reaped)\<rparr>)"
    by (rule server_step.drain [OF assms(1,3)])
  then have "drains restart serve zero w s (s\<lparr>sv_proc := (sv_proc s)(w := Reaped)\<rparr>)"
    by (rule drains_step) (use assms in \<open>simp_all add: drains_refl\<close>)
  then show ?thesis by fastforce
qed

lemma check_drains:
  assumes "sv_main s = DrainWait" "sv_exit s" "sv_proc s w = Check"
  shows "\<exists>s'. drains restart serve zero w s s' \<and> sv_proc s' w = Reaped"
proof -
  let ?t = "s\<lparr>sv_proc := (sv_proc s)(w := Zombie)\<rparr>"
  from zombie_drains [of ?t w restart serve zero] assms obtain s' where
    s': "drains restart serve zero w ?t s'" "sv_proc s' w = Reaped" by auto
  have "drains restart serve zero w s s'"
    by (rule drains_step [OF server_step.leave [OF assms(3,2)] _ _ _ _ s'(1)]) (use assms in simp_all)
  with s'(2) show ?thesis by blast
qed

lemma worker_run:
  assumes "sv_proc s w = Scan" "rpc_step serve zero (sv_rpc s) t" "workers t = (workers (sv_rpc s))(w := x)"
    "clients t = clients (sv_rpc s)"
  shows "server_step restart serve zero s (s\<lparr>sv_rpc := t, sv_proc := after_scan (sv_rpc s) t (sv_proc s)\<rparr>)"
  by (rule server_step.run [OF assms(2)]) (use assms in \<open>auto simp: moved_worker_def enters_def split: if_splits\<close>)

lemma run_drains:
  assumes s: "sv_main s = DrainWait" "sv_exit s" "sv_proc s w = Scan"
    and t: "rpc_step serve zero (sv_rpc s) t" "workers t = (workers (sv_rpc s))(w := x)" "clients t = clients (sv_rpc s)"
    and rest: "\<And>u. sv_main u = DrainWait \<Longrightarrow> sv_exit u \<Longrightarrow> sv_rpc u = t \<Longrightarrow>
      sv_proc u w = (if x = Polling w \<and> workers (sv_rpc s) w \<noteq> x then Check else Scan) \<Longrightarrow>
      \<exists>s'. drains restart serve zero w u s' \<and> sv_proc s' w = Reaped"
  shows "\<exists>s'. drains restart serve zero w s s' \<and> sv_proc s' w = Reaped"
proof -
  let ?u = "s\<lparr>sv_rpc := t, sv_proc := after_scan (sv_rpc s) t (sv_proc s)\<rparr>"
  have "sv_proc ?u w = (if x = Polling w \<and> workers (sv_rpc s) w \<noteq> x then Check else Scan)"
    using s(3) t(2) by (auto simp: after_scan_def moved_worker_def)
  with rest [of ?u] s obtain s' where s': "drains restart serve zero w ?u s'" "sv_proc s' w = Reaped" by auto
  have "drains restart serve zero w s s'"
    by (rule drains_step [OF worker_run [OF s(3) t] _ _ _ _ s'(1)])
      (use s t in \<open>simp_all add: after_scan_def moved_worker_def\<close>)
  with s'(2) show ?thesis by blast
qed

lemma served_drains:
  assumes "sv_main s = DrainWait" "sv_exit s" "sv_proc s w = Scan" "workers (sv_rpc s) w = Served r"
  shows "\<exists>s'. drains restart serve zero w s s' \<and> sv_proc s' w = Reaped"
  by (rule run_drains [OF assms(1-3) rpc_step.publish [OF assms(4)]]) (use assms(4) in \<open>auto intro!: check_drains\<close>)

lemma serving_drains:
  assumes "sv_main s = DrainWait" "sv_exit s" "sv_proc s w = Scan" "workers (sv_rpc s) w = Serving r"
  shows "\<exists>s'. drains restart serve zero w s s' \<and> sv_proc s' w = Reaped"
  by (rule run_drains [OF assms(1-3) rpc_step.handle [OF assms(4)]]) (use assms(4) in \<open>auto intro!: served_drains\<close>)

lemma polling_drains:
  assumes "sv_main s = DrainWait" "sv_exit s" "sv_proc s w = Scan" "workers (sv_rpc s) w = Polling r" "w < ops_worker_count"
  shows "\<exists>s'. drains restart serve zero w s s' \<and> sv_proc s' w = Reaped"
  using assms
proof (induction "MAX_REGION_NUM - r" arbitrary: s r rule: less_induct)
  case less
  show ?case
  proof (cases "GET (bitmap (sv_rpc s)) r \<and> rq_status (sv_rpc s) r = SENT")
    case True
    show ?thesis
      by (rule run_drains [OF less.prems(1-3) rpc_step.poll_hit [OF less.prems(4,5)]])
        (use True less.prems(4) in \<open>auto intro!: serving_drains\<close>)
  next
    case False
    show ?thesis
    proof (rule run_drains [OF less.prems(1-3) rpc_step.poll_skip [OF less.prems(4,5)]])
      fix u :: "'a server"
      assume u: "sv_main u = DrainWait" "sv_exit u"
        "sv_rpc u = (sv_rpc s)\<lparr>workers := (workers (sv_rpc s))(w := Polling (next_region w r))\<rparr>"
        "sv_proc u w = (if Polling (next_region w r) = Polling w \<and> workers (sv_rpc s) w \<noteq> Polling (next_region w r) then Check else Scan)"
      have count: "w + ops_worker_count < MAX_REGION_NUM" "0 < ops_worker_count"
        using less.prems(5) by (simp_all add: ops_worker_count_def OPS_WORKER_NUM_def MAX_REGION_NUM_val)
      show "\<exists>s'. drains restart serve zero w u s' \<and> sv_proc s' w = Reaped"
      proof (cases "sv_proc u w = Check")
        case True
        with u show ?thesis by (simp add: check_drains)
      next
        case False
        with u(4) less.prems(4) have "next_region w r \<noteq> w \<or> next_region w r = r" by (auto split: if_splits)
        then have "next_region w r = r + ops_worker_count" "r + ops_worker_count < MAX_REGION_NUM"
          using count by (auto simp: next_region_def split: if_splits)
        with less.hyps [of "next_region w r" u] u False less.prems(5) count show ?thesis
          by (auto split: if_splits)
      qed
    qed (use False in auto)
  qed
qed

lemma worker_drains:
  assumes "sv_main s = DrainWait" "sv_exit s" "w < ops_worker_count" "sv_proc s w \<noteq> Unborn"
  shows "\<exists>s'. drains restart serve zero w s s' \<and> sv_proc s' w = Reaped"
proof (cases "sv_proc s w")
  case Scan
  with assms show ?thesis
    by (cases "workers (sv_rpc s) w") (simp_all add: polling_drains serving_drains served_drains)
next
  case Reaped
  with assms show ?thesis by (auto intro!: drains_refl)
qed (use assms in \<open>simp_all add: check_drains zombie_drains\<close>)

lemma all_drain:
  assumes "sv_main s = DrainWait" "sv_exit s" "\<And>w. w < n \<Longrightarrow> sv_proc s w \<noteq> Unborn" "n \<le> ops_worker_count"
  shows "\<exists>s'. server_steps restart serve zero s s' \<and> sv_main s' = DrainWait \<and> sv_exit s'
    \<and> clients (sv_rpc s') = clients (sv_rpc s) \<and> (\<forall>w < n. sv_proc s' w = Reaped) \<and> (\<forall>w \<ge> n. sv_proc s' w = sv_proc s w)"
  using assms
proof (induction n)
  case (Suc n)
  then obtain t where t: "server_steps restart serve zero s t" "sv_main t = DrainWait" "sv_exit t"
    "clients (sv_rpc t) = clients (sv_rpc s)" "\<forall>w < n. sv_proc t w = Reaped" "\<forall>w \<ge> n. sv_proc t w = sv_proc s w"
    by force
  with worker_drains [of t n restart serve zero] Suc.prems obtain s' where
    "drains restart serve zero n t s'" "sv_proc s' n = Reaped" by auto
  with t show ?case
    by (intro exI [of _ s']) (auto simp: drains_def less_Suc_eq Suc_le_eq)
qed auto


section \<open>What remains after the end\<close>

lemma waiting_stays:
  assumes "rpc_inv serve s" "rpc_step serve zero s t" "clients s c = Waiting r d" "rq_status s r = SENT" "workers t = workers s"
  shows "clients t c = Waiting r d \<and> rq_status t r = SENT"
proof -
  have other: "q \<noteq> r" if "owned (clients s k) = Some q" "k \<noteq> c" for k q
    using rpc_invD(5) [OF assms(1), of k q c] that assms(3) by auto
  from assms(2) show ?thesis
  proof (cases rule: rpc_step.cases)
    case (publish w q)
    then have "workers t w = Polling w" by simp
    with assms(5) publish show ?thesis by simp
  next
    case (clean k q)
    with other [of k q] assms(3,4) show ?thesis by (cases "k = c") auto
  next
    case (finish k q e)
    with other [of k q] assms(3,4) show ?thesis by (cases "k = c") auto
  qed (use assms(3,4) in \<open>auto dest: other\<close>)
qed

lemma server_inv_steps: "server_steps restart serve zero s s' \<Longrightarrow> server_inv serve s \<Longrightarrow> server_inv serve s'"
  by (induction rule: rtranclp_induct) (auto intro: server_inv_step)

text \<open>
  A request that is not answered when the server ends is never answered: its backend waits
  for ever, because only the claim of a region looks at \<^verbatim>\<open>SHM_EXIT\<close>.
\<close>

theorem unanswered_when_finished:
  assumes "server_reach restart serve zero s" "sv_main s = Finished"
    "clients (sv_rpc s) c = Waiting r d" "rq_status (sv_rpc s) r = SENT" "server_steps restart serve zero s s'"
  shows "clients (sv_rpc s') c = Waiting r d \<and> rq_status (sv_rpc s') r = SENT"
proof -
  note inv = server_reach_inv [OF assms(1)]
  from assms(5) have "sv_main s' = Finished \<and> clients (sv_rpc s') c = Waiting r d \<and> rq_status (sv_rpc s') r = SENT"
  proof (induction rule: rtranclp_induct)
    case base
    with assms show ?case by simp
  next
    case (step t u)
    have t: "server_inv serve t" by (rule server_inv_steps [OF step.hyps(1) inv])
    with step.IH have dead: "sv_proc t w \<noteq> Scan" "sv_proc t w \<noteq> Check" "sv_proc t w \<noteq> Zombie" for w
      by (auto simp: server_inv_def child_def)
    from step.hyps(2) show ?case
    proof (cases rule: server_step.cases)
      case (run v)
      then have "workers v = workers (sv_rpc t)" using dead(1) by (auto simp: moved_worker_def)
      with waiting_stays [of serve "sv_rpc t" zero v c r d] run t step.IH show ?thesis
        by (simp add: server_inv_def)
    qed (use step.IH dead in auto)
  qed
  then show ?thesis by simp
qed

text \<open>
  \<^verbatim>\<open>signal\<close> of the C library restarts the system call that a signal interrupts (\<open>restart\<close>). Once the
  main process waits for its workers, a request to stop is then not noticed until a worker ends,
  and a worker ends only if it is told to or fails.
\<close>

theorem signal_unnoticed:
  assumes "server_reach True serve zero s" "sv_main s = WatchWait" "server_steps True serve zero s s'" "sv_crashed s' = {}"
  shows "sv_main s' = WatchWait"
  using assms(3,4)
proof (induction rule: rtranclp_induct)
  case base
  show ?case by (rule assms(2))
next
  case (step t u)
  have t: "server_inv serve t" by (rule server_inv_steps [OF step.hyps(1) server_reach_inv [OF assms(1)]])
  have "sv_crashed t \<subseteq> sv_crashed u"
    using step.hyps(2) by (cases rule: server_step.cases) auto
  with step.prems have none: "sv_crashed t = {}" by blast
  with step.IH have m: "sv_main t = WatchWait" by blast
  with t none have alive: "sv_proc t w \<noteq> Zombie" "0 < ops_worker_count \<Longrightarrow> child (sv_proc t 0)" for w
    by (auto simp: server_inv_def child_def) (metis proc.exhaust)
  from step.hyps(2) show ?case
  proof (cases rule: server_step.cases)
    case none_left
    with alive(2) worker_count_less show ?thesis by auto
  qed (use m alive step.prems in auto)
qed

section \<open>Properties\<close>

lemma can_finish:
  assumes "server_reach restart serve zero s" "sv_main s \<in> {Announce, DrainWait}"
  shows "\<exists>s'. server_steps restart serve zero s s' \<and> sv_main s' = Finished \<and> clients (sv_rpc s') = clients (sv_rpc s)"
proof -
  have drain: "\<exists>s'. server_steps restart serve zero t s' \<and> sv_main s' = Finished \<and> clients (sv_rpc s') = clients (sv_rpc t)"
    if inv: "server_inv serve t" and m: "sv_main t = DrainWait" for t
  proof -
    from inv m have e: "sv_exit t" "\<And>w. w < ops_worker_count \<Longrightarrow> sv_proc t w \<noteq> Unborn"
      "\<And>w. ops_worker_count \<le> w \<Longrightarrow> sv_proc t w = Unborn"
      by (auto simp: server_inv_def)
    from all_drain [of t ops_worker_count restart serve zero, OF m e(1,2) order_refl] obtain u where
      u: "server_steps restart serve zero t u" "sv_main u = DrainWait" "clients (sv_rpc u) = clients (sv_rpc t)"
        "\<And>w. w < ops_worker_count \<Longrightarrow> sv_proc u w = Reaped" "\<And>w. ops_worker_count \<le> w \<Longrightarrow> sv_proc u w = sv_proc t w"
      by blast
    have "\<not> child (sv_proc u w)" for w
      using u(4) [of w] u(5) [of w] e(3) [of w] by (cases "w < ops_worker_count") (auto simp: child_def)
    then have "server_step restart serve zero u (u\<lparr>sv_main := Finished\<rparr>)"
      by (rule server_step.drained [OF u(2)])
    with u(1) have "server_steps restart serve zero t (u\<lparr>sv_main := Finished\<rparr>)" by (rule rtranclp.rtrancl_into_rtrancl)
    with u(3) show ?thesis by fastforce
  qed
  note inv = server_reach_inv [OF assms(1)]
  show ?thesis
  proof (cases "sv_main s = DrainWait")
    case True
    with drain inv show ?thesis by blast
  next
    case False
    with assms(2) have "server_step restart serve zero s (s\<lparr>sv_exit := True, sv_main := DrainWait\<rparr>)"
      by (auto intro: server_step.announce)
    moreover from server_inv_step [OF this inv] have
      "\<exists>s'. server_steps restart serve zero (s\<lparr>sv_exit := True, sv_main := DrainWait\<rparr>) s' \<and> sv_main s' = Finished
        \<and> clients (sv_rpc s') = clients (sv_rpc (s\<lparr>sv_exit := True, sv_main := DrainWait\<rparr>))"
      by (rule drain) simp
    ultimately show ?thesis by (auto intro: converse_rtranclp_into_rtranclp)
  qed
qed


text \<open>For the witnesses: all workers are forked, and a signal comes before the main process waits.\<close>

lemma reach_forking:
  "i \<le> ops_worker_count \<Longrightarrow> \<exists>s :: nat server. server_reach True Suc 0 s \<and> sv_main s = Forking i"
proof (induction i)
  case 0
  have "sv_main (server_init (0 :: nat)) = Forking 0" by (simp add: server_init_def)
  then show ?case using server_reach.init [of True Suc 0] by blast
next
  case (Suc i)
  then obtain s :: "nat server" where s: "server_reach True Suc 0 s" "sv_main s = Forking i" by auto
  from server_reach.step [OF s(1) server_step.fork [OF s(2)]] Suc.prems show ?case by fastforce
qed

lemma reach_announce: "\<exists>s :: nat server. server_reach True Suc 0 s \<and> sv_main s = Announce"
proof -
  obtain s :: "nat server" where s: "server_reach True Suc 0 s" "sv_main s = Forking ops_worker_count"
    using reach_forking by blast
  let ?t = "s\<lparr>sv_signal := True\<rparr>" let ?u = "?t\<lparr>sv_main := WatchTest\<rparr>" let ?v = "?u\<lparr>sv_main := Announce\<rparr>"
  have "server_reach True Suc 0 ?t" by (rule server_reach.step [OF s(1) server_step.signal])
  then have "server_reach True Suc 0 ?u" by (rule server_reach.step) (rule server_step.forked [where i = ops_worker_count], use s(2) in simp_all)
  then have "server_reach True Suc 0 ?v" by (rule server_reach.step) (rule server_step.asked, simp_all)
  then show ?thesis by fastforce
qed

lemma reach_steps: "server_steps restart serve zero s s' \<Longrightarrow> server_reach restart serve zero s \<Longrightarrow> server_reach restart serve zero s'"
  by (induction rule: rtranclp_induct) (auto intro: server_reach.step)

text \<open>
  C16. The server ends after its workers. When the main process has finished, the shared memory
  says so, every worker process has ended and been waited for, and no worker was in the middle of a
  request, unless it failed on that request.
\<close>

theorem shutdown_is_clean:
  assumes "server_reach restart serve zero s" "sv_main s = Finished"
  shows "sv_exit s \<and> (\<forall>w < ops_worker_count. sv_proc s w = Reaped)
    \<and> (\<forall>w r. busy (workers (sv_rpc s) w) = Some r \<longrightarrow> w \<in> sv_crashed s)"
proof -
  note inv = server_reach_inv [OF assms(1)]
  have "sv_proc s w = Reaped" if "w < ops_worker_count" for w
    using inv that assms(2) by (cases "sv_proc s w") (auto simp: server_inv_def child_def)
  moreover have "w \<in> sv_crashed s" if "busy (workers (sv_rpc s) w) = Some r" for w r
  proof -
    have "\<not> child (sv_proc s w)" using inv assms(2) by (simp add: server_inv_def)
    then have "sv_proc s w \<noteq> Scan" by (auto simp: child_def)
    with inv have "resting s w" by (simp add: server_inv_def)
    with that show ?thesis by (auto simp: resting_def)
  qed
  ultimately show ?thesis using inv assms(2) by (auto simp: server_inv_def)
qed

theorem shutdown_is_clean_witness:
  "\<exists>s :: nat server. server_reach True Suc 0 s \<and> sv_main s = Finished \<and> sv_exit s
    \<and> (\<forall>w < ops_worker_count. sv_proc s w = Reaped)"
proof -
  obtain s :: "nat server" where s: "server_reach True Suc 0 s" "sv_main s = Announce" using reach_announce by blast
  from can_finish [OF s(1)] s(2) obtain t where "server_steps True Suc 0 s t" "sv_main t = Finished" by blast
  with reach_steps [OF this(1) s(1)] shutdown_is_clean [OF reach_steps [OF this(1) s(1)] this(2)] show ?thesis
    by (intro exI [of _ t]) simp
qed

text \<open>
  C22. A shutdown can always be finished. From every reachable state in which the main process has
  left its first loop, steps of the workers and of the main process alone lead to its end: each
  worker completes the request it serves, ends, and is waited for.
\<close>

theorem shutdown_can_finish:
  assumes "server_reach restart serve zero s" "sv_main s \<in> {Announce, DrainWait}"
  shows "\<exists>s'. server_steps restart serve zero s s' \<and> sv_main s' = Finished \<and> clients (sv_rpc s') = clients (sv_rpc s)"
  using assms by (rule can_finish)

theorem shutdown_can_finish_witness:
  "\<exists>s s' :: nat server. server_reach True Suc 0 s \<and> sv_main s = Announce \<and> server_steps True Suc 0 s s' \<and> sv_main s' = Finished"
proof -
  obtain s :: "nat server" where s: "server_reach True Suc 0 s" "sv_main s = Announce" using reach_announce by blast
  from shutdown_can_finish [OF s(1)] s show ?thesis by blast
qed

section \<open>The mapping of the shared memory\<close>

lemma regions_disjoint:
  assumes "r < MAX_REGION_NUM"
  shows "META_REQ_SIZE \<le> region_request r" "region_request r + 1024 * 1024 \<le> SHM_SIZE"
    "q < r \<Longrightarrow> region_request q + 1024 * 1024 \<le> region_request r"
proof -
  show "META_REQ_SIZE \<le> region_request r" by (simp add: region_request_def)
  have "r \<le> 538" using assms by (simp add: MAX_REGION_NUM_val)
  then show "region_request r + 1024 * 1024 \<le> SHM_SIZE"
    by (simp add: region_request_def META_REQ_SIZE_def SHM_SIZE_def)
  assume "q < r"
  then have "1024 * 1024 * Suc q \<le> 1024 * 1024 * r" by (intro mult_le_mono2) simp
  then show "region_request q + 1024 * 1024 \<le> region_request r" by (simp add: region_request_def)
qed

lemma idle_wait_yields:
  "n < OPS_SERVER_IDLE_SPIN_LIMIT \<Longrightarrow> fst (idle_wait n) < OPS_SERVER_IDLE_SPIN_LIMIT
    \<and> (snd (idle_wait n) \<longleftrightarrow> n = OPS_SERVER_IDLE_SPIN_LIMIT - 1)"
  by (auto simp: idle_wait_def OPS_SERVER_IDLE_SPIN_LIMIT_def)

lemma bind_to_cpu_online: "bind_to_cpu n c = Some k \<Longrightarrow> int k < n"
proof -
  assume "bind_to_cpu n c = Some k"
  then have "0 < n" "k = c mod nat n" by (auto simp: bind_to_cpu_def split: if_splits)
  then have "k < nat n" by simp
  then show ?thesis by linarith
qed

lemma tdx_shm_page_aligned: "4096 dvd tdx_shm_phys_addr"
  by (simp add: tdx_shm_phys_addr_def)

lemma get_shm_prefers_file:
  "get_shm op ok = Inr fd \<Longrightarrow> fd \<noteq> - 1 \<and> ok fd \<and> (op ''/dev/shm/ipcshm'' \<noteq> - 1 \<longrightarrow> fd = op ''/dev/shm/ipcshm'')"
  by (auto simp: get_shm_def Let_def split: if_splits)

end
