(* ===== verification/Zeno_Variants.thy ===== *)
theory Zeno_Variants
  imports Zeno_Local_Store Zeno_Wal
begin

text \<open>
  What the stores do besides holding a field.

  The first part is \<^verbatim>\<open>kv_ops.flush_async()\<close>, the checkpoint command: the ranges the four kinds of
  store of every partition hand to \<^verbatim>\<open>msync\<close> (\<^verbatim>\<open>file-map-operator.hpp\<close>). They cover every field that
  a \<^verbatim>\<open>put\<close> has handed out, and they may miss one that only \<^verbatim>\<open>replace\<close> has written.

  The second part holds the stores of \<^verbatim>\<open>kv-local.hpp\<close> that other build options select: the vector
  of strings, with and without the length limit, and the ring buffers that stand in when
  \<^verbatim>\<open>USE_LOCAL_STORE_CLEAR\<close> is off. A ring keeps the last \<^verbatim>\<open>MAX_ARRAY_ELE_NUM\<close> temporaries and no more.
\<close>

section \<open>The checkpoint\<close>

text \<open>
  Where the stores of a partition are mapped: the \<^verbatim>\<open>store\<close> array of the three scalar kinds, and the
  \<^verbatim>\<open>offsets\<close> and \<^verbatim>\<open>store\<close> arrays of the text kind.
\<close>

record placement =
  at_int :: "rid \<Rightarrow> u64"
  at_float :: "rid \<Rightarrow> u64"
  at_time :: "rid \<Rightarrow> u64"
  at_offsets :: "rid \<Rightarrow> u64"
  at_text :: "rid \<Rightarrow> u64"

text \<open>
  The calls of \<^verbatim>\<open>msync\<close> one loop over a store map makes. The map is a hash map, so their order is
  not determined: they are a set of (address, length).
\<close>

definition synced :: "(rid \<Rightarrow> 'st \<Rightarrow> (u64 \<times> u64) option) \<Rightarrow> (rid \<Rightarrow> 'st option) \<Rightarrow> (u64 \<times> u64) set"
  where "synced flush stores = {r. \<exists>p s. stores p = Some s \<and> flush p s = Some r}"

definition flush_async :: "placement \<Rightarrow> file_map \<Rightarrow> (u64 \<times> u64) set" where
  "flush_async pl fm =
     synced (\<lambda>p. fs_flush_async 4 (at_int pl p)) (fm_int fm) \<union>
     synced (\<lambda>p. fs_flush_async 4 (at_float pl p)) (fm_float fm) \<union>
     synced (\<lambda>p. fs_flush_async 8 (at_time pl p)) (fm_time fm) \<union>
     synced (\<lambda>p. ts_flush_async (at_offsets pl p) (at_text pl p)) (fm_text fm)"

text \<open>The byte at address \<open>a\<close> is in a range.\<close>

definition in_range :: "nat \<Rightarrow> u64 \<times> u64 \<Rightarrow> bool" where
  "in_range a r \<longleftrightarrow> unat (fst r) \<le> a \<and> a < unat (fst r) + unat (snd r)"

lemma clear_page_offset: "unat (v AND NOT (4096 - 1) :: u64) = unat v div 4096 * 4096"
proof -
  have m: "(4096 - 1 :: u64) = mask 12"
    by (simp add: mask_eq_exp_minus_1)
  have "v AND NOT (mask 12) = push_bit 12 (drop_bit 12 v)"
    by (rule bit_word_eqI)
      (auto simp: bit_and_iff bit_not_iff bit_push_bit_iff bit_drop_bit_eq bit_mask_iff)
  moreover have "unat (push_bit 12 (drop_bit 12 v)) = unat v div 4096 * 4096"
  proof -
    have "unat v div 4096 * 4096 \<le> unat v" by simp
    also have "unat v < 2 ^ 64" using unsigned_less [of v] by simp
    finally show ?thesis
      by (simp add: push_bit_eq_mult unat_word_ariths unat_drop_bit_eq drop_bit_eq_div)
  qed
  ultimately show ?thesis unfolding m by simp
qed

text \<open>A range from the page of \<open>lo\<close> to the page after \<open>hi\<close> holds every byte between the two.\<close>

lemma aligned_range_covers:
  assumes "unat lo \<le> a" and "a < unat hi" and "unat hi + 4096 \<le> 2 ^ 64"
  shows "in_range a (PAGE_ALIGN_DOWN lo, PAGE_ALIGN_UP hi - PAGE_ALIGN_DOWN lo)"
proof -
  let ?l = "PAGE_ALIGN_DOWN lo" and ?h = "PAGE_ALIGN_UP hi"
  have l: "unat ?l \<le> unat lo"
    unfolding PAGE_ALIGN_DOWN_def clear_page_offset by simp
  have "unat (hi + (4096 - 1)) = unat hi + 4095"
    using assms(3) by (simp add: unat_word_ariths)
  then have "unat ?h = (unat hi + 4095) div 4096 * 4096"
    unfolding PAGE_ALIGN_UP_def clear_page_offset by simp
  then have h: "unat hi \<le> unat ?h" by linarith
  from l h assms(1,2) have "?l \<le> ?h" by (simp add: word_le_nat_alt)
  then have "unat (?h - ?l) = unat ?h - unat ?l" by (rule unat_sub)
  with l h assms(1,2) show ?thesis by (simp add: in_range_def)
qed

text \<open>A mapping of the size of a segment ends below the top of the address space.\<close>

definition mapped_at :: "u64 \<Rightarrow> bool" where
  "mapped_at base \<longleftrightarrow> unat base + KV_MMAP_SIZE + 4096 \<le> 2 ^ 64"

lemma fs_flush_async_covers:
  assumes "mapped_at base" and "unat (fs_cur_rid s) \<le> MAX_ARRAY_ELE_NUM sz" and "0 < sz"
    and "i < unat (fs_cur_rid s)" and "k < sz"
  shows "\<exists>r. fs_flush_async sz base s = Some r \<and> in_range (unat base + i * sz + k) r"
proof -
  let ?n = "unat (fs_cur_rid s)"
  have "MAX_ARRAY_ELE_NUM sz * sz \<le> KV_MMAP_SIZE"
    by (simp add: MAX_ARRAY_ELE_NUM_def) (metis diff_le_self div_times_less_eq_dividend le_trans)
  with assms(2) have le: "?n * sz \<le> KV_MMAP_SIZE"
    by (meson le_trans mult_le_mono1)
  have small: "?n * sz < 2 ^ 64" using le by (simp add: KV_MMAP_SIZE_def)
  have "sz \<le> ?n * sz" using assms(4) by (cases ?n) simp_all
  with small have "sz < 2 ^ 64" by linarith
  then have "unat (of_nat sz :: u64) = sz" by (simp add: unat_of_nat take_bit_nat_eq_self)
  with small have used: "unat (fs_cur_rid s * of_nat sz) = ?n * sz"
    by (simp add: unat_word_ariths)
  have "i * sz + sz \<le> ?n * sz"
    using mult_le_mono1 [of "Suc i" ?n sz] assms(4) by simp
  then have below: "i * sz + k < ?n * sz" using assms(5) by linarith
  have "unat (base + fs_cur_rid s * of_nat sz) = unat base + ?n * sz"
    using assms(1) le used unfolding mapped_at_def by (subst unat_word_ariths) simp
  then have "in_range (unat base + i * sz + k)
      (PAGE_ALIGN_DOWN base, PAGE_ALIGN_UP (base + fs_cur_rid s * of_nat sz) - PAGE_ALIGN_DOWN base)"
    using below assms(1) le unfolding mapped_at_def by (intro aligned_range_covers) simp_all
  moreover have "fs_cur_rid s * of_nat sz \<noteq> 0" using used below by (metis not_less0 unat_0)
  ultimately show ?thesis by (simp add: fs_flush_async_def Let_def)
qed

lemma ts_flush_async_covers:
  assumes "mapped_at offsets_base" and "offsets_base \<le> a" and "a < store_base + ts_cur_offset s"
    and "unat store_base + unat (ts_cur_offset s) \<le> unat offsets_base + KV_MMAP_SIZE"
    and "ts_cur_offset s \<noteq> 0"
  shows "\<exists>r. ts_flush_async offsets_base store_base s = Some r \<and> in_range (unat a) r"
proof -
  have "unat (store_base + ts_cur_offset s) = unat store_base + unat (ts_cur_offset s)"
    using assms(1,4) unfolding mapped_at_def by (subst unat_word_ariths) simp
  then have "in_range (unat a) (PAGE_ALIGN_DOWN offsets_base,
      PAGE_ALIGN_UP (store_base + ts_cur_offset s) - PAGE_ALIGN_DOWN offsets_base)"
    using assms unfolding mapped_at_def word_le_nat_alt word_less_nat_alt
    by (intro aligned_range_covers) simp_all
  with assms(5) show ?thesis by (simp add: ts_flush_async_def Let_def)
qed

lemma syncedI: "stores p = Some s \<Longrightarrow> flush p s = Some r \<Longrightarrow> r \<in> synced flush stores"
  by (auto simp: synced_def)

text \<open>
  Every byte of every integer that some \<^verbatim>\<open>put\<close> has handed out, of every partition, is in a range the
  checkpoint hands to \<^verbatim>\<open>msync\<close>.
\<close>

theorem checkpoint_covers_ints:
  assumes "fm_int fm p = Some s" and "mapped_at (at_int pl p)"
    and "unat (fs_cur_rid s) \<le> MAX_ARRAY_ELE_NUM 4" and "i < unat (fs_cur_rid s)" and "k < 4"
  shows "\<exists>r \<in> flush_async pl fm. in_range (unat (at_int pl p) + i * 4 + k) r"
proof -
  obtain r where r: "fs_flush_async 4 (at_int pl p) s = Some r"
    and "in_range (unat (at_int pl p) + i * 4 + k) r"
    using fs_flush_async_covers [OF assms(2,3) _ assms(4,5)] by auto
  moreover have "r \<in> synced (\<lambda>p. fs_flush_async 4 (at_int pl p)) (fm_int fm)"
    using assms(1) r by (blast intro: syncedI)
  ultimately show ?thesis unfolding flush_async_def by blast
qed

text \<open>And every byte of the offset table and of the strings, up to the end of the last one.\<close>

theorem checkpoint_covers_texts:
  assumes "fm_text fm p = Some s" and "mapped_at (at_offsets pl p)"
    and "at_offsets pl p \<le> a" and "a < at_text pl p + ts_cur_offset s"
    and "unat (at_text pl p) + unat (ts_cur_offset s) \<le> unat (at_offsets pl p) + KV_MMAP_SIZE"
    and "ts_cur_offset s \<noteq> 0"
  shows "\<exists>r \<in> flush_async pl fm. in_range (unat a) r"
proof -
  obtain r where r: "ts_flush_async (at_offsets pl p) (at_text pl p) s = Some r"
    and "in_range (unat a) r"
    using ts_flush_async_covers [OF assms(2-6)] by auto
  moreover have "r \<in> synced (\<lambda>p. ts_flush_async (at_offsets pl p) (at_text pl p)) (fm_text fm)"
    using assms(1) r by (blast intro: syncedI)
  ultimately show ?thesis unfolding flush_async_def by blast
qed

text \<open>
  \<^verbatim>\<open>replace\<close> stores at any index of the array and leaves \<^verbatim>\<open>cur_rid\<close> as it is, while \<^verbatim>\<open>flush_async\<close> stops
  at \<^verbatim>\<open>cur_rid\<close>. A field that recovery has restored with \<^verbatim>\<open>replace\<close> in a store whose counter is
  behind is therefore in no range: here the store is new and nothing at all is synchronised.
\<close>

theorem checkpoint_misses_replaced:
  assumes "unat key < MAX_ARRAY_ELE_NUM sz"
  shows "\<exists>s. fs_replace sz key v (fs_fresh z) = (Inr (), s) \<and> fs_store s (unat key) = v \<and>
             fs_flush_async sz base s = None"
  using assms by (simp add: fs_replace_def fs_fresh_def fs_flush_async_def)

section \<open>The other stores of temporaries\<close>

definition vls_clear :: "('v list, unit) kvm" where
  "vls_clear = (\<lambda>s. (Inr (), []))"

text \<open>
  The vectors of strings. With variable-length strings the value is taken up to its NUL; without,
  at most \<^verbatim>\<open>STRING_LENGTH\<close> bytes of it are (\<^verbatim>\<open>strnlen\<close>), whether or not a NUL is among them.
\<close>

definition vstr_put :: "byte list \<Rightarrow> (byte list list, rid) kvm" where
  "vstr_put value = vls_put (cstr value)"

definition vstr_get :: "rid \<Rightarrow> (byte list list, byte list) kvm" where
  "vstr_get = vls_get"

definition vstr_replace :: "rid \<Rightarrow> byte list \<Rightarrow> (byte list list, unit) kvm" where
  "vstr_replace key value = vls_replace [] key (cstr value)"

definition vfix_put :: "byte list \<Rightarrow> (byte list list, rid) kvm" where
  "vfix_put value = vls_put (cstr (take STRING_LENGTH value))"

definition vfix_replace :: "rid \<Rightarrow> byte list \<Rightarrow> (byte list list, unit) kvm" where
  "vfix_replace key value = vls_replace [] key (cstr (take STRING_LENGTH value))"

text \<open>The ring buffers: of scalars, of strings in a vector, and of blocks of \<^verbatim>\<open>STRING_LENGTH\<close> bytes.\<close>

definition RING_MAX :: nat where "RING_MAX = 10 * 1024"

definition ring_replace :: "nat \<Rightarrow> rid \<Rightarrow> 'v \<Rightarrow> ('v ring_store, unit) kvm" where
  "ring_replace max_ele key value = (\<lambda>s.
     if unat key < max_ele then (Inr (), s\<lparr>rg_store := (rg_store s)(unat key := value)\<rparr>)
     else (Inl (Undefined VectorIndex), s))"

record string_ring =
  sr_cur_rid :: rid
  sr_store :: "byte list list"

definition RING_STRINGS :: nat where "RING_STRINGS = 10 * 1024 * 1024 div STRING_LENGTH"

definition sring_put :: "byte list \<Rightarrow> (string_ring, rid) kvm" where
  "sring_put value = (\<lambda>s.
     let key = sr_cur_rid s; cur = key + 1;
         store = (if length (sr_store s) \<le> unat key
                  then vec_resize (unat (key + 1)) [] (sr_store s) else sr_store s) in
     if unat key < length store then
       (Inr key, s\<lparr>sr_store := store[unat key := cstr value],
                   sr_cur_rid := (if of_nat RING_STRINGS \<le> cur then 0 else cur)\<rparr>)
     else (Inl (Undefined VectorIndex), s\<lparr>sr_cur_rid := cur, sr_store := store\<rparr>))"

definition sring_get :: "rid \<Rightarrow> (string_ring, byte list) kvm" where
  "sring_get key = (\<lambda>s.
     if unat key < length (sr_store s) then (Inr (sr_store s ! unat key), s)
     else (Inl (Undefined VectorIndex), s))"

definition sring_replace :: "rid \<Rightarrow> byte list \<Rightarrow> (string_ring, unit) kvm" where
  "sring_replace key value = (\<lambda>s.
     let store = (if length (sr_store s) \<le> unat key
                  then vec_resize (unat (key + 1)) [] (sr_store s) else sr_store s) in
     if unat key < length store then (Inr (), s\<lparr>sr_store := store[unat key := cstr value]\<rparr>)
     else (Inl (Undefined VectorIndex), s\<lparr>sr_store := store\<rparr>))"

definition RING_BLOCKS :: nat where "RING_BLOCKS = 10 * 1024 div STRING_LENGTH"

text \<open>
  \<^verbatim>\<open>memcpy(store[key], value, STRING_LENGTH)\<close>: \<open>value\<close> is the bytes of the caller's object, and a
  shorter object is read past its end.
\<close>

definition block_of :: "byte list \<Rightarrow> ('s, byte list) kvm" where
  "block_of value = (\<lambda>s.
     if STRING_LENGTH \<le> length value then (Inr (take STRING_LENGTH value), s)
     else (Inl (Undefined OverRead), s))"

definition bring_put :: "byte list \<Rightarrow> (byte list ring_store, rid) kvm" where
  "bring_put value = bindE (block_of value) (ring_put RING_BLOCKS)"

definition bring_replace :: "rid \<Rightarrow> byte list \<Rightarrow> (byte list ring_store, unit) kvm" where
  "bring_replace key value = bindE (block_of value) (ring_replace RING_BLOCKS key)"

text \<open>The same block store over the mapped file, without variable-length strings.\<close>

definition FILE_BLOCKS :: nat where
  "FILE_BLOCKS = (KV_MMAP_SIZE - PAGE_SIZE) div STRING_LENGTH"

definition bfile_put :: "byte list \<Rightarrow> (byte list fstore, rid) kvm" where
  "bfile_put value = (\<lambda>s.
     let key = fs_cur_rid s; s1 = s\<lparr>fs_cur_rid := key + 1\<rparr> in
     if unat key < FILE_BLOCKS
     then bindE (block_of value)
            (\<lambda>b s. (Inr key, s\<lparr>fs_store := (fs_store s)(unat key := b)\<rparr>)) s1
     else (Inl (Fatal KeyOutOfRange), s1))"

definition bfile_get :: "rid \<Rightarrow> (byte list fstore, byte list) kvm" where
  "bfile_get key = (\<lambda>s.
     if unat key < FILE_BLOCKS then (Inr (fs_store s (unat key)), s)
     else (Inl (Fatal KeyOutOfRange), s))"

definition bfile_replace :: "rid \<Rightarrow> byte list \<Rightarrow> (byte list fstore, unit) kvm" where
  "bfile_replace key value =
     bindE (kvdb_check (unat key < FILE_BLOCKS) KeyOutOfRange) (\<lambda>_.
     bindE (block_of value)
       (\<lambda>b s. (Inr (), s\<lparr>fs_store := (fs_store s)(unat key := b)\<rparr>)))"

section \<open>How long a ring keeps a temporary\<close>

text \<open>A run of \<^verbatim>\<open>put\<close>s of a ring, with the keys it returns.\<close>

fun ring_puts :: "nat \<Rightarrow> 'v list \<Rightarrow> ('v ring_store, rid list) kvm" where
  "ring_puts max_ele [] = ret []"
| "ring_puts max_ele (v # vs) =
     bindE (ring_put max_ele v) (\<lambda>key. bindE (ring_puts max_ele vs) (\<lambda>keys. ret (key # keys)))"

lemma ring_put_ok:
  assumes "unat (rg_cur_rid s) < n" and "n < 2 ^ 63"
  shows "ring_put n v s =
    (Inr (rg_cur_rid s), \<lparr>rg_cur_rid = of_nat (Suc (unat (rg_cur_rid s)) mod n),
       rg_store = (rg_store s)(unat (rg_cur_rid s) := v)\<rparr>)"
proof -
  let ?c = "rg_cur_rid s"
  have suc: "unat (?c + 1) = Suc (unat ?c)"
    using assms by (simp add: unat_word_ariths)
  have n: "unat (of_nat n :: rid) = n"
    using assms by (simp add: unat_of_nat take_bit_nat_eq_self)
  have "(if of_nat n \<le> ?c + 1 then 0 else ?c + 1) = of_nat (Suc (unat ?c) mod n)"
  proof (cases "Suc (unat ?c) = n")
    case False
    then have lt: "Suc (unat ?c) < n" using assms by simp
    then show ?thesis by (simp add: word_le_nat_alt suc n)
  qed (simp add: word_le_nat_alt suc n)
  with assms(1) show ?thesis
    by (simp add: ring_put_def Let_def)
qed

lemma mod_steps: "(Suc c mod n + i) mod n = (c + Suc i) mod (n :: nat)"
  by (simp add: mod_add_left_eq)

text \<open>
  Starting at \<open>c\<close>, the keys of a run count upwards modulo the size of the ring, and a cell that
  none of them names keeps its value.
\<close>

lemma ring_puts_ok:
  assumes "unat (rg_cur_rid s) < n" and "n < 2 ^ 63"
  shows "\<exists>s'. ring_puts n vs s =
      (Inr (map (\<lambda>i. of_nat ((unat (rg_cur_rid s) + i) mod n)) [0..<length vs]), s') \<and>
    unat (rg_cur_rid s') = (unat (rg_cur_rid s) + length vs) mod n \<and>
    (\<forall>k. (\<forall>i < length vs. k \<noteq> (unat (rg_cur_rid s) + i) mod n) \<longrightarrow> rg_store s' k = rg_store s k)"
  using assms(1)
proof (induction vs arbitrary: s)
  case Nil
  then show ?case by (simp add: ret_def)
next
  case (Cons v vs)
  let ?c = "unat (rg_cur_rid s)"
  define s1 where "s1 = \<lparr>rg_cur_rid = of_nat (Suc ?c mod n), rg_store = (rg_store s)(?c := v)\<rparr>"
  have "Suc ?c mod n < n" using Cons.prems by simp
  then have "Suc ?c mod n < 2 ^ 64" using assms(2) by simp
  then have c1: "unat (rg_cur_rid s1) = Suc ?c mod n"
    by (simp add: s1_def unat_of_nat take_bit_nat_eq_self)
  with Cons.prems have "unat (rg_cur_rid s1) < n" by simp
  from Cons.IH [OF this] obtain s' where run: "ring_puts n vs s1 =
      (Inr (map (\<lambda>i. of_nat ((?c + Suc i) mod n)) [0..<length vs]), s')"
    and cur: "unat (rg_cur_rid s') = (?c + Suc (length vs)) mod n"
    and keep: "\<And>k. \<forall>i < length vs. k \<noteq> (?c + Suc i) mod n \<Longrightarrow> rg_store s' k = rg_store s1 k"
    unfolding c1 mod_steps by blast
  have "ring_puts n (v # vs) s = (Inr (map (\<lambda>i. of_nat ((?c + i) mod n)) [0..<length (v # vs)]), s')"
    using run Cons.prems
    by (simp add: bindE_def ring_put_ok [OF Cons.prems assms(2)] ret_def upt_conv_Cons
        map_Suc_upt [symmetric] s1_def del: upt_Suc)
  moreover have "rg_store s' k = rg_store s k"
    if k: "\<forall>i < length (v # vs). k \<noteq> (?c + i) mod n" for k
  proof -
    have "k \<noteq> (?c + Suc i) mod n" if "i < length vs" for i
      using k [rule_format, of "Suc i"] that by simp
    then have "rg_store s' k = rg_store s1 k" by (intro keep) blast
    moreover have "k \<noteq> ?c" using k [rule_format, of 0] Cons.prems by simp
    ultimately show ?thesis by (simp add: s1_def)
  qed
  ultimately show ?case using cur by (intro exI [of _ s']) simp
qed

lemma ring_puts_append:
  "ring_puts n (us @ vs) s =
     bindE (ring_puts n us) (\<lambda>ks. bindE (ring_puts n vs) (\<lambda>ls. ret (ks @ ls))) s"
  by (induction us arbitrary: s) (auto simp: bindE_def ret_def split: sum.splits prod.splits)

text \<open>
  Of a run of \<^verbatim>\<open>put\<close>s, each of the last \<open>n\<close> values is what \<^verbatim>\<open>get\<close> returns for its key; the one before
  those has been overwritten by the last.
\<close>

theorem ring_keeps_last:
  assumes "unat (rg_cur_rid s) < n" and "n < 2 ^ 63" and "length vs < n"
  shows "\<exists>key keys s'. ring_puts n (v # vs) s = (Inr (key # keys), s') \<and>
           ring_get n key s' = (Inr v, s')"
proof -
  let ?c = "unat (rg_cur_rid s)"
  define s1 where "s1 = \<lparr>rg_cur_rid = of_nat (Suc ?c mod n), rg_store = (rg_store s)(?c := v)\<rparr>"
  have put: "ring_put n v s = (Inr (rg_cur_rid s), s1)"
    using ring_put_ok [OF assms(1,2)] by (simp add: s1_def)
  have "Suc ?c mod n < n" using assms(1) by simp
  then have c1: "unat (rg_cur_rid s1) = Suc ?c mod n"
    using assms(2) by (simp add: s1_def unat_of_nat take_bit_nat_eq_self)
  with assms(1) have "unat (rg_cur_rid s1) < n" by simp
  from ring_puts_ok [OF this assms(2), of vs] obtain keys s' where
    run: "ring_puts n vs s1 = (Inr keys, s')"
    and keep: "\<And>k. \<forall>i < length vs. k \<noteq> (?c + Suc i) mod n \<Longrightarrow> rg_store s' k = rg_store s1 k"
    unfolding c1 mod_steps by blast
  have "?c \<noteq> (?c + Suc i) mod n" if "i < length vs" for i
  proof
    assume "?c = (?c + Suc i) mod n"
    then have "(?c + Suc i) mod n = (?c + 0) mod n" using assms(1) by simp
    then have "n dvd Suc i" by (subst (asm) mod_eq_dvd_iff_nat) simp_all
    with that assms(3) show False by (auto dest: dvd_imp_le)
  qed
  then have "rg_store s' ?c = v" using keep [of ?c] by (simp add: s1_def)
  moreover have "ring_puts n (v # vs) s = (Inr (rg_cur_rid s # keys), s')"
    using put run by (simp add: bindE_def ret_def)
  ultimately show ?thesis using assms(1) by (simp add: ring_get_def)
qed

theorem ring_forgets:
  assumes "unat (rg_cur_rid s) < n" and "n < 2 ^ 63" and "Suc (length vs) = n"
  shows "\<exists>key keys s'. ring_puts n (v # vs @ [w]) s = (Inr (key # keys), s') \<and>
           ring_get n key s' = (Inr w, s')"
proof -
  let ?c = "unat (rg_cur_rid s)"
  obtain s' where run: "ring_puts n (v # vs) s =
      (Inr (map (\<lambda>i. of_nat ((?c + i) mod n)) [0..<length (v # vs)]), s')"
    and "unat (rg_cur_rid s') = (?c + length (v # vs)) mod n"
    using ring_puts_ok [OF assms(1,2)] by blast
  then have cur: "unat (rg_cur_rid s') = ?c" using assms(1,3) by simp
  define s2 where "s2 = \<lparr>rg_cur_rid = of_nat (Suc ?c mod n), rg_store = (rg_store s')(?c := w)\<rparr>"
  have "ring_put n w s' = (Inr (rg_cur_rid s'), s2)"
    using ring_put_ok [of s' n w] assms(1,2) cur by (simp add: s2_def)
  moreover have "rg_cur_rid s' = rg_cur_rid s" using cur by (simp add: unat_inj_u64)
  ultimately have last: "ring_puts n [w] s' = (Inr [rg_cur_rid s], s2)"
    by (simp add: bindE_def ret_def)
  have "map (\<lambda>i. of_nat ((?c + i) mod n)) [0..<length (v # vs)] =
      rg_cur_rid s # map (\<lambda>i. of_nat ((?c + i) mod n)) [1..<length (v # vs)]"
    using assms(1) by (simp add: upt_conv_Cons del: upt_Suc)
  with run last have "\<exists>keys. ring_puts n ((v # vs) @ [w]) s = (Inr (rg_cur_rid s # keys), s2)"
    unfolding ring_puts_append by (simp add: bindE_def ret_def)
  moreover have "ring_get n (rg_cur_rid s) s2 = (Inr w, s2)"
    using assms(1) by (simp add: ring_get_def s2_def)
  ultimately show ?thesis by auto
qed

text \<open>The block ring holds 18 texts, a thousandth of what the ring of strings is sized for.\<close>

lemma ring_sizes: "RING_MAX = 10240" "RING_STRINGS = 19418" "RING_BLOCKS = 18"
  by (simp_all add: RING_MAX_def RING_STRINGS_def RING_BLOCKS_def STRING_LENGTH_def)

end
