(* ===== verification/Zeno_Util.thy ===== *)
theory Zeno_Util
  imports Zeno_Prelude
begin

text \<open>
  The utilities of \<^verbatim>\<open>src/src/util.cpp\<close>: the spin lock as a step relation over any number of threads,
  with its mutual exclusion, and the hexadecimal dump, with the length of the text it writes into a
  buffer of 512 bytes. \<^verbatim>\<open>kvdb_fatal_at\<close> is the constructor \<open>Fatal\<close> of \<^verbatim>\<open>Zeno_Prelude\<close>: it prints and
  ends the process.
\<close>

section \<open>The spin lock\<close>

text \<open>
  A thread is outside, about to compare and swap in \<^verbatim>\<open>spin_lock\<close>, in the inner loop, or between
  \<^verbatim>\<open>spin_lock\<close> and \<^verbatim>\<open>spin_unlock\<close>.
\<close>

datatype spinner = Idle | Swapping | Spinning | Holding

record spin =
  sp_word :: i32
  sp_pc :: "nat \<Rightarrow> spinner"

inductive spin_step :: "spin \<Rightarrow> spin \<Rightarrow> bool" where
  enter: "sp_pc s t = Idle \<Longrightarrow> spin_step s (s\<lparr>sp_pc := (sp_pc s)(t := Swapping)\<rparr>)"
| swap: "sp_pc s t = Swapping \<Longrightarrow> sp_word s = 0 \<Longrightarrow>
    spin_step s (s\<lparr>sp_word := 1, sp_pc := (sp_pc s)(t := Holding)\<rparr>)"
| swap_fails: "sp_pc s t = Swapping \<Longrightarrow> sp_word s \<noteq> 0 \<Longrightarrow> spin_step s (s\<lparr>sp_pc := (sp_pc s)(t := Spinning)\<rparr>)"
| spins: "sp_pc s t = Spinning \<Longrightarrow> sp_word s \<noteq> 0 \<Longrightarrow> spin_step s s"
| sees_free: "sp_pc s t = Spinning \<Longrightarrow> sp_word s = 0 \<Longrightarrow> spin_step s (s\<lparr>sp_pc := (sp_pc s)(t := Swapping)\<rparr>)"
| unlock: "sp_pc s t = Holding \<Longrightarrow> spin_step s (s\<lparr>sp_word := 0, sp_pc := (sp_pc s)(t := Idle)\<rparr>)"

definition spin_init :: spin where
  "spin_init = \<lparr>sp_word = 0, sp_pc = (\<lambda>_. Idle)\<rparr>"

definition holders :: "(nat \<Rightarrow> spinner) \<Rightarrow> nat set" where
  "holders pc = {t. pc t = Holding}"

definition spin_inv :: "spin \<Rightarrow> bool" where
  "spin_inv s \<longleftrightarrow> sp_word s = 0 \<and> holders (sp_pc s) = {} \<or> sp_word s = 1 \<and> (\<exists>h. holders (sp_pc s) = {h})"

lemma holders_upd: "holders (pc(t := x)) = (if x = Holding then insert t (holders pc) else holders pc - {t})"
  by (auto simp: holders_def)

lemma holders_idle: "pc t \<noteq> Holding \<Longrightarrow> x \<noteq> Holding \<Longrightarrow> holders (pc(t := x)) = holders pc"
  by (auto simp: holders_def)

lemma spin_inv_step: "spin_step s s' \<Longrightarrow> spin_inv s \<Longrightarrow> spin_inv s'"
proof (induction rule: spin_step.induct)
  case (unlock s t)
  then have "t \<in> holders (sp_pc s)" by (simp add: holders_def)
  with unlock show ?case by (auto simp: spin_inv_def holders_upd)
next
  case (swap s t)
  then show ?case by (auto simp: spin_inv_def holders_upd)
qed (simp_all add: spin_inv_def holders_idle)

lemma spin_inv_reach: "spin_step\<^sup>*\<^sup>* spin_init s \<Longrightarrow> spin_inv s"
  by (induction rule: rtranclp_induct) (auto simp: spin_inv_step, simp add: spin_inv_def spin_init_def holders_def)

lemma spin_waiter_gets:
  assumes "spin_inv s" "sp_pc s t \<in> {Swapping, Spinning}"
  shows "\<exists>s'. spin_step\<^sup>*\<^sup>* s s' \<and> sp_pc s' t = Holding"
proof -
  have take: "\<exists>s'. spin_step\<^sup>*\<^sup>* u s' \<and> sp_pc s' t = Holding" if "sp_word u = 0" "sp_pc u t \<in> {Swapping, Spinning}" for u
  proof -
    have swap: "\<exists>s'. spin_step\<^sup>*\<^sup>* v s' \<and> sp_pc s' t = Holding" if "sp_word v = 0" "sp_pc v t = Swapping" for v
      using r_into_rtranclp [of spin_step, OF spin_step.swap [OF that(2,1)]] by fastforce
    show ?thesis
    proof (cases "sp_pc u t = Swapping")
      case False
      with that have "spin_step u (u\<lparr>sp_pc := (sp_pc u)(t := Swapping)\<rparr>)" by (auto intro: spin_step.sees_free)
      with swap [of "u\<lparr>sp_pc := (sp_pc u)(t := Swapping)\<rparr>"] that show ?thesis
        by (auto intro: converse_rtranclp_into_rtranclp)
    qed (use swap that in auto)
  qed
  show ?thesis
  proof (cases "sp_word s = 0")
    case False
    with assms(1) obtain h where h: "sp_pc s h = Holding" by (auto simp: spin_inv_def holders_def)
    with assms(2) have "h \<noteq> t" by auto
    let ?u = "s\<lparr>sp_word := 0, sp_pc := (sp_pc s)(h := Idle)\<rparr>"
    have "\<exists>s'. spin_step\<^sup>*\<^sup>* ?u s' \<and> sp_pc s' t = Holding"
      by (rule take) (use assms(2) \<open>h \<noteq> t\<close> in auto)
    with spin_step.unlock [OF h] show ?thesis by (auto intro: converse_rtranclp_into_rtranclp)
  qed (use take assms(2) in blast)
qed

theorem spin_lock_exclusive:
  assumes "spin_step\<^sup>*\<^sup>* spin_init s"
  shows "(sp_pc s t = Holding \<longrightarrow> sp_pc s u = Holding \<longrightarrow> t = u)
    \<and> (sp_pc s t \<in> {Swapping, Spinning} \<longrightarrow> (\<exists>s'. spin_step\<^sup>*\<^sup>* s s' \<and> sp_pc s' t = Holding))"
proof -
  note inv = spin_inv_reach [OF assms]
  have "t = u" if "sp_pc s t = Holding" "sp_pc s u = Holding"
  proof -
    have "t \<in> holders (sp_pc s)" "u \<in> holders (sp_pc s)" using that by (simp_all add: holders_def)
    with inv show ?thesis by (auto simp: spin_inv_def)
  qed
  with spin_waiter_gets [OF inv, of t] show ?thesis by blast
qed

text \<open>\<^verbatim>\<open>spin_wait\<close> for the values it reads: the position of the first that is the one awaited.\<close>

primrec spin_wait :: "i32 \<Rightarrow> i32 list \<Rightarrow> nat option" where
  "spin_wait val [] = None"
| "spin_wait val (v # reads) = (if v \<noteq> val then map_option Suc (spin_wait val reads) else Some 0)"

lemma spin_wait_first: "spin_wait val reads = Some i \<longleftrightarrow> i < length reads \<and> reads ! i = val \<and> val \<notin> set (take i reads)"
proof (induction reads arbitrary: i)
  case (Cons v reads)
  then show ?case by (cases i) auto
qed simp

section \<open>Hexadecimal dumps\<close>

definition hex_digit :: "nat \<Rightarrow> char" where
  "hex_digit n = ''0123456789abcdef'' ! n"

definition isgraph :: "byte \<Rightarrow> bool" where
  "isgraph b \<longleftrightarrow> 33 \<le> unat b \<and> unat b \<le> 126"

text \<open>\<^verbatim>\<open>%02x\<close> and a space.\<close>

definition hex_byte :: "byte \<Rightarrow> string" where
  "hex_byte b = [hex_digit (unat b div 16), hex_digit (unat b mod 16), CHR '' '']"

definition graph_chars :: "byte list \<Rightarrow> nat \<Rightarrow> nat \<Rightarrow> string" where
  "graph_chars p y x = concat (map (\<lambda>i. (if i mod 8 = 0 then '' '' else [])
     @ [if isgraph (p ! i) then char_of (unat (p ! i)) else CHR ''.'']) [y..<x])"

definition hex_pad :: "nat \<Rightarrow> string" where
  "hex_pad x = (if x mod 16 \<noteq> 0 then (if 8 \<le> 16 - x mod 16 then '' '' else []) @ concat (replicate (16 - x mod 16) ''   '') else [])"

text \<open>The loop of \<^verbatim>\<open>print_hex\<close> with its two positions and the text so far.\<close>

function hex_loop :: "byte list \<Rightarrow> nat \<Rightarrow> nat \<Rightarrow> string \<Rightarrow> string" where
  "hex_loop p x y tmp =
     (if x < length p then
        (let tmp = tmp @ hex_byte (p ! x); x = Suc x in
         if x mod 16 = 0 \<or> x = length p then
           hex_loop p x (max x y) (tmp @ hex_pad x @ '' | '' @ graph_chars p y x @ [CHR 0x0A])
         else hex_loop p x y (if x mod 8 = 0 then tmp @ '' '' else tmp))
      else tmp)"
  by auto
termination
  by (relation "measure (\<lambda>(p, x, y, tmp). length p - x)") auto

declare hex_loop.simps [simp del]

definition print_hex :: "string \<Rightarrow> byte list \<Rightarrow> string" where
  "print_hex what p = hex_loop p 0 0 (what @ '' contents: '' @ [CHR 0x0A])"

text \<open>
  The length of the dump of \<open>l\<close> bytes: 71 characters for every full line, and what the last line
  needs. \<open>dumped x\<close> is what has been written when \<open>x\<close> bytes are done, inside a line.
\<close>

definition dump_length :: "nat \<Rightarrow> nat" where
  "dump_length l = 71 * (l div 16) + (if l mod 16 = 0 then 0 else 53 + l mod 16 + (if 8 < l mod 16 then 2 else 1))"

definition dumped :: "nat \<Rightarrow> nat" where
  "dumped x = 71 * (x div 16) + 3 * (x mod 16) + (if 8 \<le> x mod 16 then 1 else 0)"

lemma graph_chars_length:
  assumes "r \<le> 16"
  shows "length (graph_chars p (16 * q) (16 * q + r)) = r + (if r = 0 then 0 else if r \<le> 8 then 1 else 2)"
  using assms
proof (induction r)
  case (Suc r)
  have "16 * q + r = (q + q) * 8 + r" by simp
  then have "(16 * q + r) mod 8 = r mod 8" by (metis mod_mult_self3)
  moreover have "r mod 8 = 0 \<longleftrightarrow> r = 0 \<or> r = 8" using Suc.prems by presburger
  moreover have "graph_chars p (16 * q) (16 * q + Suc r) = graph_chars p (16 * q) (16 * q + r)
      @ (if (16 * q + r) mod 8 = 0 then '' '' else []) @ [if isgraph (p ! (16 * q + r)) then char_of (unat (p ! (16 * q + r))) else CHR ''.'']"
    by (simp add: graph_chars_def)
  ultimately show ?case using Suc by auto
qed (simp add: graph_chars_def)

lemma hex_byte_length [simp]: "length (hex_byte b) = 3"
  by (simp add: hex_byte_def)

lemma hex_pad_length: "r < 16 \<Longrightarrow> length (hex_pad (16 * q + r)) = (if r = 0 then 0 else 3 * (16 - r) + (if r \<le> 8 then 1 else 0))"
  by (auto simp: hex_pad_def length_concat sum_list_replicate)

lemma hex_loop_length:
  assumes "x = 16 * q + r" "r < 16" "x \<le> length p" "x = length p \<longrightarrow> r = 0"
  shows "length (hex_loop p x (16 * q) tmp) + dumped x = length tmp + dump_length (length p)"
  using assms
proof (induction "length p - x" arbitrary: x q r tmp rule: less_induct)
  case less
  show ?case
  proof (cases "x < length p")
    case False
    with less.prems have "x = length p" "length p = 16 * q" by simp_all
    with False show ?thesis by (subst hex_loop.simps) (simp add: dumped_def dump_length_def)
  next
    case True
    let ?x = "Suc x" and ?tmp = "tmp @ hex_byte (p ! x)"
    have lt: "length p - ?x < length p - x" using True by simp
    have r: "?x = 16 * q + Suc r" using less.prems(1) by simp
    consider (full) "Suc r = 16" | (last) "Suc r < 16" "?x = length p" | (mid) "Suc r < 16" "?x < length p"
      using less.prems(2) True by linarith
    then show ?thesis
    proof cases
      case full
      then have x: "?x = 16 * (q + 1) + 0" using r by simp
      have "hex_loop p x (16 * q) tmp = hex_loop p ?x (16 * (q + 1)) (?tmp @ hex_pad ?x @ '' | '' @ graph_chars p (16 * q) ?x @ [CHR 0x0A])"
        using True x by (subst hex_loop.simps) (simp add: Let_def)
      moreover have "length (graph_chars p (16 * q) ?x) = 18" "length (hex_pad ?x) = 0"
        using graph_chars_length [of 16 p q] hex_pad_length [of 0 "q + 1"] x by (simp_all add: add.commute)
      ultimately show ?thesis
        using less.hyps [OF lt, of "q + 1" 0 "?tmp @ hex_pad ?x @ '' | '' @ graph_chars p (16 * q) ?x @ [CHR 0x0A]"] True x full less.prems
        by (simp add: dumped_def add.assoc add.commute add.left_commute)
    next
      case last
      have "hex_loop p x (16 * q) tmp = ?tmp @ hex_pad ?x @ '' | '' @ graph_chars p (16 * q) ?x @ [CHR 0x0A]"
        using True last by (subst hex_loop.simps, subst hex_loop.simps) (simp add: Let_def)
      moreover have "?x mod 16 = Suc r" "?x div 16 = q" "x mod 16 = r" "x div 16 = q"
        using r last(1) less.prems(1,2) by simp_all
      ultimately show ?thesis
        using graph_chars_length [of "Suc r" p q] hex_pad_length [of "Suc r" q] last r
        by (auto simp: dumped_def dump_length_def)
    next
      case mid
      have x: "?x mod 16 = Suc r" "?x div 16 = q" "x mod 16 = r" "x div 16 = q"
        using r mid(1) less.prems(1,2) by simp_all
      have d: "dumped ?x = 71 * q + 3 * Suc r + (if 8 \<le> Suc r then 1 else 0)" "dumped x = 71 * q + 3 * r + (if 8 \<le> r then 1 else 0)"
        by (simp_all add: dumped_def x)
      have m: "?x mod 8 = 0 \<longleftrightarrow> Suc r = 8"
        using x(1) mid(1) by presburger
      have "hex_loop p x (16 * q) tmp = hex_loop p ?x (16 * q) (if ?x mod 8 = 0 then ?tmp @ '' '' else ?tmp)"
        using True mid x(1) by (subst hex_loop.simps) (simp add: Let_def)
      with less.hyps [OF lt, of q "Suc r" "if ?x mod 8 = 0 then ?tmp @ '' '' else ?tmp"] True mid r m d show ?thesis
        by (auto split: if_splits)
    qed
  qed
qed

theorem print_hex_length: "length (print_hex what p) = length what + 12 + dump_length (length p)"
  using hex_loop_length [of 0 0 0 p "what @ '' contents: '' @ [CHR 0x0A]"] by (simp add: print_hex_def dumped_def)

text \<open>
  From seven full lines on, the text and its final NUL do not fit the buffer \<^verbatim>\<open>tmp\<close>.
\<close>

theorem print_hex_overflows:
  assumes "112 \<le> length p" "3 \<le> length what"
  shows "512 < length (print_hex what p) + 1"
proof -
  have "497 \<le> dump_length (length p)"
  proof -
    have "7 \<le> length p div 16" using assms(1) by presburger
    then show ?thesis by (simp add: dump_length_def)
  qed
  with assms(2) show ?thesis by (simp add: print_hex_length)
qed

end
