(* ===== verification/Spec2Isabelle.thy ===== *)
theory Spec2Isabelle
  imports Zeno_Rpc_Progress Zeno_Recovery Zeno_Sql_Props Zeno_Delete_Queue Zeno_Hooks Zeno_Float_Props
    Zeno_Concurrent_Text Zeno_Uio_File Zeno_Pmu Zeno_Frame Zeno_Wal_Io Zeno_Server Zeno_Variants Zeno_Util
begin

text \<open>
  ZENO keeps the values of sensitive database fields out of the database. PostgreSQL, in the
  integrity zone, stores 64-bit identifiers; the values live in the privacy zone, whose worker
  processes compute on them. A backend writes a request into a region of shared memory, a worker
  finds it by polling, runs it on the field store and writes the answer back. Two kernel drivers come
  with it: one maps the shared memory of a virtual machine into a process, the other opens the cycle
  counter of ARM processors to user programs.

  \<^bold>\<open>Theories and the code they model\<close> (paths below \<^verbatim>\<open>src/src\<close>)

  \<^item> \<^verbatim>\<open>Zeno_Prelude\<close>: the error monad \<open>kvm\<close> (\<^verbatim>\<open>KVDB_CHECK\<close> failures are \<open>Fatal\<close>, undefined behaviour of
    C++ is \<open>Undefined\<close>), little-endian bytes and memory, signed 32-bit arithmetic, C strings.
  \<^item> \<^verbatim>\<open>Zeno_Rid\<close>: field identifiers (\<^verbatim>\<open>include/rid.h\<close>).
  \<^item> \<^verbatim>\<open>Zeno_Local_Store\<close>: the temporaries of a worker (\<^verbatim>\<open>privacy_zone/include/kv-local.hpp\<close>).
  \<^item> \<^verbatim>\<open>Zeno_File_Map\<close>, \<^verbatim>\<open>Zeno_Concurrent_Text\<close>: the persistent stores in mapped files, by type and partition
    (\<^verbatim>\<open>privacy_zone/include/file-map-operator.hpp\<close>), and the text store under several workers at once.
  \<^item> \<^verbatim>\<open>Zeno_Variants\<close>: the checkpoint of the mapped files, and the stores of both files that other build
    options select.
  \<^item> \<^verbatim>\<open>Zeno_Kv\<close>: the field store over both (\<^verbatim>\<open>privacy_zone/include/kv.hpp\<close>).
  \<^item> \<^verbatim>\<open>Zeno_Like\<close>, \<^verbatim>\<open>Zeno_Float\<close>, \<^verbatim>\<open>Zeno_Timestamp\<close>, \<^verbatim>\<open>Zeno_Tee_Ops\<close>: pattern matching, IEEE-754
    arithmetic, the calendar, and the operations on fields (\<^verbatim>\<open>privacy_zone/tee.cpp\<close>).
  \<^item> \<^verbatim>\<open>Zeno_Crypto\<close>: encryption of values that leave the privacy zone (\<^verbatim>\<open>privacy_zone/crypto.cpp\<close>).
  \<^item> \<^verbatim>\<open>Zeno_Wal\<close>, \<^verbatim>\<open>Zeno_Recovery\<close>: the write-ahead log (\<^verbatim>\<open>privacy_zone/include/wal.hpp\<close>) and what
    replay recovers. \<^verbatim>\<open>Zeno_Wal_Io\<close>: the same file operations one level down, as system calls on bytes.
  \<^item> \<^verbatim>\<open>Zeno_Handler\<close>: the request handler (\<^verbatim>\<open>privacy_zone/handler.cpp\<close>) on the bytes of a request.
  \<^item> \<^verbatim>\<open>Zeno_Layout\<close>, \<^verbatim>\<open>Zeno_Frame\<close>: the structures of the requests (\<^verbatim>\<open>include/request_types.h\<close>,
    \<^verbatim>\<open>include/enc_types.h\<close>, \<^verbatim>\<open>include/rpc.h\<close>) as C types with their layout, and the members the handler writes.
  \<^item> \<^verbatim>\<open>Zeno_Rpc\<close>, \<^verbatim>\<open>Zeno_Rpc_Progress\<close>: the shared-memory channel (\<^verbatim>\<open>include/rpc.h\<close>,
    \<^verbatim>\<open>integrity_zone/client.cpp\<close>, \<^verbatim>\<open>privacy_zone/server.cpp\<close>) as a step relation. \<^verbatim>\<open>Zeno_Server\<close>: the
    processes of the server around it, from \<^verbatim>\<open>main\<close> to the end of the last worker.
  \<^item> \<^verbatim>\<open>Zeno_Request\<close>: the request classes (\<^verbatim>\<open>integrity_zone/include/request.hpp\<close>) and \<open>sendRequest\<close>,
    one exchange from the arguments of a backend to its result.
  \<^item> \<^verbatim>\<open>Zeno_Format\<close>, \<^verbatim>\<open>Zeno_Sql\<close>: the C library's \<^verbatim>\<open>atoi\<close> and \<^verbatim>\<open>sprintf\<close> as far as used, and the SQL
    functions of the four types (\<^verbatim>\<open>integrity_zone/int.cpp\<close>, \<^verbatim>\<open>float.cpp\<close>, \<^verbatim>\<open>text.cpp\<close>, \<^verbatim>\<open>timestamp.cpp\<close>).
  \<^item> \<^verbatim>\<open>Zeno_Delete_Queue\<close>: the ring buffer of deleted identifiers (\<^verbatim>\<open>integrity_zone/include/delete_queue.hpp\<close>).
  \<^item> \<^verbatim>\<open>Zeno_Extension\<close>: the executor and transaction hooks and the row trigger
    (\<^verbatim>\<open>integrity_zone/extension.cpp\<close>).
  \<^item> \<^verbatim>\<open>Zeno_Util\<close>: the spin lock and the hex dump (\<^verbatim>\<open>utils/util.cpp\<close>).
  \<^item> \<^verbatim>\<open>Zeno_Kernel\<close>, \<^verbatim>\<open>Zeno_Uio\<close>, \<^verbatim>\<open>Zeno_Uio_Resources\<close>, \<^verbatim>\<open>Zeno_Uio_File\<close>: the driver of the shared-memory
    device (\<^verbatim>\<open>tools/drivers/ivshmem-driver\<close> below \<^verbatim>\<open>src\<close>): a driver function is a program of kernel calls, run
    against a kernel that answers each call; registration and its error paths, then open files.
  \<^item> \<^verbatim>\<open>Zeno_Pmu\<close>: the driver of the cycle counter (\<^verbatim>\<open>tools/drivers/arm-pmu-driver\<close> below \<^verbatim>\<open>src\<close>).

  A C++ object is a record, its methods are functions of that record in the monad \<open>kvm\<close>, and \<open>zoom\<close>
  lifts a method of a part to the whole: the state of a worker, \<open>worker_state\<close>, has the field store, the
  cryptographic state, the log and the bytes of the request region; the state of a backend, \<open>ext\<close>, has
  the static variables of the extension and the worker behind its region.

  \<^bold>\<open>What the lemmas show\<close>

  \<^item> Stores: the locales \<open>temp_heap\<close>, \<open>append_store\<close> and \<open>store_kind\<close> state what the temporaries and the
    mapped files promise; \<open>field_store\<close> and \<open>field_kind\<close> give one map from identifiers to values, the
    view, which every operation of the field store refines. Temporaries never alias; texts of variable
    length do not disturb each other; a store that is full and an identifier that is not persistent are
    refused. Concurrent workers do not mix up their texts. A checkpoint covers every field handed out.
  \<^item> Operations: integer arithmetic is exact or overflows, float arithmetic is correctly rounded
    (\<^verbatim>\<open>Zeno_Float_Props\<close>), comparisons are signs, the year is the Gregorian one, LIKE decides the language
    of its pattern.
  \<^item> Channel: from the inductive step relation, that regions and answers are never mixed up and that a
    waiting backend can be answered. The handler writes only the members of the request that hold its
    result. A shutdown ends every worker between two requests, and can always be finished.
  \<^item> Log: payloads replay to the values they were built from, and only complete payloads replay.
    However the operating system splits and interrupts the transfers, a flush refines the append of its
    entries (locale \<open>transfer\<close>: a loop over partial transfers is one transfer); wherever it fails, the header
    counts no entry that is not in the file.
  \<^item> Exchanges: \<^verbatim>\<open>Zeno_Exchange\<close> reduces every request to the function that the worker calls, and
    \<^verbatim>\<open>Zeno_Sql_Props\<close> (locale \<open>scalar_sql\<close>) lifts this to SQL functions: texts and integers survive the way
    in and out, sums and extremes over arrays of any length.
  \<^item> Extension: \<^verbatim>\<open>Zeno_Promote\<close> (locale \<open>promotable\<close>) and \<^verbatim>\<open>Zeno_Trigger\<close> show that the row trigger moves
    a row into the partition of its relation, \<^verbatim>\<open>Zeno_Hooks\<close> how long temporaries live, under any nesting of
    queries, \<^verbatim>\<open>Zeno_Delete_Queue\<close> that the ring buffer refines two lists.
  \<^item> Drivers: whatever the kernel answers, registration and probing give back everything they took when
    they fail (locale \<open>attr_dir\<close> for the two attribute directories); mappings and page faults stay in the
    memory of the device; an open file keeps the device alive; the control file of the cycle counter
    reads back what was written.
  \<^item> Some theorems state what the code does where that is not what it means to do: a temporary
    that is replaced after an erase, two workers on one log, long batches, identifiers after replay, NaN
    in comparisons, the buffer of \<^verbatim>\<open>kv_int4_out\<close>, a full delete queue, a temporary in two columns, a
    query that is never closed, a text that is read while it is replaced, an open that races an
    unregistration, a power loss between two writes, a signal that \<^verbatim>\<open>waitpid\<close> does not notice, a request
    that is pending when the server ends, misaligned requests of a batch, a long hex dump, fields that a
    checkpoint misses, and a ring that is too small.

  \<^bold>\<open>Parameters\<close>

  Code outside the repository is an argument of the definitions that use it: AES-GCM (\<open>mbedtls\<close>, with
  \<open>gcm_correct\<close>), \<^verbatim>\<open>pow\<close> of the C library (\<open>libm\<close>), the parsers and printers of PostgreSQL (\<open>pg_float\<close>,
  \<open>pg_datetime\<close>), its tuple functions (\<open>heap_am\<close>, with \<open>heap_correct\<close>), its type catalogue (\<open>typid\<close>, with
  \<open>types_exist\<close>), its executor (\<open>executor\<close>, with \<open>executor_returns\<close>), and whether a file can be mapped
  (\<open>fm_mappable\<close>). For the frame of the handler, \<open>gcm_sized\<close> says that AES-GCM returns as many bytes as it is
  given. The operating system under the log is a function \<open>os\<close> from system calls to replies; \<open>steady\<close> says that
  it goes on, and no other theorem restricts it. The kernel under the drivers is a function of the same
  sort, with \<^verbatim>\<open>kstrtol\<close> for the control file. \<open>restart\<close> says whether a signal restarts \<^verbatim>\<open>waitpid\<close>; the theorems
  on shutdown hold for both.

  \<^bold>\<open>Bounds and fuel\<close>

  Machine integers have their width; an offset or identifier that must not wrap is bounded by the sizes
  of the files. \<open>handle_ops\<close> recurses into the requests of a batch, and its fuel is the nesting depth of
  batches: the SQL functions and the trigger send none, so that 1 is enough, and running out of fuel is
  the error \<open>FuelExhausted\<close>, which no theorem of a successful exchange admits. The loops
  that may wait for ever are \<^verbatim>\<open>partial_function\<close>s, for which not returning is \<open>None\<close>: the file lock, the
  transfers of the log and the blocking read of the driver. That they return, and when, is proved: for
  the log under every operating system that goes on, for the read exactly when some turn of its loop has a
  reason to. The spinning wait is a function of the values it reads. All other loops are recursions
  that Isabelle has proved terminating. The processes of the channel, of the server and of the spin lock
  are step relations.

  \<^bold>\<open>Configuration\<close>

  \<^verbatim>\<open>USE_KVMAP_PARTITION\<close>, \<^verbatim>\<open>USE_VARLEN_STRING\<close>, \<^verbatim>\<open>USE_LOCAL_STORE_CLEAR\<close>, \<^verbatim>\<open>USE_PG_WAL_FLUSH_HOOK\<close> and
  \<^verbatim>\<open>USE_OPS_CONTENTION_OPT\<close> are on, \<^verbatim>\<open>USE_LAZY_DELETE\<close> and \<^verbatim>\<open>USE_TDX_FIXED_SHM\<close> are off, and the release build
  drops \<^verbatim>\<open>assert\<close>. The delete queue, the rings of temporaries, the stores of fixed-length texts and the mapping
  of the fixed physical address belong to other configurations.

  \<^bold>\<open>Not modelled\<close>

  The memory model below sequentially consistent loads and stores of the status words; the timing
  macros (\<^verbatim>\<open>include/timing.h\<close>) and the messages of diagnostics; the registration of the SQL objects, which
  is SQL; the tables that register the drivers with the kernel, which are data; the preloaded
  configuration without partitions, which the stores share up to the name of the file; how Boost lays
  out a mapped file; the benchmarks and scripts around the program.
\<close>

end
